(* ===== verification/Prelude.thy ===== *)
theory Prelude
  imports "HOL-Library.Word"
begin

text \<open>
  Shared vocabulary of the development: the machine types the C++ code uses, the
  exceptions it throws, little-endian images of integers (the memory image of the packed
  structs of \<^verbatim>\<open>include/trftp/common.h\<close> on the little-endian hosts the library is built
  for), the contract of a fixed-width codec, and reachability of step relations with the
  contract of an inductive invariant.
\<close>

unbundle bit_operations_syntax

section \<open>Automation collection\<close>

text \<open>\<open>wire_simps\<close>: layout facts (lengths, offsets, field reads after writes).\<close>

named_theorems wire_simps

section \<open>Machine types and exceptions\<close>

type_synonym byte = "8 word"
type_synonym u16 = "16 word"
type_synonym u32 = "32 word"
type_synonym path = string

text \<open>
  A C++ exception as a value. \<open>Runtime_Error\<close> carries the message (without the number that
  ends those of the socket), \<open>Deadlock_Error\<close> is the \<^verbatim>\<open>std::system_error\<close> of a thread joining itself,
  \<open>Std_Terminate\<close> the end of the process that assigning to a joinable thread causes.
\<close>

datatype exn =
    Runtime_Error string
  | Filesystem_Error path
  | Invalid_Argument
  | Out_Of_Range
  | Deadlock_Error
  | Std_Terminate
  | Handler_Error

type_synonym 'a result = "exn + 'a"

section \<open>Sequencing fallible steps\<close>

text \<open>A statement that may throw, followed by the rest of the function.\<close>

definition bind_result :: "'a result \<Rightarrow> ('a \<Rightarrow> 'b result) \<Rightarrow> 'b result" where
  "bind_result r k = (case r of Inl e \<Rightarrow> Inl e | Inr a \<Rightarrow> k a)"

lemma bind_result_simps [simp]:
  "bind_result (Inl e) k = Inl e"
  "bind_result (Inr a) k = k a"
  by (simp_all add: bind_result_def)

lemma bind_result_eq_Inr:
  "bind_result r k = Inr b \<longleftrightarrow> (\<exists>a. r = Inr a \<and> k a = Inr b)"
  by (cases r) auto

lemma bind_result_eq_Inl:
  "bind_result r k = Inl e \<longleftrightarrow> r = Inl e \<or> (\<exists>a. r = Inr a \<and> k a = Inl e)"
  by (cases r) auto

section \<open>Little-endian byte images\<close>

fun le_bytes :: "nat \<Rightarrow> 'a::len word \<Rightarrow> byte list" where
  "le_bytes 0 w = []"
| "le_bytes (Suc n) w = ucast w # le_bytes n (drop_bit 8 w)"

fun of_le_bytes :: "byte list \<Rightarrow> 'a::len word" where
  "of_le_bytes [] = 0"
| "of_le_bytes (b # bs) = ucast b OR push_bit 8 (of_le_bytes bs)"

lemma length_le_bytes [simp, wire_simps]: "length (le_bytes n w) = n"
  by (induction n arbitrary: w) auto

lemma of_le_bytes_le_bytes: "of_le_bytes (le_bytes n w) = take_bit (8 * n) w"
proof (induction n arbitrary: w)
  case 0
  then show ?case by simp
next
  case (Suc n)
  show ?case
    by (rule bit_word_eqI) (auto simp: Suc.IH bit_simps)
qed

lemma of_le_bytes_le_bytes_full:
  fixes w :: "'a::len word"
  assumes "LENGTH('a) \<le> 8 * n"
  shows "of_le_bytes (le_bytes n w) = w"
  unfolding of_le_bytes_le_bytes
  by (rule bit_word_eqI) (use assms in \<open>auto simp: bit_simps\<close>)

lemma le_bytes_of_le_bytes:
  assumes "8 * length bs \<le> LENGTH('a)"
  shows "le_bytes (length bs) (of_le_bytes bs :: 'a::len word) = bs"
  using assms
proof (induction bs)
  case Nil
  then show ?case by simp
next
  case (Cons b bs)
  let ?w = "of_le_bytes bs :: 'a word"
  have low: "ucast (ucast b OR push_bit 8 ?w) = b"
    using Cons.prems by (auto intro!: bit_word_eqI simp: bit_simps)
  have small: "take_bit (8 * length bs) ?w = ?w"
    using Cons.IH Cons.prems of_le_bytes_le_bytes [of "length bs" ?w] by simp
  have small_bit: "i < 8 * length bs" if "bit ?w i" for i
    using that by (subst (asm) small [symmetric]) (simp add: bit_simps)
  have high: "drop_bit 8 (ucast b OR push_bit 8 ?w) = ?w"
  proof (rule bit_word_eqI)
    fix i assume "i < LENGTH('a)"
    have "\<not> bit b (8 + i)"
      using bit_imp_le_length [of b "8 + i"] by auto
    then show "bit (drop_bit 8 (ucast b OR push_bit 8 ?w)) i = bit ?w i"
      using small_bit [of i] Cons.prems by (auto simp: bit_simps)
  qed
  show ?case
    using Cons.IH Cons.prems low high by simp
qed


definition le16 :: "u16 \<Rightarrow> byte list" where
  "le16 w = le_bytes 2 w"

definition of_le16 :: "byte list \<Rightarrow> u16" where
  "of_le16 bs = of_le_bytes (take 2 bs)"

definition le32 :: "u32 \<Rightarrow> byte list" where
  "le32 w = le_bytes 4 w"

definition of_le32 :: "byte list \<Rightarrow> u32" where
  "of_le32 bs = of_le_bytes (take 4 bs)"

section \<open>The contract of a fixed-width codec\<close>

text \<open>
  A C++ struct read from or written to a byte buffer: the image has a fixed width, reading
  back what was written gives the value, and writing back what was read gives the bytes.
\<close>

locale fixed_codec =
  fixes width :: nat
    and enc :: "'a \<Rightarrow> byte list"
    and dec :: "byte list \<Rightarrow> 'a"
  assumes length_enc: "length (enc a) = width"
    and dec_enc: "dec (enc a @ rest) = a"
    and enc_dec: "width \<le> length bs \<Longrightarrow> enc (dec bs) = take width bs"
begin

lemma dec_enc_exact: "dec (enc a) = a"
  using dec_enc [of a "[]"] by simp

lemma enc_inject: "enc a = enc b \<longleftrightarrow> a = b"
  by (metis dec_enc_exact)

lemma dec_take: "width \<le> length bs \<Longrightarrow> width \<le> n \<Longrightarrow> dec (take n bs) = dec bs"
proof -
  assume w: "width \<le> length bs" "width \<le> n"
  have "enc (dec (take n bs)) = take width (take n bs)"
    using w by (intro enc_dec) simp
  also have "\<dots> = enc (dec bs)"
    using w by (simp add: enc_dec)
  finally show ?thesis by (simp add: enc_inject)
qed

lemma enc_dec_image: "width \<le> length bs \<Longrightarrow> enc (dec bs) @ drop width bs = bs"
  by (simp add: enc_dec)

end

interpretation le16: fixed_codec 2 le16 of_le16
proof unfold_locales
  show "le16 (of_le16 bs) = take 2 bs" if "2 \<le> length bs" for bs
    using that le_bytes_of_le_bytes [of "take 2 bs", where 'a = 16]
    by (simp add: le16_def of_le16_def)
qed (simp_all add: le16_def of_le16_def of_le_bytes_le_bytes_full)

interpretation le32: fixed_codec 4 le32 of_le32
proof unfold_locales
  show "le32 (of_le32 bs) = take 4 bs" if "4 \<le> length bs" for bs
    using that le_bytes_of_le_bytes [of "take 4 bs", where 'a = 32]
    by (simp add: le32_def of_le32_def)
qed (simp_all add: le32_def of_le32_def of_le_bytes_le_bytes_full)

lemmas [wire_simps] = le16.length_enc le32.length_enc le16.dec_enc le32.dec_enc
  le16.dec_enc_exact le32.dec_enc_exact

section \<open>Reachable states and inductive invariants\<close>

inductive reachable :: "('s \<Rightarrow> bool) \<Rightarrow> ('s \<Rightarrow> 's \<Rightarrow> bool) \<Rightarrow> 's \<Rightarrow> bool"
  for init :: "'s \<Rightarrow> bool" and step :: "'s \<Rightarrow> 's \<Rightarrow> bool" where
  reachable_init: "init s \<Longrightarrow> reachable init step s"
| reachable_step: "reachable init step s \<Longrightarrow> step s t \<Longrightarrow> reachable init step t"

text \<open>The contract of an inductive invariant, and what it gives: the invariant holds in
  every reachable state.\<close>

locale invariant_system =
  fixes init :: "'s \<Rightarrow> bool"
    and step :: "'s \<Rightarrow> 's \<Rightarrow> bool"
    and inv :: "'s \<Rightarrow> bool"
  assumes inv_init: "init s \<Longrightarrow> inv s"
    and inv_step: "inv s \<Longrightarrow> step s t \<Longrightarrow> inv t"
begin

lemma reachable_inv: "reachable init step s \<Longrightarrow> inv s"
  by (induction rule: reachable.induct) (auto intro: inv_init inv_step)

end

end
