(* ===== verification/Wire.thy ===== *)
theory Wire
  imports Prelude
begin

text \<open>
  \<^verbatim>\<open>include/trftp/common.h\<close>: the message identifiers, the packed header and payload
  structs with their memory images, and \<^verbatim>\<open>TrftpMessage\<close>, whose payload union is read and
  written through views. Also \<^verbatim>\<open>FtpStatusToString\<close> of \<^verbatim>\<open>src/util.cpp\<close>.
\<close>

section \<open>Message identifiers\<close>

text \<open>
  \<^verbatim>\<open>enum class MessageId : std::uint32_t\<close>. The underlying type is fixed, so
  \<^verbatim>\<open>MessageId(x)\<close> is a value for every 32-bit \<open>x\<close>: \<open>Unlisted x\<close> is one that no
  enumerator names. \<^verbatim>\<open>FtpStatus\<close> is an alias.
\<close>

datatype MessageId = NTF | CHK | INFO | RDY | CXL | DATA | RTX | DONE | FIN | Unlisted u32

type_synonym FtpStatus = MessageId

definition TRFTP_MAGIC :: u32 where
  "TRFTP_MAGIC = 0x524F424C"

fun xid_of :: "MessageId \<Rightarrow> u32" where
  "xid_of NTF = 0x4500000F"
| "xid_of CHK = 0x45FD0001"
| "xid_of INFO = 0x45FD0002"
| "xid_of RDY = 0x45FD0003"
| "xid_of CXL = 0x45FD000C"
| "xid_of DATA = 0x45FD000D"
| "xid_of RTX = 0x45FD000E"
| "xid_of DONE = 0x45FD000F"
| "xid_of FIN = 0x45FD000A"
| "xid_of (Unlisted x) = x"

definition message_id :: "u32 \<Rightarrow> MessageId" where
  "message_id x =
     (case List.find (\<lambda>m. xid_of m = x) [NTF, CHK, INFO, RDY, CXL, DATA, RTX, DONE, FIN] of
        Some m \<Rightarrow> m
      | None \<Rightarrow> Unlisted x)"

lemma xid_of_message_id [simp]: "xid_of (message_id x) = x"
  by (auto simp: message_id_def find_Some_iff split: option.splits)

text \<open>The enumerators have distinct codes, so a listed identifier survives the wire.\<close>

fun listed :: "MessageId \<Rightarrow> bool" where
  "listed (Unlisted x) = False"
| "listed m = True"

lemma message_id_xid_of [simp]: "listed m \<Longrightarrow> message_id (xid_of m) = m"
  by (cases m) (simp_all add: message_id_def)

lemma message_id_listed_iff: "listed m \<Longrightarrow> message_id x = m \<longleftrightarrow> x = xid_of m"
  by (metis message_id_xid_of xid_of_message_id)

section \<open>Status names\<close>

fun FtpStatusToString :: "FtpStatus \<Rightarrow> string" where
  "FtpStatusToString NTF = ''NTF''"
| "FtpStatusToString CHK = ''CHK''"
| "FtpStatusToString INFO = ''INFO''"
| "FtpStatusToString RDY = ''RDY''"
| "FtpStatusToString CXL = ''CXL''"
| "FtpStatusToString DATA = ''DATA''"
| "FtpStatusToString RTX = ''RTX''"
| "FtpStatusToString DONE = ''DONE''"
| "FtpStatusToString FIN = ''FIN''"
| "FtpStatusToString (Unlisted x) = ''UNKNOWN''"

lemma FtpStatusToString_inject:
  "listed a \<Longrightarrow> FtpStatusToString a = FtpStatusToString b \<longleftrightarrow> a = b"
  by (cases a; cases b) simp_all

section \<open>The packed header\<close>

record TrftpHeader =
  magic :: u32
  spid :: u16
  dpid :: u16
  tpn :: u32
  tpl :: u32
  xid :: u32
  crc32 :: u32
  psn :: u32
  pl :: u32

definition sizeof_TrftpHeader :: nat where
  "sizeof_TrftpHeader = 32"

definition sizeof_payload :: nat where
  "sizeof_payload = 1408"

definition sizeof_TrftpMessage :: nat where
  "sizeof_TrftpMessage = 1440"

lemmas sizeof_defs = sizeof_TrftpHeader_def sizeof_payload_def sizeof_TrftpMessage_def

definition header_bytes :: "TrftpHeader \<Rightarrow> byte list" where
  "header_bytes h =
     le32 (magic h) @ le16 (spid h) @ le16 (dpid h) @ le32 (tpn h) @ le32 (tpl h) @
     le32 (xid h) @ le32 (crc32 h) @ le32 (psn h) @ le32 (pl h)"

definition header_of_bytes :: "byte list \<Rightarrow> TrftpHeader" where
  "header_of_bytes bs =
     \<lparr>magic = of_le32 bs, spid = of_le16 (drop 4 bs), dpid = of_le16 (drop 6 bs),
      tpn = of_le32 (drop 8 bs), tpl = of_le32 (drop 12 bs), xid = of_le32 (drop 16 bs),
      crc32 = of_le32 (drop 20 bs), psn = of_le32 (drop 24 bs), pl = of_le32 (drop 28 bs)\<rparr>"

lemma length_header_bytes [simp, wire_simps]: "length (header_bytes h) = 32"
  by (simp add: header_bytes_def wire_simps)

lemma take_pieces:
  "take 4 (drop k bs) @ take m (drop (k + 4) bs) = take (4 + m) (drop k bs)"
  "take 2 (drop k bs) @ take m (drop (k + 2) bs) = take (2 + m) (drop k bs)"
  by (metis take_add drop_drop add.commute)+

interpretation header: fixed_codec 32 header_bytes header_of_bytes
proof unfold_locales
  fix bs :: "byte list"
  assume "32 \<le> length bs"
  then have "header_bytes (header_of_bytes bs) =
      take 4 (drop 0 bs) @ take 2 (drop 4 bs) @ take 2 (drop 6 bs) @ take 4 (drop 8 bs) @
      take 4 (drop 12 bs) @ take 4 (drop 16 bs) @ take 4 (drop 20 bs) @ take 4 (drop 24 bs) @
      take 4 (drop 28 bs)"
    by (simp add: header_bytes_def header_of_bytes_def le16.enc_dec le32.enc_dec)
  also have "\<dots> = take 32 bs"
    using take_pieces(1) [of 24 bs 4] take_pieces(1) [of 20 bs 8] take_pieces(1) [of 16 bs 12]
      take_pieces(1) [of 12 bs 16] take_pieces(1) [of 8 bs 20] take_pieces(2) [of 6 bs 24]
      take_pieces(2) [of 4 bs 26] take_pieces(1) [of 0 bs 28]
    by simp
  finally show "header_bytes (header_of_bytes bs) = take 32 bs" .
next
  show "header_of_bytes (header_bytes h @ rest) = h" for h rest
    by (cases h) (simp add: header_bytes_def header_of_bytes_def wire_simps drop_append)
qed simp


section \<open>The payload structs\<close>

lemma take_three_words:
  "take 4 bs @ take 4 (drop 4 bs) @ take 4 (drop 8 bs) = take 12 bs"
  using take_pieces(1) [of 4 bs 4] take_pieces(1) [of 0 bs 8] by simp

record TrftpNtf =
  ntf_new_file_version :: u32

definition ntf_bytes :: "TrftpNtf \<Rightarrow> byte list" where
  "ntf_bytes p = le32 (ntf_new_file_version p)"

definition ntf_of_bytes :: "byte list \<Rightarrow> TrftpNtf" where
  "ntf_of_bytes bs = \<lparr>ntf_new_file_version = of_le32 bs\<rparr>"

interpretation ntf_codec: fixed_codec 4 ntf_bytes ntf_of_bytes
proof unfold_locales
  show "ntf_of_bytes (ntf_bytes p @ rest) = p" for p rest
    by (cases p) (simp add: ntf_bytes_def ntf_of_bytes_def wire_simps)
qed (simp_all add: ntf_bytes_def ntf_of_bytes_def le32.enc_dec wire_simps)

record TrftpChk =
  chk_cur_file_version :: u32

definition chk_bytes :: "TrftpChk \<Rightarrow> byte list" where
  "chk_bytes p = le32 (chk_cur_file_version p)"

definition chk_of_bytes :: "byte list \<Rightarrow> TrftpChk" where
  "chk_of_bytes bs = \<lparr>chk_cur_file_version = of_le32 bs\<rparr>"

interpretation chk_codec: fixed_codec 4 chk_bytes chk_of_bytes
proof unfold_locales
  show "chk_of_bytes (chk_bytes p @ rest) = p" for p rest
    by (cases p) (simp add: chk_bytes_def chk_of_bytes_def wire_simps)
qed (simp_all add: chk_bytes_def chk_of_bytes_def le32.enc_dec wire_simps)

record TrftpInfo =
  info_new_file_version :: u32
  info_file_length :: u32
  info_crc32 :: u32

definition info_bytes :: "TrftpInfo \<Rightarrow> byte list" where
  "info_bytes p = le32 (info_new_file_version p) @ le32 (info_file_length p) @ le32 (info_crc32 p)"

definition info_of_bytes :: "byte list \<Rightarrow> TrftpInfo" where
  "info_of_bytes bs =
     \<lparr>info_new_file_version = of_le32 bs, info_file_length = of_le32 (drop 4 bs), info_crc32 = of_le32 (drop 8 bs)\<rparr>"

interpretation info_codec: fixed_codec 12 info_bytes info_of_bytes
proof unfold_locales
  show "info_bytes (info_of_bytes bs) = take 12 bs" if "12 \<le> length bs" for bs
    using that by (simp add: info_bytes_def info_of_bytes_def le32.enc_dec take_three_words)
  show "info_of_bytes (info_bytes p @ rest) = p" for p rest
    by (cases p) (simp add: info_bytes_def info_of_bytes_def wire_simps)
qed (simp add: info_bytes_def wire_simps)

record TrftpRdy =
  rdy_new_file_version :: u32
  rdy_file_length :: u32
  rdy_inter_packet_gap :: u32

definition rdy_bytes :: "TrftpRdy \<Rightarrow> byte list" where
  "rdy_bytes p = le32 (rdy_new_file_version p) @ le32 (rdy_file_length p) @ le32 (rdy_inter_packet_gap p)"

definition rdy_of_bytes :: "byte list \<Rightarrow> TrftpRdy" where
  "rdy_of_bytes bs =
     \<lparr>rdy_new_file_version = of_le32 bs, rdy_file_length = of_le32 (drop 4 bs), rdy_inter_packet_gap = of_le32 (drop 8 bs)\<rparr>"

interpretation rdy_codec: fixed_codec 12 rdy_bytes rdy_of_bytes
proof unfold_locales
  show "rdy_bytes (rdy_of_bytes bs) = take 12 bs" if "12 \<le> length bs" for bs
    using that by (simp add: rdy_bytes_def rdy_of_bytes_def le32.enc_dec take_three_words)
  show "rdy_of_bytes (rdy_bytes p @ rest) = p" for p rest
    by (cases p) (simp add: rdy_bytes_def rdy_of_bytes_def wire_simps)
qed (simp add: rdy_bytes_def wire_simps)

record TrftpDone =
  done_new_file_version :: u32
  done_file_length :: u32
  done_crc32 :: u32

definition done_bytes :: "TrftpDone \<Rightarrow> byte list" where
  "done_bytes p = le32 (done_new_file_version p) @ le32 (done_file_length p) @ le32 (done_crc32 p)"

definition done_of_bytes :: "byte list \<Rightarrow> TrftpDone" where
  "done_of_bytes bs =
     \<lparr>done_new_file_version = of_le32 bs, done_file_length = of_le32 (drop 4 bs), done_crc32 = of_le32 (drop 8 bs)\<rparr>"

interpretation done_codec: fixed_codec 12 done_bytes done_of_bytes
proof unfold_locales
  show "done_bytes (done_of_bytes bs) = take 12 bs" if "12 \<le> length bs" for bs
    using that by (simp add: done_bytes_def done_of_bytes_def le32.enc_dec take_three_words)
  show "done_of_bytes (done_bytes p @ rest) = p" for p rest
    by (cases p) (simp add: done_bytes_def done_of_bytes_def wire_simps)
qed (simp add: done_bytes_def wire_simps)

record TrftpRtx =
  rtx_retransmit_psn :: u32

definition rtx_bytes :: "TrftpRtx \<Rightarrow> byte list" where
  "rtx_bytes p = le32 (rtx_retransmit_psn p)"

definition rtx_of_bytes :: "byte list \<Rightarrow> TrftpRtx" where
  "rtx_of_bytes bs = \<lparr>rtx_retransmit_psn = of_le32 bs\<rparr>"

interpretation rtx_codec: fixed_codec 4 rtx_bytes rtx_of_bytes
proof unfold_locales
  show "rtx_of_bytes (rtx_bytes p @ rest) = p" for p rest
    by (cases p) (simp add: rtx_bytes_def rtx_of_bytes_def wire_simps)
qed (simp_all add: rtx_bytes_def rtx_of_bytes_def le32.enc_dec wire_simps)

text \<open>
  The sizes the code compares against. \<^verbatim>\<open>TrftpCxl\<close> has no member; an empty C++ class has
  size one, which the server's check of the message takes into account.
\<close>

datatype TrftpCxl = TrftpCxl

definition sizeof_TrftpNtf :: nat where "sizeof_TrftpNtf = 4"
definition sizeof_TrftpChk :: nat where "sizeof_TrftpChk = 4"
definition sizeof_TrftpInfo :: nat where "sizeof_TrftpInfo = 12"
definition sizeof_TrftpRdy :: nat where "sizeof_TrftpRdy = 12"
definition sizeof_TrftpData :: nat where "sizeof_TrftpData = 1408"
definition sizeof_TrftpDone :: nat where "sizeof_TrftpDone = 12"
definition sizeof_TrftpCxl :: nat where "sizeof_TrftpCxl = 1"
definition sizeof_TrftpRtx :: nat where "sizeof_TrftpRtx = 4"

lemmas sizeof_payload_defs = sizeof_TrftpNtf_def sizeof_TrftpChk_def sizeof_TrftpInfo_def
  sizeof_TrftpRdy_def sizeof_TrftpData_def sizeof_TrftpDone_def sizeof_TrftpCxl_def
  sizeof_TrftpRtx_def

section \<open>Messages\<close>

text \<open>The union of payloads is its bytes; a member is a view of them.\<close>

record TrftpMessage =
  header :: TrftpHeader
  payload :: "byte list"

definition wf_message :: "TrftpMessage \<Rightarrow> bool" where
  "wf_message m \<longleftrightarrow> length (payload m) = 1408"

definition message_bytes :: "TrftpMessage \<Rightarrow> byte list" where
  "message_bytes m = header_bytes (header m) @ payload m"

definition message_of_bytes :: "byte list \<Rightarrow> TrftpMessage" where
  "message_of_bytes bs = \<lparr>header = header_of_bytes bs, payload = drop 32 bs\<rparr>"

text \<open>Assigning to a member of the union overwrites the first bytes and leaves the rest.\<close>

definition put_payload :: "byte list \<Rightarrow> TrftpMessage \<Rightarrow> TrftpMessage" where
  "put_payload img m = m\<lparr>payload := img @ drop (length img) (payload m)\<rparr>"

lemma header_put_payload [simp]: "header (put_payload img m) = header m"
  by (simp add: put_payload_def)

lemma payload_put_payload: "payload (put_payload img m) = img @ drop (length img) (payload m)"
  by (simp add: put_payload_def)

lemma take_payload_put_payload [wire_simps]:
  "n \<le> length img \<Longrightarrow> take n (payload (put_payload img m)) = take n img"
  by (simp add: payload_put_payload)

lemma wf_put_payload [simp]:
  "wf_message m \<Longrightarrow> length img \<le> 1408 \<Longrightarrow> wf_message (put_payload img m)"
  by (simp add: wf_message_def payload_put_payload)

lemma wf_message_update_header [simp]: "wf_message (m\<lparr>header := h\<rparr>) = wf_message m"
  by (simp add: wf_message_def)

lemma length_message_bytes [simp, wire_simps]: "wf_message m \<Longrightarrow> length (message_bytes m) = 1440"
  by (simp add: message_bytes_def wf_message_def)

lemma message_of_bytes_message_bytes [simp]: "message_of_bytes (message_bytes m) = m"
  by (simp add: message_of_bytes_def message_bytes_def header.dec_enc)

lemma message_bytes_message_of_bytes:
  "32 \<le> length bs \<Longrightarrow> message_bytes (message_of_bytes bs) = bs"
  by (simp add: message_of_bytes_def message_bytes_def header.enc_dec_image)

lemma wf_message_of_bytes: "length bs = 1440 \<Longrightarrow> wf_message (message_of_bytes bs)"
  by (simp add: message_of_bytes_def wf_message_def)

section \<open>Sending and receiving a message buffer\<close>

text \<open>
  \<^verbatim>\<open>sendto(fd_, &msg, len, ...)\<close> puts the first \<open>len\<close> bytes of the struct on the wire.
  \<^verbatim>\<open>recvfrom(fd_, &msg, sizeof(msg), ...)\<close> overwrites the start of an uninitialised struct
  with the datagram, cut at the size of the struct, and returns the number of bytes written.
\<close>

definition send_image :: "TrftpMessage \<Rightarrow> nat \<Rightarrow> byte list" where
  "send_image m len = take len (message_bytes m)"

definition recv_into :: "TrftpMessage \<Rightarrow> byte list \<Rightarrow> TrftpMessage" where
  "recv_into m bs =
     message_of_bytes (take sizeof_TrftpMessage bs @ drop (length bs) (message_bytes m))"

definition recv_len :: "byte list \<Rightarrow> nat" where
  "recv_len bs = min (length bs) sizeof_TrftpMessage"

lemma message_bytes_recv_into:
  "wf_message m \<Longrightarrow> message_bytes (recv_into m bs) = take 1440 bs @ drop (length bs) (message_bytes m)"
  unfolding recv_into_def sizeof_defs
  by (rule message_bytes_message_of_bytes) simp

lemma wf_recv_into [simp]: "wf_message m \<Longrightarrow> wf_message (recv_into m bs)"
  unfolding recv_into_def sizeof_defs by (rule wf_message_of_bytes) simp

lemma recv_len_le: "recv_len bs \<le> 1440"
  by (simp add: recv_len_def sizeof_defs)

text \<open>What a receiver sees of a message the sender cut at \<open>len\<close> bytes.\<close>

lemma send_image_recv_into:
  "wf_message m \<Longrightarrow> send_image (recv_into m bs) (recv_len bs) = take 1440 bs"
  by (simp add: send_image_def message_bytes_recv_into recv_len_def sizeof_defs min_def)

lemma recv_len_send_image:
  "wf_message m \<Longrightarrow> len \<le> 1440 \<Longrightarrow> recv_len (send_image m len) = len"
  by (simp add: recv_len_def send_image_def sizeof_defs)

lemma recv_send_image:
  assumes "wf_message m" "wf_message j" "32 \<le> len" "len \<le> 1440"
  shows "header (recv_into j (send_image m len)) = header m"
    and "take (len - 32) (payload (recv_into j (send_image m len))) = take (len - 32) (payload m)"
proof -
  have img: "send_image m len = header_bytes (header m) @ take (len - 32) (payload m)"
    using assms by (simp add: send_image_def message_bytes_def)
  have len: "length (take (len - 32) (payload m)) = len - 32"
    using assms by (simp add: wf_message_def)
  show "header (recv_into j (send_image m len)) = header m"
    using assms img by (simp add: recv_into_def message_of_bytes_def sizeof_defs header.dec_enc)
  show "take (len - 32) (payload (recv_into j (send_image m len))) = take (len - 32) (payload m)"
    using assms img len by (simp add: recv_into_def message_of_bytes_def sizeof_defs)
qed

section \<open>Payload members\<close>

definition msg_ntf :: "TrftpMessage \<Rightarrow> TrftpNtf" where "msg_ntf m = ntf_of_bytes (payload m)"
definition msg_chk :: "TrftpMessage \<Rightarrow> TrftpChk" where "msg_chk m = chk_of_bytes (payload m)"
definition msg_info :: "TrftpMessage \<Rightarrow> TrftpInfo" where "msg_info m = info_of_bytes (payload m)"
definition msg_rdy :: "TrftpMessage \<Rightarrow> TrftpRdy" where "msg_rdy m = rdy_of_bytes (payload m)"
definition msg_done :: "TrftpMessage \<Rightarrow> TrftpDone" where "msg_done m = done_of_bytes (payload m)"
definition msg_rtx :: "TrftpMessage \<Rightarrow> TrftpRtx" where "msg_rtx m = rtx_of_bytes (payload m)"

text \<open>A member read back from the first bytes of a payload that agrees with what was put.\<close>

lemma payload_view:
  assumes "take n p = img" "length img = n"
  shows "\<exists>rest. p = img @ rest"
  by (metis assms append_take_drop_id)

end
