(* ===== verification/Crc32.thy ===== *)
theory Crc32
  imports Prelude
begin

text \<open>
  \<^verbatim>\<open>CalculateCrc32\<close> of \<^verbatim>\<open>src/util.cpp\<close> with its table. The table-driven step is shown equal
  to eight steps of the bitwise shift register of the reflected polynomial 0xEDB88320, and
  from the register's linearity follow injectivity and the detection of error bursts.
\<close>

section \<open>The routine of the code\<close>

definition crc32_table :: "u32 list" where
  "crc32_table =
    [0x00000000, 0x77073096, 0xee0e612c, 0x990951ba, 0x076dc419, 0x706af48f, 0xe963a535, 0x9e6495a3,
     0x0edb8832, 0x79dcb8a4, 0xe0d5e91e, 0x97d2d988, 0x09b64c2b, 0x7eb17cbd, 0xe7b82d07, 0x90bf1d91,
     0x1db71064, 0x6ab020f2, 0xf3b97148, 0x84be41de, 0x1adad47d, 0x6ddde4eb, 0xf4d4b551, 0x83d385c7,
     0x136c9856, 0x646ba8c0, 0xfd62f97a, 0x8a65c9ec, 0x14015c4f, 0x63066cd9, 0xfa0f3d63, 0x8d080df5,
     0x3b6e20c8, 0x4c69105e, 0xd56041e4, 0xa2677172, 0x3c03e4d1, 0x4b04d447, 0xd20d85fd, 0xa50ab56b,
     0x35b5a8fa, 0x42b2986c, 0xdbbbc9d6, 0xacbcf940, 0x32d86ce3, 0x45df5c75, 0xdcd60dcf, 0xabd13d59,
     0x26d930ac, 0x51de003a, 0xc8d75180, 0xbfd06116, 0x21b4f4b5, 0x56b3c423, 0xcfba9599, 0xb8bda50f,
     0x2802b89e, 0x5f058808, 0xc60cd9b2, 0xb10be924, 0x2f6f7c87, 0x58684c11, 0xc1611dab, 0xb6662d3d,
     0x76dc4190, 0x01db7106, 0x98d220bc, 0xefd5102a, 0x71b18589, 0x06b6b51f, 0x9fbfe4a5, 0xe8b8d433,
     0x7807c9a2, 0x0f00f934, 0x9609a88e, 0xe10e9818, 0x7f6a0dbb, 0x086d3d2d, 0x91646c97, 0xe6635c01,
     0x6b6b51f4, 0x1c6c6162, 0x856530d8, 0xf262004e, 0x6c0695ed, 0x1b01a57b, 0x8208f4c1, 0xf50fc457,
     0x65b0d9c6, 0x12b7e950, 0x8bbeb8ea, 0xfcb9887c, 0x62dd1ddf, 0x15da2d49, 0x8cd37cf3, 0xfbd44c65,
     0x4db26158, 0x3ab551ce, 0xa3bc0074, 0xd4bb30e2, 0x4adfa541, 0x3dd895d7, 0xa4d1c46d, 0xd3d6f4fb,
     0x4369e96a, 0x346ed9fc, 0xad678846, 0xda60b8d0, 0x44042d73, 0x33031de5, 0xaa0a4c5f, 0xdd0d7cc9,
     0x5005713c, 0x270241aa, 0xbe0b1010, 0xc90c2086, 0x5768b525, 0x206f85b3, 0xb966d409, 0xce61e49f,
     0x5edef90e, 0x29d9c998, 0xb0d09822, 0xc7d7a8b4, 0x59b33d17, 0x2eb40d81, 0xb7bd5c3b, 0xc0ba6cad,
     0xedb88320, 0x9abfb3b6, 0x03b6e20c, 0x74b1d29a, 0xead54739, 0x9dd277af, 0x04db2615, 0x73dc1683,
     0xe3630b12, 0x94643b84, 0x0d6d6a3e, 0x7a6a5aa8, 0xe40ecf0b, 0x9309ff9d, 0x0a00ae27, 0x7d079eb1,
     0xf00f9344, 0x8708a3d2, 0x1e01f268, 0x6906c2fe, 0xf762575d, 0x806567cb, 0x196c3671, 0x6e6b06e7,
     0xfed41b76, 0x89d32be0, 0x10da7a5a, 0x67dd4acc, 0xf9b9df6f, 0x8ebeeff9, 0x17b7be43, 0x60b08ed5,
     0xd6d6a3e8, 0xa1d1937e, 0x38d8c2c4, 0x4fdff252, 0xd1bb67f1, 0xa6bc5767, 0x3fb506dd, 0x48b2364b,
     0xd80d2bda, 0xaf0a1b4c, 0x36034af6, 0x41047a60, 0xdf60efc3, 0xa867df55, 0x316e8eef, 0x4669be79,
     0xcb61b38c, 0xbc66831a, 0x256fd2a0, 0x5268e236, 0xcc0c7795, 0xbb0b4703, 0x220216b9, 0x5505262f,
     0xc5ba3bbe, 0xb2bd0b28, 0x2bb45a92, 0x5cb36a04, 0xc2d7ffa7, 0xb5d0cf31, 0x2cd99e8b, 0x5bdeae1d,
     0x9b64c2b0, 0xec63f226, 0x756aa39c, 0x026d930a, 0x9c0906a9, 0xeb0e363f, 0x72076785, 0x05005713,
     0x95bf4a82, 0xe2b87a14, 0x7bb12bae, 0x0cb61b38, 0x92d28e9b, 0xe5d5be0d, 0x7cdcefb7, 0x0bdbdf21,
     0x86d3d2d4, 0xf1d4e242, 0x68ddb3f8, 0x1fda836e, 0x81be16cd, 0xf6b9265b, 0x6fb077e1, 0x18b74777,
     0x88085ae6, 0xff0f6a70, 0x66063bca, 0x11010b5c, 0x8f659eff, 0xf862ae69, 0x616bffd3, 0x166ccf45,
     0xa00ae278, 0xd70dd2ee, 0x4e048354, 0x3903b3c2, 0xa7672661, 0xd06016f7, 0x4969474d, 0x3e6e77db,
     0xaed16a4a, 0xd9d65adc, 0x40df0b66, 0x37d83bf0, 0xa9bcae53, 0xdebb9ec5, 0x47b2cf7f, 0x30b5ffe9,
     0xbdbdf21c, 0xcabac28a, 0x53b39330, 0x24b4a3a6, 0xbad03605, 0xcdd70693, 0x54de5729, 0x23d967bf,
     0xb3667a2e, 0xc4614ab8, 0x5d681b02, 0x2a6f2b94, 0xb40bbe37, 0xc30c8ea1, 0x5a05df1b, 0x2d02ef8d]"

text \<open>One turn of the \<^verbatim>\<open>while (size--)\<close> loop, and the loop over the bytes it reads.\<close>

definition crc32_step :: "u32 \<Rightarrow> byte \<Rightarrow> u32" where
  "crc32_step c b =
     crc32_table ! unat ((c XOR ucast b) AND 0xff) XOR drop_bit 8 c"

fun crc32_loop :: "u32 \<Rightarrow> byte list \<Rightarrow> u32" where
  "crc32_loop c [] = c"
| "crc32_loop c (b # bs) = crc32_loop (crc32_step c b) bs"

definition CalculateCrc32 :: "byte list \<Rightarrow> nat \<Rightarrow> u32 \<Rightarrow> u32" where
  "CalculateCrc32 buf sz crc = NOT (crc32_loop (NOT crc) (take sz buf))"

section \<open>The bitwise reference\<close>

definition crc_bit :: "u32 \<Rightarrow> u32" where
  "crc_bit c = (if bit c 0 then drop_bit 1 c XOR 0xEDB88320 else drop_bit 1 c)"

definition crc_byte_ref :: "u32 \<Rightarrow> byte \<Rightarrow> u32" where
  "crc_byte_ref c b = (crc_bit ^^ 8) (c XOR ucast b)"

lemma crc_bit_xor: "crc_bit (x XOR y) = crc_bit x XOR crc_bit y"
  by (rule bit_word_eqI) (auto simp: crc_bit_def bit_simps)

lemma crc_bits_xor: "(crc_bit ^^ n) (x XOR y) = (crc_bit ^^ n) x XOR (crc_bit ^^ n) y"
  by (induction n) (simp_all add: crc_bit_xor)

text \<open>While only zero bits leave the register it just shifts.\<close>

lemma crc_bits_shift: "take_bit n x = 0 \<Longrightarrow> (crc_bit ^^ n) x = drop_bit n x"
proof (induction n)
  case 0
  show ?case by simp
next
  case (Suc n)
  have low: "\<not> bit x i" if "i < Suc n" for i
    using Suc.prems that bit_take_bit_iff [of "Suc n" x i] by simp
  then have "take_bit n x = 0"
    by (intro bit_word_eqI) (auto simp: bit_simps)
  with Suc.IH have "(crc_bit ^^ n) x = drop_bit n x" by simp
  moreover have "crc_bit (drop_bit n x) = drop_bit (Suc n) x"
    using low [of n] by (simp add: crc_bit_def bit_simps)
  ultimately show ?case by simp
qed

lemma crc_bit_top: "bit (crc_bit x) 31 = bit x 0"
  using bit_imp_le_length [of x 32] by (auto simp: crc_bit_def bit_simps)

lemma xor_cancel_right: "(x :: u32) XOR k = y XOR k \<longleftrightarrow> x = y"
  by (metis xor.assoc xor.right_neutral xor_self_eq)

lemma xor_left_cancel: "(k :: u32) XOR x = k XOR y \<longleftrightarrow> x = y"
  by (metis xor.assoc xor.left_neutral xor_self_eq)

lemma crc_bit_inject: "crc_bit x = crc_bit y \<longleftrightarrow> x = y"
proof
  assume eq: "crc_bit x = crc_bit y"
  then have b0: "bit x 0 = bit y 0"
    by (metis crc_bit_top)
  with eq have "drop_bit 1 x = drop_bit 1 y"
    by (auto simp: crc_bit_def xor_cancel_right split: if_splits)
  then have "bit x (Suc i) = bit y (Suc i)" for i
    by (metis bit_drop_bit_eq comp_apply plus_1_eq_Suc)
  with b0 show "x = y"
    by (intro bit_word_eqI) (metis not0_implies_Suc)
qed simp

lemma crc_bits_inject: "(crc_bit ^^ n) x = (crc_bit ^^ n) y \<longleftrightarrow> x = y"
  by (induction n) (simp_all add: crc_bit_inject)

section \<open>The table is eight register steps\<close>

lemma crc_bits_8:
  "(crc_bit ^^ 8) x =
     crc_bit (crc_bit (crc_bit (crc_bit (crc_bit (crc_bit (crc_bit (crc_bit x)))))))"
  by (simp add: eval_nat_numeral)

definition crc_tab :: "nat \<Rightarrow> u32" where
  "crc_tab i = (crc_bit ^^ 8) (of_nat i)"

lemma crc32_table_reference: "crc32_table = map crc_tab [0..<256]"
proof -
  have "[0..<256::nat] = 0 # 1 # [2..<256]"
    by (simp add: upt_conv_Cons numeral_2_eq_2)
  then have "map crc_tab [0..<256] = crc_tab 0 # crc_tab 1 # map crc_tab [2..<256]"
    by simp
  also have "\<dots> = crc32_table"
    by (simp add: crc32_table_def upt_rec_numeral)
      (simp add: crc_tab_def crc_bits_8 crc_bit_def)
  finally show ?thesis ..
qed

lemma length_crc32_table: "length crc32_table = 256"
  by (simp add: crc32_table_reference)

lemma crc32_table_nth: "i < 256 \<Longrightarrow> crc32_table ! i = (crc_bit ^^ 8) (of_nat i)"
  by (simp add: crc32_table_reference crc_tab_def)

lemma and_ff: "x AND 0xff = take_bit 8 (x :: u32)"
  by (simp add: take_bit_eq_mask mask_eq_exp_minus_1)

lemma low_byte_less: "unat (take_bit 8 (x :: u32)) < 256"
  using take_bit_nat_less_exp [of 8 "unat x"] by (simp add: unsigned_take_bit_eq)

lemma crc_bits_8_table: "(crc_bit ^^ 8) x = crc32_table ! unat (take_bit 8 x) XOR drop_bit 8 x"
proof -
  have split: "x = take_bit 8 x XOR push_bit 8 (drop_bit 8 x)"
  proof (rule bit_word_eqI)
    fix n assume "n < LENGTH(32)"
    then show "bit x n = bit (take_bit 8 x XOR push_bit 8 (drop_bit 8 x)) n"
      by (cases "n < 8") (auto simp: bit_simps)
  qed
  have z: "take_bit 8 (push_bit 8 (drop_bit 8 x)) = 0"
    by (rule bit_word_eqI) (auto simp: bit_simps)
  have d: "drop_bit 8 (push_bit 8 (drop_bit 8 x)) = drop_bit 8 x"
    by (rule bit_word_eqI) (auto simp: bit_simps dest: bit_imp_le_length)
  have "(crc_bit ^^ 8) x = (crc_bit ^^ 8) (take_bit 8 x) XOR (crc_bit ^^ 8) (push_bit 8 (drop_bit 8 x))"
    by (subst split) (rule crc_bits_xor)
  also have "(crc_bit ^^ 8) (push_bit 8 (drop_bit 8 x)) = drop_bit 8 x"
    using z d by (simp add: crc_bits_shift)
  also have "(crc_bit ^^ 8) (take_bit 8 x) = crc32_table ! unat (take_bit 8 x)"
    using low_byte_less [of x] by (simp add: crc32_table_nth)
  finally show ?thesis .
qed

lemma crc32_step_reference: "crc32_step c b = crc_byte_ref c b"
proof -
  have "drop_bit 8 (c XOR ucast b) = drop_bit 8 c"
    using bit_imp_le_length [of b] by (intro bit_word_eqI) (force simp: bit_simps)
  then show ?thesis
    by (simp only: crc32_step_def crc_byte_ref_def crc_bits_8_table and_ff)
qed

section \<open>Streaming\<close>

text \<open>
  The contract of a checksum computed piecewise: continuing from the checksum of a prefix
  gives the checksum of the whole. \<open>chunked\<close> is what a client that reads fixed-size chunks
  may then rely on.
\<close>

locale streaming_checksum =
  fixes sum :: "byte list \<Rightarrow> u32 \<Rightarrow> u32"
  assumes sum_Nil: "sum [] c = c"
    and sum_append: "sum (xs @ ys) c = sum ys (sum xs c)"
begin

lemma sum_concat: "sum (concat xss) c = foldl (\<lambda>c xs. sum xs c) c xss"
  by (induction xss arbitrary: c) (simp_all add: sum_Nil sum_append)

lemma sum_take_drop: "sum (drop n xs) (sum (take n xs) c) = sum xs c"
  by (metis append_take_drop_id sum_append)

end

lemma crc32_loop_append: "crc32_loop c (xs @ ys) = crc32_loop (crc32_loop c xs) ys"
  by (induction c xs rule: crc32_loop.induct) simp_all

interpretation crc32: streaming_checksum "\<lambda>bs c. CalculateCrc32 bs (length bs) c"
  by unfold_locales (simp_all add: CalculateCrc32_def crc32_loop_append)

lemma CalculateCrc32_Nil [simp]: "CalculateCrc32 [] n c = c"
  by (simp add: CalculateCrc32_def)

section \<open>Error detection\<close>

lemma crc_byte_ref_inject: "crc_byte_ref c b = crc_byte_ref c' b \<longleftrightarrow> c = c'"
  by (simp add: crc_byte_ref_def crc_bits_inject xor_cancel_right)

lemma crc32_loop_inject: "crc32_loop c bs = crc32_loop c' bs \<longleftrightarrow> c = c'"
  by (induction bs arbitrary: c c')
    (simp_all add: crc32_step_reference crc_byte_ref_inject)

text \<open>At most four bytes go through the register as one word.\<close>

lemma crc_bits_absorb:
  assumes "drop_bit 24 r = (0 :: u32)"
  shows "(crc_bit ^^ 8) (x XOR push_bit 8 r) = (crc_bit ^^ 8) x XOR r"
proof -
  have z: "take_bit 8 (push_bit 8 r) = 0"
    by (rule bit_word_eqI) (auto simp: bit_simps)
  have "\<not> bit r i" if "24 \<le> i" for i
    using assms that bit_drop_bit_eq [of 24 r] by (auto dest!: fun_cong [where x = "i - 24"])
  then have "drop_bit 8 (push_bit 8 r) = r"
    by (intro bit_word_eqI) (auto simp: bit_simps, meson not_le)
  with z show ?thesis by (simp add: crc_bits_xor crc_bits_shift)
qed


lemma crc32_loop_word:
  assumes "length bs \<le> 4"
  shows "crc32_loop c bs = (crc_bit ^^ (8 * length bs)) (c XOR of_le_bytes bs)"
  using assms
proof (induction bs arbitrary: c)
  case Nil
  then show ?case by simp
next
  case (Cons b bs)
  let ?r = "of_le_bytes bs :: u32"
  have "take_bit (8 * length bs) ?r = ?r"
    using Cons.prems of_le_bytes_le_bytes [of "length bs" ?r]
      le_bytes_of_le_bytes [of bs, where 'a = 32] by simp
  then have "bit ?r i \<Longrightarrow> i < 24" for i
    using Cons.prems bit_take_bit_iff [of "8 * length bs" ?r i] by auto
  then have small: "drop_bit 24 ?r = 0"
    by (intro bit_word_eqI) (auto simp: bit_simps dest: leD)
  have disj: "ucast b OR push_bit 8 ?r = (ucast b :: u32) XOR push_bit 8 ?r"
    using bit_imp_le_length [of b] by (intro bit_word_eqI) (force simp: bit_simps)
  have "crc32_loop c (b # bs) = (crc_bit ^^ (8 * length bs)) (crc_byte_ref c b XOR ?r)"
    using Cons.IH Cons.prems by (simp add: crc32_step_reference)
  also have "crc_byte_ref c b XOR ?r = (crc_bit ^^ 8) (c XOR ucast b XOR push_bit 8 ?r)"
    by (simp only: crc_byte_ref_def crc_bits_absorb [OF small] flip: xor.assoc)
  also have "(crc_bit ^^ (8 * length bs)) \<dots>
      = (crc_bit ^^ (8 * length (b # bs))) (c XOR of_le_bytes (b # bs))"
  proof -
    have n: "8 * length (b # bs) = 8 * length bs + 8" by simp
    show ?thesis by (simp only: n funpow_add disj o_apply of_le_bytes.simps xor.assoc)
  qed
  finally show ?case .
qed

lemma of_le_bytes_inject:
  assumes len: "length xs = length ys" "length ys \<le> 4"
    and eq: "(of_le_bytes xs :: u32) = of_le_bytes ys"
  shows "xs = ys"
proof -
  have "le_bytes (length bs) (of_le_bytes bs :: u32) = bs" if "length bs \<le> 4" for bs
    using that by (rule_tac le_bytes_of_le_bytes) simp
  from this [of xs] this [of ys] show ?thesis
    using len eq by metis
qed

text \<open>
  Two buffers of the same length that differ inside one window of at most four bytes have
  different checksums, whatever surrounds the window.
\<close>

lemma crc32_loop_burst:
  assumes "length w = length w'" "length w \<le> 4" "w \<noteq> w'"
  shows "crc32_loop c (pre @ w @ post) \<noteq> crc32_loop c (pre @ w' @ post)"
proof
  assume "crc32_loop c (pre @ w @ post) = crc32_loop c (pre @ w' @ post)"
  then have "crc32_loop (crc32_loop c pre) w = crc32_loop (crc32_loop c pre) w'"
    by (simp add: crc32_loop_append crc32_loop_inject)
  then have "(of_le_bytes w :: u32) = of_le_bytes w'"
    using assms by (simp add: crc32_loop_word crc_bits_inject xor_left_cancel)
  with assms show False by (metis of_le_bytes_inject)
qed

lemma CalculateCrc32_burst:
  assumes "length w = length w'" "length w \<le> 4" "w \<noteq> w'"
    and "n = length (pre @ w @ post)"
  shows "CalculateCrc32 (pre @ w @ post) n c \<noteq> CalculateCrc32 (pre @ w' @ post) n c"
  using assms crc32_loop_burst [of w w' "NOT c" pre post] by (simp add: CalculateCrc32_def)

lemma CalculateCrc32_take: "CalculateCrc32 (take n bs) n c = CalculateCrc32 bs n c"
  by (simp add: CalculateCrc32_def)

end
