(* ===== verification/Integrity.thy ===== *)
theory Integrity
  imports Wire Crc32
begin

text \<open>
  What both peers do with the checksum field of a message: the sender blanks it, computes
  the CRC of the first bytes of the struct and stores it; the receiver exchanges it for
  zero, recomputes and compares. The locale is the contract of a receiver's
  \<^verbatim>\<open>ValidateMessageIntegrity\<close>; the client and the server interpret it on their own copy.
\<close>

section \<open>Blanking and sealing\<close>

definition zero_crc :: "TrftpMessage \<Rightarrow> TrftpMessage" where
  "zero_crc m = m\<lparr>header := (header m)\<lparr>crc32 := 0\<rparr>\<rparr>"

text \<open>\<^verbatim>\<open>msg.header.crc32 = 0U; msg.header.crc32 = CalculateCrc32(&msg, len, 0U)\<close>\<close>

definition seal :: "nat \<Rightarrow> TrftpMessage \<Rightarrow> TrftpMessage" where
  "seal len m =
     m\<lparr>header := (header m)\<lparr>crc32 := CalculateCrc32 (message_bytes (zero_crc m)) len 0\<rparr>\<rparr>"

lemma wf_zero_crc [simp]: "wf_message (zero_crc m) = wf_message m"
  by (simp add: zero_crc_def)

lemma wf_seal [simp]: "wf_message (seal len m) = wf_message m"
  by (simp add: seal_def)

lemma payload_seal [simp]: "payload (seal len m) = payload m"
  by (simp add: seal_def)

lemma header_seal_fields [simp]:
  "magic (header (seal len m)) = magic (header m)"
  "tpn (header (seal len m)) = tpn (header m)"
  "tpl (header (seal len m)) = tpl (header m)"
  "xid (header (seal len m)) = xid (header m)"
  "psn (header (seal len m)) = psn (header m)"
  "pl (header (seal len m)) = pl (header m)"
  by (simp_all add: seal_def)

lemma zero_crc_seal [simp]: "zero_crc (seal len m) = zero_crc m"
  by (simp add: zero_crc_def seal_def)

lemma crc32_seal: "crc32 (header (seal len m)) = CalculateCrc32 (message_bytes (zero_crc (seal len m))) len 0"
  by (simp only: zero_crc_seal) (simp add: seal_def)

text \<open>On the bytes: the checksum field is at offset 20.\<close>

definition blank_crc :: "byte list \<Rightarrow> byte list" where
  "blank_crc bs = take 20 bs @ replicate 4 0 @ drop 24 bs"

lemma le32_0: "le32 0 = replicate 4 0"
  by (simp add: le32_def numeral_eq_Suc)

lemma message_bytes_zero_crc: "message_bytes (zero_crc m) = blank_crc (message_bytes m)"
  by (simp add: message_bytes_def zero_crc_def header_bytes_def blank_crc_def wire_simps
      le32_0 drop_append take_append)

lemma crc32_header: "crc32 (header m) = of_le32 (take 4 (drop 20 (message_bytes m)))"
  by (simp add: message_bytes_def header_bytes_def wire_simps drop_append take_append)

lemma blank_crc_take:
  assumes "24 \<le> n" "24 \<le> length bs"
  shows "take n (blank_crc bs) = blank_crc (take n bs)"
proof -
  obtain k where "n = 24 + k" using assms(1) le_Suc_ex by blast
  then show ?thesis
    using assms(2) by (simp add: blank_crc_def take_append min_def drop_take)
qed

text \<open>The checksum of a message only depends on the bytes that are covered.\<close>

definition image_crc :: "byte list \<Rightarrow> u32" where
  "image_crc bs = CalculateCrc32 (blank_crc bs) (length bs) 0"

lemma CalculateCrc32_message:
  assumes "wf_message m" "24 \<le> len" "len \<le> 1440"
  shows "CalculateCrc32 (message_bytes (zero_crc m)) len 0 = image_crc (send_image m len)"
proof -
  have "CalculateCrc32 (message_bytes (zero_crc m)) len 0
      = CalculateCrc32 (take len (blank_crc (message_bytes m))) len 0"
    by (simp add: CalculateCrc32_take message_bytes_zero_crc)
  then show ?thesis
    using assms by (simp add: blank_crc_take image_crc_def send_image_def)
qed

text \<open>A burst of at most four bytes that lies outside the checksum field, or inside it,
  breaks the equation between the field and the checksum of the rest.\<close>

definition clear_of_crc :: "nat \<Rightarrow> nat \<Rightarrow> bool" where
  "clear_of_crc off n \<longleftrightarrow> off + n \<le> 20 \<or> 24 \<le> off"

definition within_crc :: "nat \<Rightarrow> nat \<Rightarrow> bool" where
  "within_crc off n \<longleftrightarrow> 20 \<le> off \<and> off + n \<le> 24"

lemma length_blank_crc [simp]: "24 \<le> length bs \<Longrightarrow> length (blank_crc bs) = length bs"
  by (simp add: blank_crc_def)

lemma blank_crc_window_before:
  assumes "length pre + length v \<le> 20"
  shows "blank_crc (pre @ v @ post) =
    pre @ v @ take (20 - length pre - length v) post @ replicate 4 0 @
    drop (24 - length pre - length v) post"
  using assms by (simp add: blank_crc_def take_append drop_append)

lemma blank_crc_window_after:
  "24 \<le> length pre \<Longrightarrow> blank_crc (pre @ v @ post) = blank_crc pre @ v @ post"
  by (simp add: blank_crc_def take_append drop_append)

lemma image_crc_burst:
  assumes len: "length w = length w'" "length w \<le> 4" "24 \<le> length (pre @ w @ post)"
    and ne: "w \<noteq> w'"
    and clear: "clear_of_crc (length pre) (length w)"
  shows "image_crc (pre @ w @ post) \<noteq> image_crc (pre @ w' @ post)"
proof -
  obtain p r where blank: "blank_crc (pre @ v @ post) = p @ v @ r" if "length v = length w" for v
    using clear blank_crc_window_before [of pre _ post] blank_crc_window_after [of pre _ post]
    unfolding clear_of_crc_def by metis
  let ?n = "length (p @ w @ r)"
  have n: "length (pre @ v @ post) = ?n" if "length v = length w" for v
  proof -
    have "24 \<le> length (pre @ v @ post)"
      using len(3) that by simp
    then have "length (pre @ v @ post) = length (blank_crc (pre @ v @ post))"
      by (rule length_blank_crc [symmetric])
    also have "\<dots> = ?n"
      by (simp only: blank [OF that] length_append that)
    finally show ?thesis .
  qed
  have img: "image_crc (pre @ v @ post) = CalculateCrc32 (p @ v @ r) ?n 0" if "length v = length w" for v
    by (simp only: image_crc_def blank [OF that] n [OF that])
  show ?thesis
    using CalculateCrc32_burst [OF len(1,2) ne refl] img [OF refl] img [OF len(1) [symmetric]]
    by metis
qed

lemma le32_field: "24 \<le> length bs \<Longrightarrow> le32 (of_le32 (take 4 (drop 20 bs))) = take 4 (drop 20 bs)"
  by (simp add: le32.enc_dec)

section \<open>The receiver's contract\<close>

locale integrity_check =
  fixes validate :: "TrftpMessage \<Rightarrow> nat \<Rightarrow> bool"
  assumes validate_iff:
    "validate m len \<longleftrightarrow>
       CalculateCrc32 (message_bytes (zero_crc m)) len 0 = crc32 (header m) \<and>
       magic (header m) = TRFTP_MAGIC \<and>
       len = sizeof_TrftpHeader + unat (pl (header m)) \<and>
       psn (header m) < tpn (header m)"
begin

lemma validate_len: "validate m len \<Longrightarrow> 32 \<le> len"
  by (simp add: validate_iff sizeof_defs)

lemma validate_payload_len: "validate m len \<Longrightarrow> len - 32 = unat (pl (header m))"
  by (simp add: validate_iff sizeof_defs)

lemma validate_tpn: "validate m len \<Longrightarrow> tpn (header m) \<noteq> 0"
  by (auto simp: validate_iff)

lemma validate_image:
  assumes "wf_message m" "validate m len" "len \<le> 1440"
  shows "image_crc (send_image m len) = of_le32 (take 4 (drop 20 (send_image m len)))"
proof -
  have "32 \<le> len" by (rule validate_len) (rule assms)
  moreover from this have "take 4 (drop 20 (send_image m len)) = take 4 (drop 20 (message_bytes m))"
    by (simp add: send_image_def drop_take min_def)
  moreover have "CalculateCrc32 (message_bytes (zero_crc m)) len 0 = crc32 (header m)"
    using assms(2) unfolding validate_iff by blast
  ultimately show ?thesis
    using assms(1,3) CalculateCrc32_message [of m len] by (simp add: crc32_header)
qed

text \<open>A sealed message whose header is consistent is accepted by every receiver.\<close>

lemma validate_sealed:
  assumes wf: "wf_message m" "wf_message j"
    and len: "len = 32 + unat (pl (header m))" "len \<le> 1440"
    and hdr: "magic (header m) = TRFTP_MAGIC" "psn (header m) < tpn (header m)"
  shows "validate (recv_into j (send_image (seal len m) len)) len"
proof -
  let ?s = "seal len m" and ?r = "recv_into j (send_image (seal len m) len)"
  have h: "header ?r = header ?s"
    using assms by (intro recv_send_image(1)) simp_all
  have img: "send_image ?r len = send_image ?s len"
    using wf len send_image_recv_into [of j "send_image ?s len"] recv_len_send_image [of ?s len]
    by (simp add: send_image_def)
  have "CalculateCrc32 (message_bytes (zero_crc ?r)) len 0 = crc32 (header ?s)"
    using wf len img by (simp add: CalculateCrc32_message crc32_seal del: zero_crc_seal)
  then show ?thesis
    using h len hdr by (simp add: validate_iff sizeof_defs)
qed

text \<open>
  A datagram that is accepted is no longer accepted once a burst of at most four bytes that
  is clear of the checksum field, or inside it, has been changed: it is discarded.
\<close>

lemma validate_burst:
  assumes wf: "wf_message j" "wf_message j'"
    and len: "length w = length w'" "length w \<le> 4" "length (pre @ w @ post) \<le> 1440"
    and ne: "w \<noteq> w'"
    and off: "clear_of_crc (length pre) (length w) \<or> within_crc (length pre) (length w)"
    and ok: "validate (recv_into j (pre @ w @ post)) (recv_len (pre @ w @ post))"
  shows "\<not> validate (recv_into j' (pre @ w' @ post)) (recv_len (pre @ w' @ post))"
proof
  assume bad: "validate (recv_into j' (pre @ w' @ post)) (recv_len (pre @ w' @ post))"
  have eqn: "image_crc bs = of_le32 (take 4 (drop 20 bs))"
    if "validate (recv_into i bs) (recv_len bs)" "wf_message i" "length bs \<le> 1440" for i bs
    using validate_image [of "recv_into i bs" "recv_len bs"] that recv_len_le [of bs]
      send_image_recv_into [of i bs]
    by simp
  have min: "24 \<le> length (pre @ w @ post)"
    using validate_len [OF ok] by (simp add: recv_len_def)
  have 1: "image_crc (pre @ w @ post) = of_le32 (take 4 (drop 20 (pre @ w @ post)))"
    using ok wf(1) len(3) by (rule eqn)
  have 2: "image_crc (pre @ w' @ post) = of_le32 (take 4 (drop 20 (pre @ w' @ post)))"
    using bad wf(2) len(1,3) by (intro eqn) simp_all
  from off show False
  proof
    assume clear: "clear_of_crc (length pre) (length w)"
    then have "take 4 (drop 20 (pre @ w @ post)) = take 4 (drop 20 (pre @ w' @ post))"
      using len(1) by (auto simp: clear_of_crc_def drop_append)
    with 1 2 have "image_crc (pre @ w @ post) = image_crc (pre @ w' @ post)"
      by simp
    with image_crc_burst [OF len(1,2) min ne clear] show False ..
  next
    assume inside: "within_crc (length pre) (length w)"
    then have "drop (24 - length pre) w = []" "drop (24 - length pre) w' = []"
      using len(1) by (auto simp: within_crc_def)
    then have "blank_crc (pre @ w @ post) = blank_crc (pre @ w' @ post)"
      using inside len(1) by (simp add: within_crc_def blank_crc_def take_append drop_append)
    then have "image_crc (pre @ w @ post) = image_crc (pre @ w' @ post)"
      using len(1) by (simp add: image_crc_def)
    with 1 2 have "of_le32 (take 4 (drop 20 (pre @ w @ post))) = of_le32 (take 4 (drop 20 (pre @ w' @ post)))"
      by simp
    then have "take 4 (drop 20 (pre @ w @ post)) = take 4 (drop 20 (pre @ w' @ post))"
      using le32_field [of "pre @ w @ post"] le32_field [of "pre @ w' @ post"] min len(1)
      by (metis length_append)
    then show False
      using inside len(1) ne min
      by (auto simp: within_crc_def take_append drop_append)
  qed
qed

end

end
