(* ===== verification/File_Io.thy ===== *)
theory File_Io
  imports Crc32
begin

text \<open>
  The part of \<^verbatim>\<open>std::filesystem\<close>, \<^verbatim>\<open>std::ifstream\<close> and \<^verbatim>\<open>std::ofstream\<close> the program
  uses, over a file system that maps paths to files, and \<^verbatim>\<open>CalculateFileCrc32\<close> of
  \<^verbatim>\<open>src/util.cpp\<close>. Whether the operating system lets a file be opened, written or flushed
  is an argument of the operation.
\<close>

section \<open>Files\<close>

record inode =
  content :: "byte list"
  readable :: bool

type_synonym filesystem = "path \<rightharpoonup> inode"

definition fs_exists :: "path \<Rightarrow> filesystem \<Rightarrow> bool" where
  "fs_exists p fs \<longleftrightarrow> fs p \<noteq> None"

definition fs_file_size :: "path \<Rightarrow> filesystem \<Rightarrow> nat result" where
  "fs_file_size p fs =
     (case fs p of None \<Rightarrow> Inl (Filesystem_Error p) | Some f \<Rightarrow> Inr (length (content f)))"

definition fs_remove :: "path \<Rightarrow> filesystem \<Rightarrow> filesystem" where
  "fs_remove p fs = fs(p := None)"

section \<open>Input streams\<close>

text \<open>\<open>in_fail\<close> is \<^verbatim>\<open>fail()\<close>, which a short \<^verbatim>\<open>read\<close> sets together with \<^verbatim>\<open>eofbit\<close>; a stream
  that has failed reads nothing more.\<close>

record ifstream =
  in_data :: "byte list"
  in_pos :: nat
  in_fail :: bool
  in_gcount :: nat

definition ifstream_open :: "path \<Rightarrow> filesystem \<Rightarrow> ifstream option" where
  "ifstream_open p fs =
     (case fs p of
        None \<Rightarrow> None
      | Some f \<Rightarrow>
          if readable f then Some \<lparr>in_data = content f, in_pos = 0, in_fail = False, in_gcount = 0\<rparr>
          else None)"

definition ifstream_seekg :: "nat \<Rightarrow> ifstream \<Rightarrow> ifstream" where
  "ifstream_seekg off s = (if in_fail s then s else s\<lparr>in_pos := off\<rparr>)"

definition ifstream_read :: "nat \<Rightarrow> ifstream \<Rightarrow> ifstream \<times> byte list" where
  "ifstream_read n s =
     (if in_fail s then (s\<lparr>in_gcount := 0\<rparr>, [])
      else let got = take n (drop (in_pos s) (in_data s))
           in (s\<lparr>in_pos := in_pos s + length got, in_fail := length got < n,
                in_gcount := length got\<rparr>, got))"

section \<open>The checksum of a file\<close>

text \<open>\<^verbatim>\<open>while (ifs.read(buf, 4096) || ifs.gcount() > 0)\<close>: checksum so far and bytes read.\<close>

definition read_buf_size :: nat where
  "read_buf_size = 4 * 1024"

function file_crc_loop :: "ifstream \<Rightarrow> u32 \<Rightarrow> nat \<Rightarrow> u32 \<times> nat" where
  "file_crc_loop s crc tot =
     (let (s', buf) = ifstream_read read_buf_size s
      in if \<not> in_fail s' \<or> in_gcount s' > 0
         then file_crc_loop s' (CalculateCrc32 buf (in_gcount s') crc) (tot + in_gcount s')
         else (crc, tot))"
  by pat_completeness auto
termination
  by (relation "measure (\<lambda>(s, crc, tot). if in_fail s then 0 else 1 + (length (in_data s) - in_pos s))")
    (auto simp: ifstream_read_def read_buf_size_def Let_def split: if_splits)

declare file_crc_loop.simps [simp del]

definition CalculateFileCrc32 :: "path \<Rightarrow> filesystem \<Rightarrow> u32" where
  "CalculateFileCrc32 p fs =
     (if \<not> fs_exists p fs then 0
      else case ifstream_open p fs of
        None \<Rightarrow> 0
      | Some ifs \<Rightarrow>
          (case fs_file_size p fs of
             Inl e \<Rightarrow> 0
           | Inr file_size \<Rightarrow>
               let (crc, total_read_size) = file_crc_loop (ifstream_seekg 0 ifs) 0 0
               in if file_size \<noteq> total_read_size then 0 else crc))"

lemma file_crc_loop_result:
  "\<not> in_fail s \<Longrightarrow>
   file_crc_loop s crc tot =
     (let rest = drop (in_pos s) (in_data s)
      in (CalculateCrc32 rest (length rest) crc, tot + length rest))"
proof (induction s crc tot rule: file_crc_loop.induct)
  case (1 s crc tot)
  let ?rest = "drop (in_pos s) (in_data s)"
  let ?got = "take read_buf_size ?rest"
  let ?crc = "CalculateCrc32 ?got (length ?got) crc"
  define s' where "s' = fst (ifstream_read read_buf_size s)"
  have rd: "ifstream_read read_buf_size s = (s', ?got)" and g: "in_gcount s' = length ?got"
    and f: "in_fail s' \<longleftrightarrow> length ?got < read_buf_size"
    and pos: "in_pos s' = in_pos s + length ?got" "in_data s' = in_data s"
    using "1.prems" by (simp_all add: s'_def ifstream_read_def Let_def)
  have unf: "file_crc_loop s crc tot =
      (if \<not> in_fail s' \<or> ?got \<noteq> [] then file_crc_loop s' ?crc (tot + length ?got) else (crc, tot))"
    by (subst file_crc_loop.simps) (simp add: rd g)
  show ?case
  proof (cases "length ?rest < read_buf_size")
    case False
    then have nf: "\<not> in_fail s'" using f by simp
    have "drop (in_pos s') (in_data s') = drop read_buf_size ?rest"
      using False pos by (simp add: add.commute)
    moreover have "CalculateCrc32 (drop read_buf_size ?rest) (length (drop read_buf_size ?rest)) ?crc
        = CalculateCrc32 ?rest (length ?rest) crc"
      by (rule crc32.sum_take_drop)
    moreover have "file_crc_loop s crc tot = file_crc_loop s' ?crc (tot + length ?got)"
      using nf unf by simp
    ultimately show ?thesis
      using "1.IH" [OF rd [symmetric] refl] nf g False by (simp add: Let_def)
  next
    case True
    have stop: "file_crc_loop s' c t = (c, t)" if "in_fail s'" for c t
      using that by (subst file_crc_loop.simps) (simp add: ifstream_read_def)
    have all: "?got = ?rest" using True by simp
    show ?thesis
      using True f unf stop unfolding all Let_def
      by (cases "?rest = []") auto
  qed
qed

lemma CalculateFileCrc32_content:
  assumes "fs p = Some f" "readable f"
  shows "CalculateFileCrc32 p fs = CalculateCrc32 (content f) (length (content f)) 0"
  using assms
  by (simp add: CalculateFileCrc32_def fs_exists_def ifstream_open_def fs_file_size_def
      ifstream_seekg_def file_crc_loop_result Let_def)

section \<open>Output streams\<close>

text \<open>
  \<open>out_data\<close> is everything inserted since the file was opened. It is on disk once the
  stream is closed, unless the flush fails (\<open>flush = Some n\<close>: only \<open>n\<close> bytes arrived).
\<close>

record ofstream =
  out_open :: bool
  out_fail :: bool
  out_path :: path
  out_data :: "byte list"

definition ofstream_new :: ofstream where
  "ofstream_new = \<lparr>out_open = False, out_fail = False, out_path = [], out_data = []\<rparr>"

text \<open>\<^verbatim>\<open>open(path, binary | out)\<close> truncates; it fails on a stream that is already open, and a
  success clears the error state.\<close>

definition ofstream_open :: "path \<Rightarrow> bool \<Rightarrow> ofstream \<Rightarrow> filesystem \<Rightarrow> ofstream \<times> filesystem" where
  "ofstream_open p ok s fs =
     (if out_open s \<or> \<not> ok then (s\<lparr>out_fail := True\<rparr>, fs)
      else (\<lparr>out_open = True, out_fail = False, out_path = p, out_data = []\<rparr>,
            fs(p \<mapsto> \<lparr>content = [],
                      readable = (case fs p of None \<Rightarrow> True | Some f \<Rightarrow> readable f)\<rparr>)))"

definition ofstream_write :: "byte list \<Rightarrow> bool \<Rightarrow> ofstream \<Rightarrow> ofstream" where
  "ofstream_write bs ok s =
     (if out_fail s then s
      else if \<not> out_open s \<or> \<not> ok then s\<lparr>out_fail := True\<rparr>
      else s\<lparr>out_data := out_data s @ bs\<rparr>)"

text \<open>\<^verbatim>\<open>close()\<close> of a stream that is not open sets \<^verbatim>\<open>failbit\<close>.\<close>

definition ofstream_close :: "nat option \<Rightarrow> ofstream \<Rightarrow> filesystem \<Rightarrow> ofstream \<times> filesystem" where
  "ofstream_close flush s fs =
     (if \<not> out_open s then (s\<lparr>out_fail := True\<rparr>, fs)
      else
        (s\<lparr>out_open := False, out_fail := out_fail s \<or> flush \<noteq> None\<rparr>,
         fs(out_path s \<mapsto>
              \<lparr>content = (case flush of None \<Rightarrow> out_data s | Some n \<Rightarrow> take n (out_data s)),
               readable = (case fs (out_path s) of None \<Rightarrow> True | Some f \<Rightarrow> readable f)\<rparr>)))"

lemmas ofstream_defs = ofstream_open_def ofstream_write_def ofstream_close_def

end
