(* ===== verification/Udp_Socket.thy ===== *)
theory Udp_Socket
  imports Wire
begin

text \<open>
  \<^verbatim>\<open>src/udp_socket.cpp\<close>. A system call's result is an argument of the operation that makes
  it; datagrams that leave are appended to the log of the network.
\<close>

section \<open>Addresses\<close>

text \<open>\<^verbatim>\<open>sockaddr_in\<close>: the port and the address are stored in network byte order.\<close>

record sockaddr_in =
  sin_family :: u16
  sin_port :: u16
  s_addr :: u32

definition null_addr :: sockaddr_in where
  "null_addr = \<lparr>sin_family = 0, sin_port = 0, s_addr = 0\<rparr>"

definition AF_INET :: u16 where
  "AF_INET = 2"

text \<open>\<^verbatim>\<open>htobe16\<close> and \<^verbatim>\<open>be16toh\<close> on a little-endian host.\<close>

definition htobe16 :: "u16 \<Rightarrow> u16" where
  "htobe16 w = of_le16 (rev (le16 w))"

lemma htobe16_htobe16 [simp]: "htobe16 (htobe16 w) = w"
proof -
  have "le16 (of_le16 (rev (le16 w))) = rev (le16 w)"
    by (simp add: le16.enc_dec le16.length_enc)
  then show ?thesis
    by (simp add: htobe16_def le16.dec_enc_exact)
qed

text \<open>Decimal numerals, as \<^verbatim>\<open>std::to_string\<close> and \<^verbatim>\<open>inet_ntoa\<close> print them.\<close>

definition digit_char :: "nat \<Rightarrow> char" where
  "digit_char d = char_of (48 + d)"

fun decimal :: "nat \<Rightarrow> string" where
  "decimal n = (if n < 10 then [digit_char n] else decimal (n div 10) @ [digit_char (n mod 10)])"

declare decimal.simps [simp del]

fun undecimal :: "string \<Rightarrow> nat" where
  "undecimal cs = foldl (\<lambda>n c. 10 * n + (of_char c - 48)) 0 cs"

lemma of_char_digit [simp]: "d < 10 \<Longrightarrow> of_char (digit_char d) = (48 + d :: nat)"
  by (simp add: digit_char_def)

lemma undecimal_decimal: "undecimal (decimal n) = n"
proof (induction n rule: decimal.induct)
  case (1 n)
  then show ?case by (subst decimal.simps) auto
qed

lemma decimal_inject: "decimal m = decimal n \<longleftrightarrow> m = n"
  by (metis undecimal_decimal)

definition is_digit :: "char \<Rightarrow> bool" where
  "is_digit c \<longleftrightarrow> 48 \<le> (of_char c :: nat) \<and> (of_char c :: nat) \<le> 57"

lemma decimal_digits: "\<forall>c \<in> set (decimal n). is_digit c"
proof (induction n rule: decimal.induct)
  case (1 n)
  then show ?case by (subst decimal.simps) (auto simp: is_digit_def)
qed

text \<open>\<^verbatim>\<open>inet_ntoa\<close>: the four bytes in memory order, dotted.\<close>

definition dot_field :: "byte \<Rightarrow> string" where
  "dot_field b = CHR ''.'' # decimal (unat b)"

definition dotted :: "byte list \<Rightarrow> string" where
  "dotted bs = tl (concat (map dot_field bs))"

definition inet_ntoa :: "u32 \<Rightarrow> string" where
  "inet_ntoa a = dotted (le32 a)"

lemma inet_ntoa_localhost: "inet_ntoa 0x0100007F = ''127.0.0.1''"
  by code_simp

lemma takeWhile_decimal:
  "rest = [] \<or> hd rest = CHR ''.'' \<Longrightarrow> takeWhile is_digit (decimal n @ rest) = decimal n"
  using decimal_digits [of n] by (cases rest) (auto simp: takeWhile_append2 is_digit_def)

lemma dot_fields_inject: "concat (map dot_field bs) = concat (map dot_field cs) \<Longrightarrow> bs = cs"
proof (induction bs arbitrary: cs)
  case Nil
  then show ?case by (cases cs) (simp_all add: dot_field_def)
next
  case (Cons b bs)
  obtain c cs' where cs: "cs = c # cs'"
    using Cons.prems by (cases cs) (auto simp: dot_field_def)
  let ?B = "concat (map dot_field bs)" and ?C = "concat (map dot_field cs')"
  have eq: "decimal (unat b) @ ?B = decimal (unat c) @ ?C"
    using Cons.prems by (simp add: cs dot_field_def [of b] dot_field_def [of c])
  have "?B = [] \<or> hd ?B = CHR ''.''" "?C = [] \<or> hd ?C = CHR ''.''"
    by (cases bs; simp add: dot_field_def) (cases cs'; simp add: dot_field_def)
  then have "decimal (unat b) = decimal (unat c)"
    using arg_cong [OF eq, of "takeWhile is_digit"] by (simp add: takeWhile_decimal)
  with eq have "b = c" "?B = ?C"
    by (simp_all add: decimal_inject word_unat_eq_iff)
  with Cons.IH cs show ?case by simp
qed

lemma inet_ntoa_inject: "inet_ntoa a = inet_ntoa b \<longleftrightarrow> a = b"
proof
  assume eq: "inet_ntoa a = inet_ntoa b"
  have dot: "CHR ''.'' # dotted bs = concat (map dot_field bs)" if "bs \<noteq> []" for bs
    using that by (cases bs) (simp_all add: dotted_def dot_field_def [abs_def])
  have ne: "le32 w \<noteq> []" for w
    using le32.length_enc [of w] by auto
  have "concat (map dot_field (le32 a)) = concat (map dot_field (le32 b))"
    using eq dot [OF ne] by (metis inet_ntoa_def)
  then have "le32 a = le32 b"
    by (rule dot_fields_inject)
  then show "a = b"
    by (simp add: le32.enc_inject)
qed simp

section \<open>The socket\<close>

record UdpSocket =
  fd :: int

text \<open>One datagram on the wire: where it goes and its bytes.\<close>

type_synonym datagram = "sockaddr_in \<times> byte list"

definition EINTR :: int where "EINTR = 4"
definition EAGAIN :: int where "EAGAIN = 11"
definition EWOULDBLOCK :: int where "EWOULDBLOCK = 11"

definition socket_error :: "string \<Rightarrow> exn" where
  "socket_error what = Runtime_Error (''[UdpSocket] '' @ what)"

text \<open>
  The constructor. Arguments: what \<^verbatim>\<open>socket\<close>, the two \<^verbatim>\<open>setsockopt\<close> calls and \<^verbatim>\<open>bind\<close>
  return. Result: the exception or the object, and the descriptors the scope guard closes on
  the way out.
\<close>

definition UdpSocket_new :: "int \<Rightarrow> int \<Rightarrow> int \<Rightarrow> int \<Rightarrow> UdpSocket result \<times> int list" where
  "UdpSocket_new ret_socket ret_rcvtimeo ret_reuse ret_bind =
     (if ret_socket < 0 then (Inl (socket_error ''socket(AF_INET, SOCK_DGRAM, IPPROTO_UDP) failed. err=''), [])
      else if ret_rcvtimeo < 0 then (Inl (socket_error ''setsockopt(SO_RCVTIMEO) failed. err=''), [ret_socket])
      else if ret_reuse < 0 then (Inl (socket_error ''setsockopt(SO_REUSEADDR) failed. err=''), [ret_socket])
      else if ret_bind < 0 then (Inl (socket_error ''bind() failed. err=''), [ret_socket])
      else (Inr \<lparr>fd = ret_socket\<rparr>, []))"

text \<open>The destructor: the descriptors it closes.\<close>

definition UdpSocket_delete :: "UdpSocket \<Rightarrow> int list" where
  "UdpSocket_delete s = (if fd s \<ge> 0 then [fd s] else [])"

text \<open>\<^verbatim>\<open>SetReadTimeout\<close>: the \<^verbatim>\<open>timeval\<close> handed to \<^verbatim>\<open>setsockopt\<close> and the result.\<close>

definition udp_SetReadTimeout :: "nat \<Rightarrow> int \<Rightarrow> UdpSocket \<Rightarrow> (bool \<times> (nat \<times> nat)) result" where
  "udp_SetReadTimeout us ret s =
     (if fd s < 0 then Inl (socket_error ''socket is closed'')
      else Inr (\<not> ret < 0, (us div 1000000, us mod 1000000)))"

text \<open>What \<^verbatim>\<open>recvfrom\<close> may report: a failure with its \<^verbatim>\<open>errno\<close>, or a datagram.\<close>

datatype recv_event = Recv_Failed int | Recv_Datagram sockaddr_in "byte list"

text \<open>\<^verbatim>\<open>Receive\<close> into an uninitialised message and address: the length it returns, the
  message and the address.\<close>

definition udp_Receive ::
  "recv_event \<Rightarrow> TrftpMessage \<Rightarrow> sockaddr_in \<Rightarrow> (nat \<times> TrftpMessage \<times> sockaddr_in) result" where
  "udp_Receive ev m a =
     (case ev of
        Recv_Failed errno \<Rightarrow>
          if errno = EAGAIN \<or> errno = EWOULDBLOCK then Inr (0, m, a)
          else if errno = EINTR then Inr (0, m, a)
          else Inl (socket_error ''recvfrom() failed. err='')
      | Recv_Datagram from bs \<Rightarrow>
          if bs = [] then Inl (socket_error ''recvfrom() failed. err=0'')
          else Inr (recv_len bs, recv_into m bs, from))"

text \<open>What \<^verbatim>\<open>sendto\<close> reports: a failure or the number of bytes. \<^verbatim>\<open>Send\<close> returns it and the
  datagram is on the wire.\<close>

definition udp_Send ::
  "int \<Rightarrow> TrftpMessage \<Rightarrow> nat \<Rightarrow> sockaddr_in \<Rightarrow> UdpSocket \<Rightarrow> datagram list \<Rightarrow>
   (nat \<times> datagram list) result" where
  "udp_Send ret m len a s wire =
     (if fd s < 0 then Inl (socket_error ''socket is closed'')
      else if ret < 0 then Inl (socket_error ''sendto() failed. err='')
      else Inr (nat ret, wire @ [(a, send_image m len)]))"

lemma udp_Send_Inr:
  "udp_Send ret m len a s wire = Inr (n, wire') \<Longrightarrow> wire' = wire @ [(a, send_image m len)]"
  by (simp add: udp_Send_def split: if_splits)

section \<open>Descriptors do not leak\<close>

text \<open>Whatever the system calls return, a constructor that throws has closed every
  descriptor it opened, and one that succeeds owns a valid descriptor.\<close>

lemma UdpSocket_new_Inl:
  "fst (UdpSocket_new s t r b) = Inl e \<Longrightarrow>
   snd (UdpSocket_new s t r b) = (if s \<ge> 0 then [s] else [])"
  by (auto simp: UdpSocket_new_def)

lemma UdpSocket_new_Inr:
  "fst (UdpSocket_new s t r b) = Inr u \<Longrightarrow>
   fd u = s \<and> s \<ge> 0 \<and> snd (UdpSocket_new s t r b) = [] \<and> UdpSocket_delete u = [s]"
  by (auto simp: UdpSocket_new_def UdpSocket_delete_def split: if_splits)

end
