(* ===== verification/Codec_Properties.thy ===== *)
theory Codec_Properties
  imports Integrity File_Io Udp_Socket
begin

text \<open>
  The properties of the leaf modules: the checksum against its definition bit by bit, the
  checksum of a file, a message through the socket, and the socket's constructor.
\<close>

section \<open>The checksum\<close>

text \<open>C36: The table-driven \<^verbatim>\<open>CalculateCrc32\<close> is the reflected CRC-32: complementing the
  register before and after, every byte is XORed into its low end and shifted out bit by bit
  with the polynomial 0xEDB88320. This holds for every buffer, length and start value, so it
  covers all 256 entries of the table.\<close>

theorem CalculateCrc32_is_bitwise_crc:
  "CalculateCrc32 buf sz crc = NOT (foldl crc_byte_ref (NOT crc) (take sz buf))"
proof -
  have "crc32_loop c bs = foldl crc_byte_ref c bs" for c bs
    by (induction bs arbitrary: c) (simp_all add: crc32_step_reference)
  then show ?thesis by (simp add: CalculateCrc32_def)
qed

text \<open>C37: \<^verbatim>\<open>CalculateFileCrc32\<close>, which reads the file in chunks of 4096 bytes, returns the
  checksum of the whole content of a readable file, whatever its length, and 0 for a path
  that does not exist or cannot be opened.\<close>

theorem CalculateFileCrc32_correct:
  "CalculateFileCrc32 p fs =
     (case fs p of
        None \<Rightarrow> 0
      | Some f \<Rightarrow> if readable f then CalculateCrc32 (content f) (length (content f)) 0 else 0)"
proof (cases "fs p")
  case None
  then show ?thesis by (simp add: CalculateFileCrc32_def fs_exists_def)
next
  case (Some f)
  show ?thesis
  proof (cases "readable f")
    case True
    then show ?thesis using Some CalculateFileCrc32_content [of fs p f] by simp
  next
    case False
    then show ?thesis using Some by (simp add: CalculateFileCrc32_def fs_exists_def ifstream_open_def)
  qed
qed

section \<open>Messages on the socket\<close>

text \<open>C39: A message survives the socket: sent cut at \<open>len\<close> bytes and received into any
  buffer, \<open>len\<close> bytes are reported, the header is the one sent, the payload begins with the
  bytes sent, and the buffer is still a whole message struct.\<close>

theorem message_survives_socket:
  assumes "wf_message m" "wf_message j" "32 \<le> len" "len \<le> 1440"
  shows "udp_Receive (Recv_Datagram addr (send_image m len)) j a =
      Inr (len, recv_into j (send_image m len), addr) \<and>
    wf_message (recv_into j (send_image m len)) \<and>
    header (recv_into j (send_image m len)) = header m \<and>
    take (len - 32) (payload (recv_into j (send_image m len))) = take (len - 32) (payload m)"
proof -
  have l: "recv_len (send_image m len) = len"
    using assms by (intro recv_len_send_image)
  then have "send_image m len \<noteq> []" using assms(3) by (auto simp: recv_len_def)
  then show ?thesis
    using l recv_send_image [OF assms] assms(2) by (simp add: udp_Receive_def)
qed

definition sample_message :: "u32 \<Rightarrow> byte \<Rightarrow> TrftpMessage" where
  "sample_message n b =
     \<lparr>header = \<lparr>magic = TRFTP_MAGIC, spid = 0, dpid = 0, tpn = 1, tpl = 4, xid = n, crc32 = 0, psn = 0, pl = 4\<rparr>,
      payload = replicate 1408 b\<rparr>"

lemma wf_sample_message [simp]: "wf_message (sample_message n b)"
  by (simp add: wf_message_def sample_message_def)

theorem message_survives_socket_witness:
  "udp_Receive (Recv_Datagram null_addr (send_image (sample_message 5 7) 36)) (sample_message 0 0) null_addr =
      Inr (36, recv_into (sample_message 0 0) (send_image (sample_message 5 7) 36), null_addr) \<and>
    header (recv_into (sample_message 0 0) (send_image (sample_message 5 7) 36)) = header (sample_message 5 7)"
  using message_survives_socket [of "sample_message 5 7" "sample_message 0 0" 36 null_addr null_addr] by simp

section \<open>The socket\<close>

text \<open>The constructor of the socket leaks no descriptor and owns the one it keeps: whatever
  the four system calls return, the descriptors closed on the way out and by the destructor
  of a constructed socket are exactly those that \<^verbatim>\<open>socket\<close> opened.\<close>

lemma UdpSocket_no_leak:
  "snd (UdpSocket_new ret_socket ret_rcvtimeo ret_reuse ret_bind) @
     (case fst (UdpSocket_new ret_socket ret_rcvtimeo ret_reuse ret_bind) of
        Inl e \<Rightarrow> []
      | Inr s \<Rightarrow> UdpSocket_delete s) =
   (if ret_socket < 0 then [] else [ret_socket])"
  by (simp add: UdpSocket_new_def UdpSocket_delete_def)

end
