(* ===== verification/Server_Transaction.thy ===== *)
theory Server_Transaction
  imports Integrity File_Io Udp_Socket
begin

text \<open>
  \<^verbatim>\<open>src/server/server_transaction.cpp\<close>: the state of the sending side of one transfer, its
  constructors, \<^verbatim>\<open>CompleteHeader\<close>, \<^verbatim>\<open>SendMessage\<close>, the validation of received messages,
  \<^verbatim>\<open>OnReceive\<close>, \<^verbatim>\<open>WaitForStatus\<close> and the thread \<^verbatim>\<open>SendFileAsync\<close> starts, as a program
  counter with one step per stretch that other threads cannot observe in the middle.
\<close>

section \<open>State\<close>

text \<open>
  \<^verbatim>\<open>thr_\<close> as the position of its thread in the lambda of \<^verbatim>\<open>SendFileAsync\<close>: opening the
  file, the condition of the \<^verbatim>\<open>for\<close>, the two checks, preparing and sending the packet,
  the second of sleep after the last packet, and the increment of the \<^verbatim>\<open>for\<close>.
\<close>

datatype sender =
    Not_Started | Opening | For_Test | Check_Cxl | Check_Rtx | Send_Data | Tail_Wait | For_Incr
  | Returned

text \<open>The members of the class, the local stream of the thread and the datagrams sent for
  this transaction.\<close>

record ServerTransaction =
  s_file_path :: path
  s_new_file_version :: u32
  s_new_file_size :: u32
  s_new_file_crc32 :: u32
  s_status :: FtpStatus
  s_device_id :: u32
  s_client_address :: sockaddr_in
  s_total_packet_number :: u32
  s_packet_sequence_number :: u32
  s_retransmit_psn :: u32
  s_cur_file_version :: u32
  s_inter_packet_gap :: nat
  s_thr :: sender
  s_ifs :: ifstream
  s_wire :: "datagram list"

definition no_rtx :: u32 where
  "no_rtx = - 1"

definition closed_ifstream :: ifstream where
  "closed_ifstream = \<lparr>in_data = [], in_pos = 0, in_fail = True, in_gcount = 0\<rparr>"

text \<open>Unlike the client's, this count is computed in 32-bit arithmetic.\<close>

definition server_packets :: "u32 \<Rightarrow> u32" where
  "server_packets file_size =
     (file_size + of_nat sizeof_payload - 1) div of_nat sizeof_payload"

definition ServerTransaction_new ::
  "sockaddr_in \<Rightarrow> path \<Rightarrow> u32 \<Rightarrow> u32 \<Rightarrow> filesystem \<Rightarrow> ServerTransaction result" where
  "ServerTransaction_new addr file_path file_version device_id fs =
     bind_result (fs_file_size file_path fs)
       (\<lambda>size. Inr
          \<lparr>s_file_path = file_path,
           s_new_file_version = file_version,
           s_new_file_size = of_nat size,
           s_new_file_crc32 = CalculateFileCrc32 file_path fs,
           s_status = NTF,
           s_device_id = device_id,
           s_client_address = addr,
           s_total_packet_number = server_packets (of_nat size),
           s_packet_sequence_number = 0,
           s_retransmit_psn = no_rtx,
           s_cur_file_version = 0,
           s_inter_packet_gap = 100,
           s_thr = Not_Started,
           s_ifs = closed_ifstream,
           s_wire = []\<rparr>)"

text \<open>The move constructor: the new object and what is left of the old one. The thread stays
  behind.\<close>

definition ServerTransaction_move :: "ServerTransaction \<Rightarrow> ServerTransaction \<times> ServerTransaction" where
  "ServerTransaction_move other =
     (other\<lparr>s_thr := Not_Started, s_ifs := closed_ifstream\<rparr>, other\<lparr>s_file_path := []\<rparr>)"

text \<open>The destructor joins the thread, which returns once it has.\<close>

definition ServerTransaction_delete_returns :: "ServerTransaction \<Rightarrow> bool" where
  "ServerTransaction_delete_returns st \<longleftrightarrow> s_thr st = Not_Started \<or> s_thr st = Returned"

section \<open>Headers\<close>

text \<open>\<^verbatim>\<open>CompleteHeader\<close>: the packet count and the payload length follow from the total
  length and the sequence number.\<close>

definition header_tpn :: "u32 \<Rightarrow> u32" where
  "header_tpn total_len =
     (if total_len = 0 then 1
      else of_nat ((unat total_len + sizeof_payload - 1) div sizeof_payload))"

definition header_pl :: "u32 \<Rightarrow> u32 \<Rightarrow> u32" where
  "header_pl total_len seqno =
     (if seqno = header_tpn total_len - 1 then of_nat (unat total_len mod sizeof_payload)
      else of_nat sizeof_payload)"

definition CompleteHeader ::
  "ServerTransaction \<Rightarrow> TrftpMessage \<Rightarrow> MessageId \<Rightarrow> u32 \<Rightarrow> u32 \<Rightarrow> TrftpMessage" where
  "CompleteHeader st msg i total_len seqno =
     seal (sizeof_TrftpHeader + unat (header_pl total_len seqno))
       (msg\<lparr>header :=
          \<lparr>magic = TRFTP_MAGIC, spid = 0xFD00, dpid = ucast (s_device_id st),
           tpn = header_tpn total_len, tpl = total_len, xid = xid_of i, crc32 = 0,
           psn = seqno, pl = header_pl total_len seqno\<rparr>\<rparr>)"

section \<open>Sending\<close>

text \<open>What the operating system answers during one call: the result of \<^verbatim>\<open>sendto\<close>, the
  bytes of an uninitialised message on the stack, the file system.\<close>

record senv =
  senv_sendto :: int
  senv_stack :: TrftpMessage
  senv_files :: filesystem

fun server_payload :: "MessageId \<Rightarrow> ServerTransaction \<Rightarrow> nat \<times> byte list" where
  "server_payload NTF st =
     (sizeof_TrftpNtf, ntf_bytes \<lparr>ntf_new_file_version = s_new_file_version st\<rparr>)"
| "server_payload INFO st =
     (sizeof_TrftpInfo,
      info_bytes \<lparr>info_new_file_version = s_new_file_version st,
                  info_file_length = s_new_file_size st,
                  info_crc32 = s_new_file_crc32 st\<rparr>)"
| "server_payload _ st = (0, [])"

definition server_control :: "MessageId \<Rightarrow> TrftpMessage \<Rightarrow> ServerTransaction \<Rightarrow> TrftpMessage" where
  "server_control i m st =
     (let (payload_len, img) = server_payload i st
      in CompleteHeader st (put_payload img m) i (of_nat payload_len) 0)"

definition SendFileAsync :: "ServerTransaction \<Rightarrow> ServerTransaction result" where
  "SendFileAsync st =
     (if s_thr st \<noteq> Not_Started then Inl Std_Terminate else Inr (st\<lparr>s_thr := Opening\<rparr>))"

definition server_SendMessage ::
  "UdpSocket \<Rightarrow> senv \<Rightarrow> MessageId \<Rightarrow> ServerTransaction \<Rightarrow> ServerTransaction result" where
  "server_SendMessage sock E i st =
     (if i \<noteq> NTF \<and> i \<noteq> INFO \<and> i \<noteq> DATA \<and> i \<noteq> FIN \<and> i \<noteq> CXL then Inr st
      else
        let st = st\<lparr>s_status := i\<rparr>
        in if i = DATA then SendFileAsync st
           else
             let payload_len = fst (server_payload i st)
             in bind_result
                  (udp_Send (senv_sendto E) (server_control i (senv_stack E) st)
                     (sizeof_TrftpHeader + payload_len) (s_client_address st) sock (s_wire st))
                  (\<lambda>(sent, wire). Inr (st\<lparr>s_wire := wire\<rparr>)))"

section \<open>Validation\<close>

definition server_ValidateMessageIntegrity :: "TrftpMessage \<Rightarrow> nat \<Rightarrow> bool" where
  "server_ValidateMessageIntegrity msg len =
     (let crc32_saved = crc32 (header msg);
          crc32_calculated = CalculateCrc32 (message_bytes (zero_crc msg)) len 0
      in if crc32_calculated \<noteq> crc32_saved then False
         else if magic (header msg) \<noteq> TRFTP_MAGIC then False
         else if len \<noteq> sizeof_TrftpHeader + unat (pl (header msg)) then False
         else if tpn (header msg) \<le> psn (header msg) then False
         else True)"

interpretation server_check: integrity_check server_ValidateMessageIntegrity
  by unfold_locales (auto simp: server_ValidateMessageIntegrity_def Let_def)

definition ValidateMessage_chk :: "TrftpChk \<Rightarrow> nat \<Rightarrow> bool" where
  "ValidateMessage_chk body payload_len = (if payload_len \<noteq> sizeof_TrftpChk then False else True)"

definition ValidateMessage_rdy :: "TrftpRdy \<Rightarrow> nat \<Rightarrow> bool" where
  "ValidateMessage_rdy body payload_len = (if payload_len \<noteq> sizeof_TrftpRdy then False else True)"

definition ValidateMessage_done :: "TrftpDone \<Rightarrow> nat \<Rightarrow> TrftpDone \<Rightarrow> bool" where
  "ValidateMessage_done body payload_len expected =
     (if payload_len \<noteq> sizeof_TrftpDone then False
      else if done_new_file_version body \<noteq> done_new_file_version expected then False
      else if done_file_length body \<noteq> done_file_length expected then False
      else if done_crc32 body \<noteq> done_crc32 expected then False
      else True)"

definition ValidateMessage_cxl :: "TrftpCxl \<Rightarrow> nat \<Rightarrow> bool" where
  "ValidateMessage_cxl body payload_len =
     (if payload_len \<noteq> sizeof_TrftpCxl - 1 then False else True)"

definition ValidateMessage_rtx :: "TrftpRtx \<Rightarrow> nat \<Rightarrow> TrftpRtx \<Rightarrow> bool" where
  "ValidateMessage_rtx body payload_len expected =
     (if payload_len \<noteq> sizeof_TrftpRtx then False
      else if rtx_retransmit_psn body > rtx_retransmit_psn expected then False
      else True)"

section \<open>Receiving\<close>

definition TRAN_IPG_MIN :: u32 where "TRAN_IPG_MIN = 100"
definition TRAN_IPG_MAX :: u32 where "TRAN_IPG_MAX = 300"

text \<open>\<^verbatim>\<open>std::clamp\<close>\<close>

definition std_clamp :: "u32 \<Rightarrow> u32 \<Rightarrow> u32 \<Rightarrow> u32" where
  "std_clamp v lo hi = (if v < lo then lo else if hi < v then hi else v)"

definition server_expected_done :: "ServerTransaction \<Rightarrow> TrftpDone" where
  "server_expected_done st =
     \<lparr>done_new_file_version = s_new_file_version st, done_file_length = s_new_file_size st,
      done_crc32 = s_new_file_crc32 st\<rparr>"

definition server_OnReceive ::
  "TrftpMessage \<Rightarrow> nat \<Rightarrow> sockaddr_in \<Rightarrow> ServerTransaction \<Rightarrow> ServerTransaction" where
  "server_OnReceive msg len addr st =
     (let st = st\<lparr>s_client_address := addr\<rparr>
      in if \<not> server_ValidateMessageIntegrity msg len then st
         else
           let payload_len = len - sizeof_TrftpHeader
           in case message_id (xid (header msg)) of
                CHK \<Rightarrow>
                  if s_status st \<noteq> NTF then st
                  else if \<not> ValidateMessage_chk (msg_chk msg) payload_len then st
                  else st\<lparr>s_cur_file_version := chk_cur_file_version (msg_chk msg), s_status := CHK\<rparr>
              | RDY \<Rightarrow>
                  if s_status st \<noteq> INFO then st
                  else if \<not> ValidateMessage_rdy (msg_rdy msg) payload_len then st
                  else st\<lparr>s_inter_packet_gap :=
                            unat (std_clamp (rdy_inter_packet_gap (msg_rdy msg)) TRAN_IPG_MIN TRAN_IPG_MAX),
                          s_status := RDY\<rparr>
              | DONE \<Rightarrow>
                  if s_status st \<noteq> DATA then st
                  else if s_packet_sequence_number st \<noteq> s_total_packet_number st then st
                  else if \<not> ValidateMessage_done (msg_done msg) payload_len (server_expected_done st) then st
                  else st\<lparr>s_status := DONE\<rparr>
              | CXL \<Rightarrow>
                  if \<not> ValidateMessage_cxl TrftpCxl payload_len then st
                  else st\<lparr>s_status := CXL\<rparr>
              | RTX \<Rightarrow>
                  if s_status st \<noteq> DATA then st
                  else if \<not> ValidateMessage_rtx (msg_rtx msg) payload_len
                              \<lparr>rtx_retransmit_psn = s_packet_sequence_number st\<rparr> then st
                  else st\<lparr>s_retransmit_psn := rtx_retransmit_psn (msg_rtx msg)\<rparr>
              | _ \<Rightarrow> st)"

section \<open>Waiting for a status\<close>

text \<open>
  \<^verbatim>\<open>WaitForStatus\<close> first loads the status; then \<^verbatim>\<open>wait_for\<close> returns when the predicate
  holds or the time is up, and evaluates the predicate once more in that case. \<open>None\<close>: it
  keeps waiting; \<open>Some None\<close> is \<^verbatim>\<open>std::nullopt\<close>.
\<close>

definition wait_load :: "ServerTransaction \<Rightarrow> FtpStatus" where
  "wait_load st = s_status st"

definition wait_poll :: "FtpStatus \<Rightarrow> bool \<Rightarrow> ServerTransaction \<Rightarrow> FtpStatus option option" where
  "wait_poll old_status timed_out st =
     (if s_status st \<noteq> old_status then Some (Some (s_status st))
      else if timed_out then Some None
      else None)"

section \<open>The sending thread\<close>

text \<open>\<^verbatim>\<open>packet_sequence_number_.store(retransmit_psn_.exchange(-1))\<close> if there is a request.\<close>

definition take_rtx :: "ServerTransaction \<Rightarrow> ServerTransaction" where
  "take_rtx st =
     (if s_retransmit_psn st \<noteq> no_rtx
      then st\<lparr>s_packet_sequence_number := s_retransmit_psn st, s_retransmit_psn := no_rtx\<rparr>
      else st)"

definition data_offset :: "ServerTransaction \<Rightarrow> u32" where
  "data_offset st = of_nat (unat (s_packet_sequence_number st) * sizeof_TrftpData)"

definition data_len :: "ServerTransaction \<Rightarrow> u32" where
  "data_len st =
     (if s_packet_sequence_number st = s_total_packet_number st - 1
      then s_new_file_size st - data_offset st
      else of_nat sizeof_TrftpData)"

text \<open>Preparing and sending one packet, or cancelling when the file cannot be read.\<close>

definition send_data :: "UdpSocket \<Rightarrow> senv \<Rightarrow> ServerTransaction \<Rightarrow> ServerTransaction result" where
  "send_data sock E st =
     (let (ifs, bytes) = ifstream_read (unat (data_len st))
                           (ifstream_seekg (unat (data_offset st)) (s_ifs st));
          st = st\<lparr>s_ifs := ifs\<rparr>
      in if in_fail ifs
         then bind_result (server_SendMessage sock E CXL st) (\<lambda>st. Inr (st\<lparr>s_thr := Returned\<rparr>))
         else
           let msg = CompleteHeader st (put_payload bytes (senv_stack E)) DATA
                       (s_new_file_size st) (s_packet_sequence_number st)
           in bind_result
                (udp_Send (senv_sendto E) msg (sizeof_TrftpHeader + unat (data_len st))
                   (s_client_address st) sock (s_wire st))
                (\<lambda>(sent, wire). Inr
                   (st\<lparr>s_wire := wire,
                       s_thr := (if s_packet_sequence_number st = s_total_packet_number st - 1
                                 then Tail_Wait else For_Incr)\<rparr>)))"

definition sender_step :: "UdpSocket \<Rightarrow> senv \<Rightarrow> ServerTransaction \<Rightarrow> ServerTransaction result" where
  "sender_step sock E st =
     (case s_thr st of
        Not_Started \<Rightarrow> Inr st
      | Opening \<Rightarrow>
          (case ifstream_open (s_file_path st) (senv_files E) of
             None \<Rightarrow> bind_result (server_SendMessage sock E CXL st) (\<lambda>st. Inr (st\<lparr>s_thr := Returned\<rparr>))
           | Some ifs \<Rightarrow> Inr (st\<lparr>s_ifs := ifs, s_packet_sequence_number := 0, s_thr := For_Test\<rparr>))
      | For_Test \<Rightarrow>
          Inr (st\<lparr>s_thr := (if s_packet_sequence_number st < s_total_packet_number st
                            then Check_Cxl else Returned)\<rparr>)
      | Check_Cxl \<Rightarrow> Inr (st\<lparr>s_thr := (if s_status st = CXL then Returned else Check_Rtx)\<rparr>)
      | Check_Rtx \<Rightarrow> Inr ((take_rtx st)\<lparr>s_thr := Send_Data\<rparr>)
      | Send_Data \<Rightarrow> send_data sock E st
      | Tail_Wait \<Rightarrow> Inr ((take_rtx st)\<lparr>s_thr := For_Incr\<rparr>)
      | For_Incr \<Rightarrow>
          Inr (st\<lparr>s_packet_sequence_number := s_packet_sequence_number st + 1, s_thr := For_Test\<rparr>)
      | Returned \<Rightarrow> Inr st)"

end
