(* ===== verification/Server_Invariant.thy ===== *)
theory Server_Invariant
  imports Server_Transaction
begin

text \<open>
  What the three threads that act on a server transaction keep true: the caller of
  \<^verbatim>\<open>SendMessage\<close>, the receiver that runs \<^verbatim>\<open>OnReceive\<close> and the sending thread. The sending
  thread never leaves the file, with a handler as one step a request never points past the
  packet just sent (\<^verbatim>\<open>Rtx_Race\<close> has it in two), and without requests the thread sends every packet once, in order, and returns.
\<close>

section \<open>Packet counts\<close>

lemma unat_lt_32: "unat (w :: u32) < 4294967296"
proof -
  have "unat w < 2 ^ LENGTH(32)" by (rule unsigned_less)
  then show ?thesis by simp
qed

lemma unat_header_tpn: "unat (header_tpn n) = (if n = 0 then 1 else (unat n + 1407) div 1408)"
proof -
  define q where "q = (unat n + 1407) div 1408"
  have "q < 4294967296"
    using unat_lt_32 [of n] by (simp add: q_def)
  moreover have "header_tpn n = (if n = 0 then 1 else of_nat q)"
    by (simp add: header_tpn_def sizeof_defs q_def add.commute)
  ultimately show ?thesis
    by (simp add: unsigned_of_nat take_bit_nat_eq_self flip: q_def)
qed

text \<open>The constructor's count agrees with the headers unless the 32-bit sum wraps, and is
  zero then.\<close>

lemma unat_server_packets:
  "unat (server_packets n) =
     (if unat n + 1407 < 4294967296 then (unat n + 1407) div 1408
      else (unat n + 1407 - 4294967296) div 1408)"
proof -
  have "unat (n + 1407) = (unat n + 1407) mod 4294967296"
    by (simp add: unat_word_ariths)
  also have "\<dots> = (if unat n + 1407 < 4294967296 then unat n + 1407 else unat n + 1407 - 4294967296)"
    using unat_lt_32 [of n] by (simp add: mod_if)
  finally have sum: "unat (n + 1407) = \<dots>" .
  have "server_packets n = (n + 1407) div 1408"
    by (simp add: server_packets_def sizeof_defs add.commute)
  then show ?thesis
    by (simp only: unat_div sum) simp
qed

definition no_wrap :: "u32 \<Rightarrow> bool" where
  "no_wrap n \<longleftrightarrow> unat n + 1407 < 4294967296"

lemma server_packets_no_wrap: "no_wrap n \<Longrightarrow> unat (server_packets n) = (unat n + 1407) div 1408"
  by (simp add: unat_server_packets no_wrap_def)

lemma server_packets_wrap: "\<not> no_wrap n \<Longrightarrow> server_packets n = 0"
proof -
  assume "\<not> no_wrap n"
  then have "unat (server_packets n) = (unat n + 1407 - 4294967296) div 1408"
    by (simp add: unat_server_packets no_wrap_def)
  also have "\<dots> = 0"
    using unat_lt_32 [of n] by simp
  finally show ?thesis by (simp add: unat_eq_0)
qed

section \<open>Slices of the file\<close>

text \<open>Packet \<open>k\<close> of a file, and its bounds for a sequence number below the count.\<close>

definition slice_len :: "nat \<Rightarrow> nat \<Rightarrow> nat" where
  "slice_len n k = min 1408 (n - k * 1408)"

definition slice :: "byte list \<Rightarrow> nat \<Rightarrow> byte list" where
  "slice bs k = take 1408 (drop (k * 1408) bs)"

lemma length_slice [simp]: "length (slice bs k) = slice_len (length bs) k"
  by (simp add: slice_def slice_len_def min.commute)

lemma take_slice: "take (k * 1408) bs @ slice bs k = take (Suc k * 1408) bs"
proof -
  have "Suc k * 1408 = k * 1408 + 1408" by simp
  then show ?thesis by (simp only: slice_def take_add)
qed

lemma packet_in_file:
  assumes "k < server_packets n"
  shows "unat k * 1408 < unat n" "no_wrap n"
proof -
  show nw: "no_wrap n"
    by (rule ccontr) (use assms server_packets_wrap [of n] in \<open>auto simp: word_less_nat_alt\<close>)
  have "unat k < (unat n + 1407) div 1408"
    using assms by (simp add: word_less_nat_alt server_packets_no_wrap [OF nw])
  then show "unat k * 1408 < unat n"
    by linarith
qed

lemma unat_minus_1: "(0 :: u32) < a \<Longrightarrow> unat (a - 1) = unat a - 1"
  by unat_arith

lemma eq_minus_1: "(b :: u32) < a \<Longrightarrow> b = a - 1 \<longleftrightarrow> Suc (unat b) = unat a"
  by unat_arith

section \<open>The invariant\<close>

definition in_loop :: "sender \<Rightarrow> bool" where
  "in_loop p \<longleftrightarrow> p \<in> {Check_Cxl, Check_Rtx, Send_Data, Tail_Wait, For_Incr}"

definition server_inv :: "ServerTransaction \<Rightarrow> bool" where
  "server_inv st \<longleftrightarrow>
     server_packets (s_new_file_size st) = s_total_packet_number st \<and>
     s_packet_sequence_number st \<le> s_total_packet_number st \<and>
     (s_retransmit_psn st = no_rtx \<or> s_retransmit_psn st \<le> s_packet_sequence_number st) \<and>
     (s_thr st \<in> {Not_Started, Opening} \<longrightarrow> s_packet_sequence_number st = 0) \<and>
     (in_loop (s_thr st) \<longrightarrow> s_packet_sequence_number st < s_total_packet_number st) \<and>
     (in_loop (s_thr st) \<or> s_thr st = For_Test \<longrightarrow> \<not> in_fail (s_ifs st)) \<and>
     100 \<le> s_inter_packet_gap st \<and> s_inter_packet_gap st \<le> 300"

lemma data_offset_len:
  assumes "server_inv st" "in_loop (s_thr st)"
  shows "unat (data_offset st) = unat (s_packet_sequence_number st) * 1408"
    and "unat (data_len st) = slice_len (unat (s_new_file_size st)) (unat (s_packet_sequence_number st))"
    and "unat (data_offset st) + unat (data_len st) \<le> unat (s_new_file_size st)"
    and "0 < unat (data_len st)"
proof -
  let ?k = "s_packet_sequence_number st" and ?n = "s_new_file_size st"
  have k: "?k < server_packets ?n" and tot: "s_total_packet_number st = server_packets ?n"
    using assms by (auto simp: server_inv_def)
  note nw = packet_in_file(2) [OF k] and off_less = packet_in_file(1) [OF k]
  show off: "unat (data_offset st) = unat ?k * 1408"
    using off_less unat_lt_32 [of ?n]
    by (simp add: data_offset_def sizeof_payload_defs unat_word_ariths)
  have last: "?k = server_packets ?n - 1 \<longleftrightarrow> Suc (unat ?k) = (unat ?n + 1407) div 1408"
    using eq_minus_1 [OF k] server_packets_no_wrap [OF nw] by simp
  have lt: "unat ?k < (unat ?n + 1407) div 1408"
    using k server_packets_no_wrap [OF nw] by (simp add: word_less_nat_alt)
  show len: "unat (data_len st) = slice_len (unat ?n) (unat ?k)"
  proof (cases "?k = server_packets ?n - 1")
    case True
    then have "Suc (unat ?k) = (unat ?n + 1407) div 1408" using last by simp
    then have "unat ?n - unat ?k * 1408 \<le> 1408" by linarith
    moreover have "unat (?n - data_offset st) = unat ?n - unat ?k * 1408"
      using off off_less by (simp add: unat_sub word_le_nat_alt)
    ultimately show ?thesis
      using True tot by (simp add: data_len_def slice_len_def)
  next
    case False
    then have "Suc (unat ?k) < (unat ?n + 1407) div 1408" using last lt by linarith
    then have "1408 \<le> unat ?n - unat ?k * 1408" by linarith
    then show ?thesis
      using False tot by (simp add: data_len_def slice_len_def sizeof_payload_defs)
  qed
  show "unat (data_offset st) + unat (data_len st) \<le> unat ?n"
    using off_less by (simp add: off len slice_len_def)
  show "0 < unat (data_len st)"
    using off_less by (simp add: len slice_len_def)
qed

section \<open>Preservation\<close>

lemma server_inv_new:
  assumes "ServerTransaction_new addr p v d fs = Inr st"
  shows "server_inv st"
  using assms
  by (auto simp: ServerTransaction_new_def bind_result_eq_Inr server_inv_def in_loop_def)

lemma clamp_ipg: "100 \<le> unat (std_clamp v TRAN_IPG_MIN TRAN_IPG_MAX)"
  "unat (std_clamp v TRAN_IPG_MIN TRAN_IPG_MAX) \<le> 300"
  by (auto simp: std_clamp_def TRAN_IPG_MIN_def TRAN_IPG_MAX_def not_less word_le_nat_alt)

text \<open>Which fields the invariant depends on.\<close>

lemma server_inv_frame [simp]:
  "server_inv (st\<lparr>s_client_address := a\<rparr>) = server_inv st"
  "server_inv (st\<lparr>s_status := i\<rparr>) = server_inv st"
  "server_inv (st\<lparr>s_cur_file_version := v\<rparr>) = server_inv st"
  "server_inv (st\<lparr>s_wire := w\<rparr>) = server_inv st"
  by (simp_all add: server_inv_def)

lemma server_inv_gap:
  "server_inv st \<Longrightarrow> 100 \<le> g \<Longrightarrow> g \<le> 300 \<Longrightarrow> server_inv (st\<lparr>s_inter_packet_gap := g\<rparr>)"
  by (simp add: server_inv_def)

lemma server_inv_rtx:
  "server_inv st \<Longrightarrow> r \<le> s_packet_sequence_number st \<Longrightarrow> server_inv (st\<lparr>s_retransmit_psn := r\<rparr>)"
  by (simp add: server_inv_def)

lemma in_loop_not:
  "in_loop p \<Longrightarrow> p \<notin> {Not_Started, Opening, For_Test, Returned}"
  by (auto simp: in_loop_def)

lemma server_inv_frame2 [simp]:
  "server_inv (st\<lparr>s_cur_file_version := v, s_status := i\<rparr>) = server_inv st"
  "server_inv (st\<lparr>s_inter_packet_gap := g, s_status := i\<rparr>) = server_inv (st\<lparr>s_inter_packet_gap := g\<rparr>)"
  by (simp_all add: server_inv_def)

text \<open>What \<^verbatim>\<open>OnReceive\<close> can do to the state besides recording the sender's address.\<close>

lemma server_OnReceive_cases:
  obtains (ignored) "server_OnReceive msg len addr st = st\<lparr>s_client_address := addr\<rparr>"
  | (chk) "s_status st = NTF" "message_id (xid (header msg)) = CHK"
      "server_OnReceive msg len addr st = st\<lparr>s_client_address := addr,
         s_cur_file_version := chk_cur_file_version (msg_chk msg), s_status := CHK\<rparr>"
  | (rdy) "s_status st = INFO" "message_id (xid (header msg)) = RDY"
      "server_OnReceive msg len addr st = st\<lparr>s_client_address := addr,
         s_inter_packet_gap :=
           unat (std_clamp (rdy_inter_packet_gap (msg_rdy msg)) TRAN_IPG_MIN TRAN_IPG_MAX),
         s_status := RDY\<rparr>"
  | (completed) "s_status st = DATA" "message_id (xid (header msg)) = DONE"
      "s_packet_sequence_number st = s_total_packet_number st"
      "ValidateMessage_done (msg_done msg) (len - sizeof_TrftpHeader) (server_expected_done st)"
      "server_OnReceive msg len addr st = st\<lparr>s_client_address := addr, s_status := DONE\<rparr>"
  | (cxl) "message_id (xid (header msg)) = CXL" "len = sizeof_TrftpHeader"
      "server_OnReceive msg len addr st = st\<lparr>s_client_address := addr, s_status := CXL\<rparr>"
  | (rtx) "s_status st = DATA" "message_id (xid (header msg)) = RTX"
      "rtx_retransmit_psn (msg_rtx msg) \<le> s_packet_sequence_number st"
      "server_OnReceive msg len addr st = st\<lparr>s_client_address := addr,
         s_retransmit_psn := rtx_retransmit_psn (msg_rtx msg)\<rparr>"
proof (cases "server_ValidateMessageIntegrity msg len")
  case False
  then show thesis by (intro ignored) (simp add: server_OnReceive_def)
next
  case True
  have len: "sizeof_TrftpHeader \<le> len"
    using server_check.validate_len [OF True] by (simp add: sizeof_defs)
  have ex: "server_expected_done (st\<lparr>s_client_address := addr\<rparr>) = server_expected_done st"
    by (simp add: server_expected_done_def)
  show thesis
  proof (cases "message_id (xid (header msg))")
    case CHK
    with True show thesis
      by (cases "s_status st = NTF"; cases "ValidateMessage_chk (msg_chk msg) (len - sizeof_TrftpHeader)")
        (auto intro: ignored chk simp: server_OnReceive_def)
  next
    case RDY
    with True show thesis
      by (cases "s_status st = INFO"; cases "ValidateMessage_rdy (msg_rdy msg) (len - sizeof_TrftpHeader)")
        (auto intro: ignored rdy simp: server_OnReceive_def)
  next
    case DONE
    with True show thesis
      by (cases "s_status st = DATA"; cases "s_packet_sequence_number st = s_total_packet_number st";
          cases "ValidateMessage_done (msg_done msg) (len - sizeof_TrftpHeader) (server_expected_done st)")
        (auto intro: ignored completed simp: server_OnReceive_def ex)
  next
    case CXL
    with True len show thesis
      by (cases "len = sizeof_TrftpHeader")
        (auto intro: ignored cxl simp: server_OnReceive_def ValidateMessage_cxl_def sizeof_payload_defs)
  next
    case RTX
    with True show thesis
      by (cases "s_status st = DATA";
          cases "ValidateMessage_rtx (msg_rtx msg) (len - sizeof_TrftpHeader)
                   \<lparr>rtx_retransmit_psn = s_packet_sequence_number st\<rparr>")
        (auto intro: ignored rtx simp: server_OnReceive_def ValidateMessage_rtx_def split: if_splits)
  qed (use True in \<open>auto intro: ignored simp: server_OnReceive_def\<close>)
qed

lemma server_OnReceive_inv:
  assumes "server_inv st"
  shows "server_inv (server_OnReceive msg len addr st)"
proof (cases rule: server_OnReceive_cases [of msg len addr st])
  case rdy
  show ?thesis unfolding rdy(3) using assms by (simp add: server_inv_gap clamp_ipg)
next
  case rtx
  show ?thesis unfolding rtx(4) using assms rtx(3) by (simp add: server_inv_rtx)
qed (simp_all add: assms)

lemma server_SendMessage_Inr:
  assumes "server_SendMessage sock E i st = Inr st'"
  obtains (ignored) "st' = st"
  | (started) "i = DATA" "s_thr st = Not_Started" "st' = st\<lparr>s_status := DATA, s_thr := Opening\<rparr>"
  | (sent) "i \<in> {NTF, INFO, FIN, CXL}"
      "st' = st\<lparr>s_status := i, s_wire := s_wire st @
         [(s_client_address st, send_image (server_control i (senv_stack E) (st\<lparr>s_status := i\<rparr>))
             (32 + fst (server_payload i (st\<lparr>s_status := i\<rparr>))))]\<rparr>"
  using assms
  by (auto simp: server_SendMessage_def SendFileAsync_def Let_def bind_result_eq_Inr sizeof_defs
      dest!: udp_Send_Inr split: if_splits)

lemma server_inv_status_wire:
  "server_inv st \<Longrightarrow> server_inv (st\<lparr>s_status := i, s_wire := w\<rparr>)"
  by (simp add: server_inv_def)

lemma server_SendMessage_inv:
  assumes "server_SendMessage sock E i st = Inr st'" "server_inv st"
  shows "server_inv st'"
  using assms(1)
proof (cases rule: server_SendMessage_Inr)
  case ignored
  with assms(2) show ?thesis by simp
next
  case started
  with assms(2) show ?thesis by (auto simp: server_inv_def in_loop_def)
next
  case sent
  with assms(2) show ?thesis by (simp add: server_inv_def)
qed

lemma server_inv_Returned:
  "server_inv st \<Longrightarrow> server_inv (st\<lparr>s_ifs := i, s_thr := Returned\<rparr>)"
  by (simp add: server_inv_def in_loop_def)

lemma take_rtx_frame [simp]:
  "s_thr (take_rtx st) = s_thr st" "s_status (take_rtx st) = s_status st"
  "s_ifs (take_rtx st) = s_ifs st" "s_wire (take_rtx st) = s_wire st"
  "s_new_file_size (take_rtx st) = s_new_file_size st"
  "s_total_packet_number (take_rtx st) = s_total_packet_number st"
  "s_inter_packet_gap (take_rtx st) = s_inter_packet_gap st"
  "s_retransmit_psn (take_rtx st) = no_rtx"
  by (simp_all add: take_rtx_def)

lemma take_rtx_psn:
  "server_inv st \<Longrightarrow> s_packet_sequence_number (take_rtx st) \<le> s_packet_sequence_number st"
  by (auto simp: take_rtx_def server_inv_def)

lemma take_rtx_inv:
  assumes "server_inv st" "in_loop (s_thr st)" "in_loop p"
  shows "server_inv ((take_rtx st)\<lparr>s_thr := p\<rparr>)"
proof -
  have "s_packet_sequence_number st < s_total_packet_number st"
    using assms(1,2) by (simp add: server_inv_def)
  with take_rtx_psn [OF assms(1)]
  have "s_packet_sequence_number (take_rtx st) < s_total_packet_number st"
    by (rule order.strict_trans1)
  then show ?thesis
    using assms in_loop_not [OF assms(3)] by (simp add: server_inv_def)
qed

text \<open>What sending one packet does: it cancels because the file is shorter than announced,
  or the packet is on the wire.\<close>

definition data_message :: "senv \<Rightarrow> byte list \<Rightarrow> ServerTransaction \<Rightarrow> TrftpMessage" where
  "data_message E bs st =
     CompleteHeader st (put_payload bs (senv_stack E)) DATA (s_new_file_size st)
       (s_packet_sequence_number st)"

definition read_at :: "ServerTransaction \<Rightarrow> ifstream \<times> byte list" where
  "read_at st =
     ifstream_read (unat (data_len st)) (ifstream_seekg (unat (data_offset st)) (s_ifs st))"

lemma read_at_result:
  assumes "\<not> in_fail (s_ifs st)" "0 < unat (data_len st)"
  shows "snd (read_at st) = take (unat (data_len st)) (drop (unat (data_offset st)) (in_data (s_ifs st)))"
    and "in_data (fst (read_at st)) = in_data (s_ifs st)"
    and "in_fail (fst (read_at st)) \<longleftrightarrow>
      length (in_data (s_ifs st)) < unat (data_offset st) + unat (data_len st)"
  using assms by (auto simp: read_at_def ifstream_read_def ifstream_seekg_def Let_def)

lemma send_data_cases:
  assumes step: "send_data sock E st = Inr st'" and inv: "server_inv st" "s_thr st = Send_Data"
  obtains (short_file) d where
      "length (in_data (s_ifs st)) < unat (data_offset st) + unat (data_len st)"
      "st' = st\<lparr>s_ifs := fst (read_at st), s_status := CXL, s_wire := s_wire st @ [d], s_thr := Returned\<rparr>"
  | (sent) "unat (data_offset st) + unat (data_len st) \<le> length (in_data (s_ifs st))"
      "st' = st\<lparr>s_ifs := fst (read_at st),
         s_wire := s_wire st @ [(s_client_address st,
           send_image (data_message E (snd (read_at st)) st) (32 + unat (data_len st)))],
         s_thr := (if s_packet_sequence_number st = s_total_packet_number st - 1
                   then Tail_Wait else For_Incr)\<rparr>"
proof -
  have loop: "in_loop (s_thr st)" and ok: "\<not> in_fail (s_ifs st)"
    using inv by (simp_all add: in_loop_def server_inv_def)
  note rd = read_at_result(3) [OF ok data_offset_len(4) [OF inv(1) loop]]
  obtain ifs bytes where eq: "read_at st = (ifs, bytes)" by fastforce
  show thesis
  proof (cases "in_fail ifs")
    case True
    then have "\<exists>st1. server_SendMessage sock E CXL (st\<lparr>s_ifs := ifs\<rparr>) = Inr st1 \<and> st' = st1\<lparr>s_thr := Returned\<rparr>"
      using step eq by (auto simp: send_data_def read_at_def Let_def bind_result_eq_Inr)
    then obtain st1 where "server_SendMessage sock E CXL (st\<lparr>s_ifs := ifs\<rparr>) = Inr st1"
      "st' = st1\<lparr>s_thr := Returned\<rparr>" by blast
    then have "\<exists>d. st' = st\<lparr>s_ifs := ifs, s_status := CXL, s_wire := s_wire st @ [d], s_thr := Returned\<rparr>"
      by (auto simp: server_SendMessage_def Let_def bind_result_eq_Inr dest!: udp_Send_Inr)
    then show thesis
      using short_file True rd eq by auto
  next
    case False
    then have "st' = st\<lparr>s_ifs := ifs,
         s_wire := s_wire st @ [(s_client_address st,
           send_image (data_message E bytes (st\<lparr>s_ifs := ifs\<rparr>)) (32 + unat (data_len (st\<lparr>s_ifs := ifs\<rparr>))))],
         s_thr := (if s_packet_sequence_number st = s_total_packet_number st - 1
                   then Tail_Wait else For_Incr)\<rparr>"
      using step eq
      by (auto simp: send_data_def read_at_def Let_def bind_result_eq_Inr data_message_def
          sizeof_defs dest!: udp_Send_Inr)
    moreover have "data_len (st\<lparr>s_ifs := ifs\<rparr>) = data_len st"
      "data_message E bytes (st\<lparr>s_ifs := ifs\<rparr>) = data_message E bytes st"
      by (simp_all add: data_len_def data_offset_def data_message_def CompleteHeader_def)
    ultimately show thesis
      using sent False rd eq by simp
  qed
qed

lemma send_data_inv:
  assumes "send_data sock E st = Inr st'" "server_inv st" "s_thr st = Send_Data"
  shows "server_inv st'"
  using assms
proof (cases rule: send_data_cases)
  case (short_file d)
  then show ?thesis using assms(2) by (simp add: server_inv_def in_loop_def)
next
  case sent
  have "in_loop Send_Data" by (simp add: in_loop_def)
  moreover have "\<not> in_fail (s_ifs st)"
    using assms(2,3) by (simp add: server_inv_def in_loop_def)
  ultimately have "\<not> in_fail (fst (read_at st))"
    using sent(1) read_at_result(3) data_offset_len(4) [OF assms(2)] assms(3) by simp
  then show ?thesis
    unfolding sent(2) using assms(2,3) by (simp add: server_inv_def in_loop_def)
qed

lemma sender_step_inv:
  assumes "sender_step sock E st = Inr st'" "server_inv st"
  shows "server_inv st'"
proof (cases "s_thr st")
  case Opening
  show ?thesis
  proof (cases "ifstream_open (s_file_path st) (senv_files E)")
    case None
    with Opening assms(1) obtain st1 where
      "server_SendMessage sock E CXL st = Inr st1" "st' = st1\<lparr>s_thr := Returned\<rparr>"
      by (auto simp: sender_step_def bind_result_eq_Inr)
    moreover from this have "server_inv st1"
      using assms(2) server_SendMessage_inv by blast
    ultimately show ?thesis by (simp add: server_inv_def in_loop_def)
  next
    case (Some ifs)
    then have "\<not> in_fail ifs"
      by (auto simp: ifstream_open_def split: option.splits if_splits)
    moreover have "s_packet_sequence_number st = 0"
      using Opening assms(2) by (simp add: server_inv_def)
    ultimately show ?thesis
      using Some Opening assms by (auto simp: sender_step_def server_inv_def in_loop_def)
  qed
next
  case Check_Rtx
  then show ?thesis
    using assms take_rtx_inv [of st Send_Data] by (auto simp: sender_step_def in_loop_def)
next
  case Tail_Wait
  then show ?thesis
    using assms take_rtx_inv [of st For_Incr] by (auto simp: sender_step_def in_loop_def)
next
  case Send_Data
  then show ?thesis
    using assms send_data_inv by (simp add: sender_step_def)
next
  case For_Incr
  let ?k = "s_packet_sequence_number st"
  have k: "?k < s_total_packet_number st"
    and r: "s_retransmit_psn st = no_rtx \<or> s_retransmit_psn st \<le> ?k"
    using For_Incr assms(2) by (auto simp: server_inv_def in_loop_def)
  then have "?k + 1 \<le> s_total_packet_number st"
    "s_retransmit_psn st = no_rtx \<or> s_retransmit_psn st \<le> ?k + 1"
    by (auto simp: inc_le) (unat_arith)
  then show ?thesis
    using For_Incr assms by (auto simp: sender_step_def server_inv_def in_loop_def)
qed (use assms in \<open>auto simp: sender_step_def server_inv_def in_loop_def split: if_splits\<close>)

section \<open>Reachable states of a transaction\<close>

definition server_init :: "ServerTransaction \<Rightarrow> bool" where
  "server_init st \<longleftrightarrow> (\<exists>addr p v d fs. ServerTransaction_new addr p v d fs = Inr st)"

inductive server_step :: "UdpSocket \<Rightarrow> ServerTransaction \<Rightarrow> ServerTransaction \<Rightarrow> bool"
  for sock :: UdpSocket where
  caller_sends: "server_SendMessage sock E i st = Inr st' \<Longrightarrow> server_step sock st st'"
| receives: "server_step sock st (server_OnReceive msg len addr st)"
| sender_runs: "sender_step sock E st = Inr st' \<Longrightarrow> server_step sock st st'"

inductive_cases server_stepE [elim]: "server_step sock st st'"

interpretation server_tran: invariant_system server_init "server_step sock" server_inv for sock
  by unfold_locales
    (auto simp: server_init_def intro: server_inv_new server_SendMessage_inv server_OnReceive_inv
      sender_step_inv)

end
