(* ===== verification/Sender_Run.thy ===== *)
theory Sender_Run
  imports Server_Invariant
begin

text \<open>
  The sending thread run by itself: without retransmission requests it sends the packets of
  the file once each, in order, and returns.
\<close>

fun sender_run :: "UdpSocket \<Rightarrow> senv \<Rightarrow> nat \<Rightarrow> ServerTransaction \<Rightarrow> ServerTransaction result" where
  "sender_run sock E 0 st = Inr st"
| "sender_run sock E (Suc n) st = bind_result (sender_step sock E st) (sender_run sock E n)"

lemma sender_run_add:
  "sender_run sock E (m + n) st = bind_result (sender_run sock E m st) (sender_run sock E n)"
proof (induction m arbitrary: st)
  case 0
  then show ?case by simp
next
  case (Suc m)
  then show ?case by (cases "sender_step sock E st") simp_all
qed

section \<open>The datagrams of a file\<close>

text \<open>Packet \<open>k\<close> of the file with bytes \<open>bs\<close>, as this transaction puts it on the wire.\<close>

definition data_packet :: "TrftpMessage \<Rightarrow> byte list \<Rightarrow> ServerTransaction \<Rightarrow> nat \<Rightarrow> TrftpMessage" where
  "data_packet j bs st k =
     CompleteHeader st (put_payload (slice bs k) j) DATA (s_new_file_size st) (of_nat k)"

definition data_datagram :: "TrftpMessage \<Rightarrow> byte list \<Rightarrow> ServerTransaction \<Rightarrow> nat \<Rightarrow> datagram" where
  "data_datagram j bs st k =
     (s_client_address st, send_image (data_packet j bs st k) (32 + slice_len (length bs) k))"

text \<open>A socket and a system that send, and a stream that holds the announced file.\<close>

definition sends :: "UdpSocket \<Rightarrow> senv \<Rightarrow> bool" where
  "sends sock E \<longleftrightarrow> 0 \<le> fd sock \<and> 0 \<le> senv_sendto E"

definition holds_file :: "byte list \<Rightarrow> ServerTransaction \<Rightarrow> bool" where
  "holds_file bs st \<longleftrightarrow>
     \<not> in_fail (s_ifs st) \<and> in_data (s_ifs st) = bs \<and> unat (s_new_file_size st) = length bs"

text \<open>The same transfer: nothing differs but the position of the thread.\<close>

definition advance ::
  "ServerTransaction \<Rightarrow> u32 \<Rightarrow> sender \<Rightarrow> ifstream \<Rightarrow> datagram list \<Rightarrow> ServerTransaction" where
  "advance st k p i w =
     st\<lparr>s_packet_sequence_number := k, s_retransmit_psn := no_rtx, s_thr := p, s_ifs := i, s_wire := w\<rparr>"

lemma send_data_run:
  assumes inv: "server_inv st" "s_thr st = Send_Data"
    and env: "sends sock E" and f: "holds_file bs st"
  shows "\<exists>i. send_data sock E st = Inr (st\<lparr>s_ifs := i,
      s_wire := s_wire st @ [data_datagram (senv_stack E) bs st (unat (s_packet_sequence_number st))],
      s_thr := (if s_packet_sequence_number st = s_total_packet_number st - 1
                then Tail_Wait else For_Incr)\<rparr>) \<and> \<not> in_fail i \<and> in_data i = bs"
proof -
  let ?k = "unat (s_packet_sequence_number st)"
  have loop: "in_loop (s_thr st)" by (simp add: inv in_loop_def)
  note dol = data_offset_len [OF inv(1) loop]
  have ok: "\<not> in_fail (s_ifs st)" and bs: "in_data (s_ifs st) = bs"
    and size: "unat (s_new_file_size st) = length bs"
    using f by (simp_all add: holds_file_def)
  note rd = read_at_result [OF ok dol(4)]
  obtain i bytes where eq: "read_at st = (i, bytes)" by fastforce
  have bytes: "bytes = slice bs ?k"
  proof -
    have "bytes = take (slice_len (length bs) ?k) (drop (?k * 1408) bs)"
      using rd(1) eq dol(1,2) bs size by simp
    also have "\<dots> = slice bs ?k"
      by (simp add: slice_def slice_len_def take_all_iff min_def)
    finally show ?thesis .
  qed
  have nf: "\<not> in_fail i" and di: "in_data i = bs"
    using rd(2,3) eq dol(3) bs size by simp_all
  have len: "unat (data_len st) = slice_len (length bs) ?k"
    using dol(2) size by simp
  have st': "data_len (st\<lparr>s_ifs := i\<rparr>) = data_len st"
    by (simp add: data_len_def data_offset_def)
  have msg: "CompleteHeader (st\<lparr>s_ifs := i\<rparr>) (put_payload bytes (senv_stack E)) DATA
      (s_new_file_size st) (s_packet_sequence_number st) = data_packet (senv_stack E) bs st ?k"
    by (simp add: data_packet_def bytes CompleteHeader_def)
  show ?thesis
    using eq nf di env
    by (auto simp: send_data_def read_at_def Let_def udp_Send_def sends_def st' msg len
        data_datagram_def sizeof_defs)
qed

lemma advance_simps [simp]:
  "s_packet_sequence_number (advance st k p i w) = k"
  "s_retransmit_psn (advance st k p i w) = no_rtx"
  "s_thr (advance st k p i w) = p"
  "s_ifs (advance st k p i w) = i"
  "s_wire (advance st k p i w) = w"
  "s_status (advance st k p i w) = s_status st"
  "s_new_file_size (advance st k p i w) = s_new_file_size st"
  "s_total_packet_number (advance st k p i w) = s_total_packet_number st"
  "advance (advance st k p i w) k' p' i' w' = advance st k' p' i' w'"
  "data_datagram j bs (advance st k p i w) = data_datagram j bs st"
  by (simp_all add: advance_def data_datagram_def data_packet_def CompleteHeader_def fun_eq_iff)

lemma take_rtx_none: "s_retransmit_psn st = no_rtx \<Longrightarrow> take_rtx st = st"
  by (simp add: take_rtx_def)

lemma server_inv_in_loop:
  assumes "server_inv st" "s_thr st = For_Test" "s_packet_sequence_number st < s_total_packet_number st"
    "in_loop p"
  shows "server_inv (st\<lparr>s_thr := p\<rparr>)"
  using assms in_loop_not [OF assms(4)] by (simp add: server_inv_def)

section \<open>One packet\<close>

lemma packet_run:
  assumes inv: "server_inv st" "s_thr st = For_Test" and env: "sends sock E"
    and f: "holds_file bs st" and live: "s_status st \<noteq> CXL" and rtx: "s_retransmit_psn st = no_rtx"
    and less: "s_packet_sequence_number st < s_total_packet_number st"
  shows "\<exists>i n. n \<le> 6 \<and> sender_run sock E n st = Inr (advance st (s_packet_sequence_number st + 1)
      For_Test i (s_wire st @ [data_datagram (senv_stack E) bs st (unat (s_packet_sequence_number st))]))
      \<and> \<not> in_fail i \<and> in_data i = bs"
proof -
  let ?k = "s_packet_sequence_number st"
  let ?w = "s_wire st @ [data_datagram (senv_stack E) bs st (unat ?k)]"
  let ?st = "st\<lparr>s_thr := Send_Data\<rparr>"
  have to_send: "sender_run sock E 3 st = Inr ?st"
    using inv(2) live less take_rtx_none [of "st\<lparr>s_thr := Check_Rtx\<rparr>"] rtx
    by (simp add: sender_step_def numeral_3_eq_3)
  have inv': "server_inv ?st"
    by (rule server_inv_in_loop [OF inv less]) (simp add: in_loop_def)
  have f': "holds_file bs ?st" and dg: "data_datagram j bs ?st = data_datagram j bs st" for j
    using f by (simp_all add: holds_file_def data_datagram_def data_packet_def CompleteHeader_def fun_eq_iff)
  obtain i where send: "send_data sock E ?st = Inr (st\<lparr>s_ifs := i, s_wire := ?w,
      s_thr := (if ?k = s_total_packet_number st - 1 then Tail_Wait else For_Incr)\<rparr>)"
    and i: "\<not> in_fail i" "in_data i = bs"
    using send_data_run [OF inv' _ env f'] by (auto simp: dg)
  have incr: "sender_step sock E (st\<lparr>s_ifs := i, s_wire := ?w, s_thr := For_Incr\<rparr>)
      = Inr (advance st (?k + 1) For_Test i ?w)"
    by (simp add: sender_step_def advance_def rtx)
  have step3: "sender_step sock E ?st = send_data sock E ?st"
    by (simp add: sender_step_def)
  have "sender_run sock E (if ?k = s_total_packet_number st - 1 then 3 else 2) ?st
      = Inr (advance st (?k + 1) For_Test i ?w)"
  proof (cases "?k = s_total_packet_number st - 1")
    case True
    have "sender_step sock E (st\<lparr>s_ifs := i, s_wire := ?w, s_thr := Tail_Wait\<rparr>)
        = Inr (st\<lparr>s_ifs := i, s_wire := ?w, s_thr := For_Incr\<rparr>)"
      by (simp add: sender_step_def take_rtx_none rtx)
    then show ?thesis
      using True send step3 incr by (simp add: numeral_3_eq_3)
  next
    case False
    then show ?thesis
      using send step3 incr by (simp add: numeral_2_eq_2)
  qed
  then have "sender_run sock E (3 + (if ?k = s_total_packet_number st - 1 then 3 else 2)) st
      = Inr (advance st (?k + 1) For_Test i ?w)"
    unfolding sender_run_add to_send by simp
  then show ?thesis
    using i by (intro exI conjI) (auto split: if_splits)
qed

lemma sender_run_inv: "sender_run sock E n st = Inr st' \<Longrightarrow> server_inv st \<Longrightarrow> server_inv st'"
  by (induction n arbitrary: st) (auto simp: bind_result_eq_Inr intro: sender_step_inv)

section \<open>The whole file\<close>

lemma file_run:
  assumes "server_inv st" "s_thr st = For_Test" "sends sock E" "holds_file bs st"
    "s_status st \<noteq> CXL" "s_retransmit_psn st = no_rtx"
    and "m = unat (s_total_packet_number st) - unat (s_packet_sequence_number st)"
  shows "\<exists>i n. n \<le> 6 * m + 1 \<and> sender_run sock E n st = Inr (advance st (s_total_packet_number st)
      Returned i (s_wire st @ map (data_datagram (senv_stack E) bs st)
        [unat (s_packet_sequence_number st) ..< unat (s_total_packet_number st)]))"
  using assms
proof (induction m arbitrary: st)
  case 0
  let ?k = "s_packet_sequence_number st"
  have le: "?k \<le> s_total_packet_number st"
    using "0.prems"(1) by (simp add: server_inv_def)
  with "0.prems"(7) have eq: "?k = s_total_packet_number st"
    by (simp add: word_le_nat_alt word_unat_eq_iff)
  then have "sender_run sock E 1 st = Inr (advance st (s_total_packet_number st) Returned (s_ifs st)
      (s_wire st @ map (data_datagram (senv_stack E) bs st) [unat ?k ..< unat (s_total_packet_number st)]))"
    using "0.prems"(2,6) by (simp add: sender_step_def advance_def)
  then show ?case by (metis le_add2 mult_0_right add_0)
next
  case (Suc m)
  let ?k = "s_packet_sequence_number st" and ?t = "s_total_packet_number st"
  let ?dg = "data_datagram (senv_stack E) bs st"
  have less: "?k < ?t"
    using Suc.prems(7) by (simp add: word_less_nat_alt)
  obtain i n where n: "n \<le> 6"
    and run: "sender_run sock E n st = Inr (advance st (?k + 1) For_Test i (s_wire st @ [?dg (unat ?k)]))"
    and i: "\<not> in_fail i" "in_data i = bs"
    using packet_run [OF Suc.prems(1-6) less] by blast
  let ?st = "advance st (?k + 1) For_Test i (s_wire st @ [?dg (unat ?k)])"
  have k1: "unat (?k + 1) = Suc (unat ?k)"
    using less by unat_arith
  have f: "holds_file bs ?st"
    using i Suc.prems(4) by (simp add: holds_file_def)
  have m: "m = unat (s_total_packet_number ?st) - unat (s_packet_sequence_number ?st)"
    using Suc.prems(7) k1 by simp
  have "\<exists>i' n'. n' \<le> 6 * m + 1 \<and> sender_run sock E n' ?st = Inr (advance ?st ?t Returned i'
      (s_wire st @ [?dg (unat ?k)] @ map ?dg [Suc (unat ?k) ..< unat ?t]))"
    using Suc.IH [OF sender_run_inv [OF run Suc.prems(1)] _ Suc.prems(3) f _ _ m] Suc.prems(5) k1
    by simp
  then obtain i' n' where n': "n' \<le> 6 * m + 1"
    and run': "sender_run sock E n' ?st = Inr (advance ?st ?t Returned i'
      (s_wire st @ [?dg (unat ?k)] @ map ?dg [Suc (unat ?k) ..< unat ?t]))" by blast
  have "[unat ?k ..< unat ?t] = unat ?k # [Suc (unat ?k) ..< unat ?t]"
    using less by (simp add: upt_conv_Cons word_less_nat_alt)
  then have "sender_run sock E (n + n') st = Inr (advance st ?t Returned i'
      (s_wire st @ map ?dg [unat ?k ..< unat ?t]))"
    using run run' by (simp add: sender_run_add)
  then show ?case
    using n n' by (intro exI [of _ i'] exI [of _ "n + n'"]) simp
qed

end
