(* ===== verification/Client_Transaction.thy ===== *)
theory Client_Transaction
  imports Integrity File_Io Udp_Socket
begin

text \<open>
  \<^verbatim>\<open>src/client/client_transaction.cpp\<close>: the state of the receiving side, its constructor,
  \<^verbatim>\<open>Reset\<close>, \<^verbatim>\<open>SendMessage\<close>, \<^verbatim>\<open>ValidateMessageIntegrity\<close>, \<^verbatim>\<open>OnReceive\<close> with one
  definition per message, \<^verbatim>\<open>Begin\<close> and the loop of the transaction's thread.
\<close>

section \<open>State\<close>

text \<open>
  \<^verbatim>\<open>thread_\<close>: not joinable, or a thread of the loop \<^verbatim>\<open>HandleIncomingMessages\<close> that is
  about to test the loop condition, blocked in \<^verbatim>\<open>Receive\<close>, or has returned.
\<close>

datatype worker = No_Thread | Loop_Test | Receiving | Exited

text \<open>Which thread executes a member function: the client's own receiver thread or the
  thread of the transaction.\<close>

datatype executor = Client_Thread | Transaction_Thread

text \<open>The members of the class, and the part of the outside world it acts on: the file
  system and the datagrams its socket has sent.\<close>

record ClientTransaction =
  c_cur_file_version :: u32
  c_inter_packet_gap :: nat
  c_is_active :: bool
  c_status :: FtpStatus
  c_server_address :: sockaddr_in
  c_udp_socket :: UdpSocket
  c_thread :: worker
  c_total_packet_number :: u32
  c_packet_sequence_number :: u32
  c_new_file_stream :: ofstream
  c_new_file_path :: path
  c_new_file_version :: u32
  c_new_file_size :: u32
  c_new_file_crc32 :: u32
  c_files :: filesystem
  c_wire :: "datagram list"

text \<open>What the operating system answers during one handler: the result of \<^verbatim>\<open>sendto\<close>,
  whether the file can be opened and written, how much of it a closing flush writes, the
  temporary directory, and the bytes of an uninitialised \<^verbatim>\<open>TrftpMessage\<close> on the stack.\<close>

record env =
  env_sendto :: int
  env_open :: bool
  env_write :: bool
  env_flush :: "nat option"
  env_tmp :: path
  env_stack :: TrftpMessage

text \<open>The path appended to \<^verbatim>\<open>std::filesystem::temp_directory_path()\<close>.\<close>

definition path_append :: "path \<Rightarrow> path \<Rightarrow> path" where
  "path_append d f = (if d = [] \<or> last d = CHR ''/'' then d @ f else d @ CHR ''/'' # f)"

definition temp_file :: "path \<Rightarrow> path" where
  "temp_file tmp = path_append tmp ''trftp_temp_file''"

definition ClientTransaction_new ::
  "path \<Rightarrow> UdpSocket \<Rightarrow> u32 \<Rightarrow> filesystem \<Rightarrow> datagram list \<Rightarrow> ClientTransaction" where
  "ClientTransaction_new tmp sock file_version fs wire =
     \<lparr>c_cur_file_version = file_version,
      c_inter_packet_gap = 100,
      c_is_active = False,
      c_status = FIN,
      c_server_address = null_addr,
      c_udp_socket = sock,
      c_thread = No_Thread,
      c_total_packet_number = 0,
      c_packet_sequence_number = 0,
      c_new_file_stream = ofstream_new,
      c_new_file_path = temp_file tmp,
      c_new_file_version = 0,
      c_new_file_size = 0,
      c_new_file_crc32 = 0,
      c_files = fs,
      c_wire = wire\<rparr>"

definition client_IsAlive :: "ClientTransaction \<Rightarrow> bool" where
  "client_IsAlive ct = c_is_active ct"

section \<open>Reset\<close>

text \<open>The assignments of \<^verbatim>\<open>Reset\<close>, and the \<^verbatim>\<open>join\<close> that ends it: it returns once the
  thread has exited and leaves \<^verbatim>\<open>thread_\<close> not joinable.\<close>

definition Reset_fields :: "env \<Rightarrow> ClientTransaction \<Rightarrow> ClientTransaction" where
  "Reset_fields E ct =
     (let (stream, fs) = ofstream_close (env_flush E) (c_new_file_stream ct) (c_files ct)
      in ct\<lparr>c_server_address := null_addr,
            c_total_packet_number := 0,
            c_packet_sequence_number := 0,
            c_new_file_stream := stream,
            c_new_file_path := temp_file (env_tmp E),
            c_new_file_version := 0,
            c_new_file_size := 0,
            c_new_file_crc32 := 0,
            c_files := fs\<rparr>)"

definition join_returns :: "ClientTransaction \<Rightarrow> bool" where
  "join_returns ct \<longleftrightarrow> c_thread ct = No_Thread \<or> c_thread ct = Exited"

definition Reset :: "env \<Rightarrow> ClientTransaction \<Rightarrow> ClientTransaction" where
  "Reset E ct = (Reset_fields E ct)\<lparr>c_thread := No_Thread\<rparr>"

section \<open>Sending\<close>

text \<open>The first \<^verbatim>\<open>switch\<close> of \<^verbatim>\<open>SendMessage\<close>: the length and the bytes of the payload.\<close>

fun client_payload :: "MessageId \<Rightarrow> ClientTransaction \<Rightarrow> nat \<times> byte list" where
  "client_payload CHK ct =
     (sizeof_TrftpChk, chk_bytes \<lparr>chk_cur_file_version = c_cur_file_version ct\<rparr>)"
| "client_payload RDY ct =
     (sizeof_TrftpRdy,
      rdy_bytes \<lparr>rdy_new_file_version = c_new_file_version ct,
                 rdy_file_length = c_new_file_size ct,
                 rdy_inter_packet_gap = of_nat (c_inter_packet_gap ct)\<rparr>)"
| "client_payload DONE ct =
     (sizeof_TrftpDone,
      done_bytes \<lparr>done_new_file_version = c_new_file_version ct,
                  done_file_length = c_new_file_size ct,
                  done_crc32 = c_new_file_crc32 ct\<rparr>)"
| "client_payload RTX ct =
     (sizeof_TrftpRtx, rtx_bytes \<lparr>rtx_retransmit_psn = c_packet_sequence_number ct\<rparr>)"
| "client_payload _ ct = (0, [])"

text \<open>Its assignments: every message but \<^verbatim>\<open>RTX\<close> becomes the status, \<^verbatim>\<open>CXL\<close> ends the
  transaction.\<close>

definition client_sent_status :: "MessageId \<Rightarrow> ClientTransaction \<Rightarrow> ClientTransaction" where
  "client_sent_status i ct =
     (if i = RTX then ct
      else if i = CXL then ct\<lparr>c_status := i, c_is_active := False\<rparr>
      else ct\<lparr>c_status := i\<rparr>)"

definition client_header :: "MessageId \<Rightarrow> nat \<Rightarrow> TrftpHeader" where
  "client_header i payload_len =
     \<lparr>magic = TRFTP_MAGIC, spid = 0x0000, dpid = 0xFD00, tpn = 1, tpl = of_nat payload_len,
      xid = xid_of i, crc32 = 0, psn = 0, pl = of_nat payload_len\<rparr>"

definition client_message :: "MessageId \<Rightarrow> TrftpMessage \<Rightarrow> ClientTransaction \<Rightarrow> TrftpMessage" where
  "client_message i m ct =
     (let (payload_len, img) = client_payload i ct
      in seal (sizeof_TrftpHeader + payload_len)
           ((put_payload img m)\<lparr>header := client_header i payload_len\<rparr>))"

definition client_SendMessage ::
  "env \<Rightarrow> MessageId \<Rightarrow> ClientTransaction \<Rightarrow> ClientTransaction result" where
  "client_SendMessage E i ct =
     (if i \<noteq> CHK \<and> i \<noteq> RDY \<and> i \<noteq> RTX \<and> i \<noteq> DONE \<and> i \<noteq> CXL then Inr ct
      else
        let ct' = client_sent_status i ct;
            payload_len = fst (client_payload i ct)
        in bind_result
             (udp_Send (env_sendto E) (client_message i (env_stack E) ct)
                (sizeof_TrftpHeader + payload_len) (c_server_address ct')
                (c_udp_socket ct') (c_wire ct'))
             (\<lambda>(sent, wire). Inr (ct'\<lparr>c_wire := wire\<rparr>)))"

section \<open>Integrity\<close>

definition client_ValidateMessageIntegrity :: "TrftpMessage \<Rightarrow> nat \<Rightarrow> bool" where
  "client_ValidateMessageIntegrity msg len =
     (let crc32_saved = crc32 (header msg);
          crc32_calculated = CalculateCrc32 (message_bytes (zero_crc msg)) len 0
      in if crc32_calculated \<noteq> crc32_saved then False
         else if magic (header msg) \<noteq> TRFTP_MAGIC then False
         else if len \<noteq> sizeof_TrftpHeader + unat (pl (header msg)) then False
         else if tpn (header msg) \<le> psn (header msg) then False
         else True)"

interpretation client_check: integrity_check client_ValidateMessageIntegrity
  by unfold_locales (auto simp: client_ValidateMessageIntegrity_def Let_def)

section \<open>Receiving\<close>

text \<open>\<^verbatim>\<open>client_->OnFileReceived\<close>, as what it does to the file system; \<open>None\<close> is a null
  \<^verbatim>\<open>client_\<close>.\<close>

type_synonym on_file_received = "(path \<Rightarrow> u32 \<Rightarrow> filesystem \<Rightarrow> filesystem result) option"

definition client_on_ntf ::
  "executor \<Rightarrow> env \<Rightarrow> TrftpMessage \<Rightarrow> nat \<Rightarrow> ClientTransaction \<Rightarrow> ClientTransaction result" where
  "client_on_ntf by_thread E msg payload_len ct =
     (if payload_len \<noteq> sizeof_TrftpNtf then client_SendMessage E CXL ct
      else
        let ct = ct\<lparr>c_status := NTF, c_new_file_version := ntf_new_file_version (msg_ntf msg)\<rparr>
        in if c_thread ct \<noteq> No_Thread \<and> by_thread = Transaction_Thread then Inl Deadlock_Error
           else client_SendMessage E CHK (ct\<lparr>c_thread := Loop_Test\<rparr>))"

definition client_packets :: "u32 \<Rightarrow> u32" where
  "client_packets file_size = of_nat ((unat file_size + sizeof_payload - 1) div sizeof_payload)"

definition client_on_info ::
  "env \<Rightarrow> TrftpMessage \<Rightarrow> nat \<Rightarrow> ClientTransaction \<Rightarrow> ClientTransaction result" where
  "client_on_info E msg payload_len ct =
     (if c_status ct \<noteq> CHK then client_SendMessage E CXL ct
      else if payload_len \<noteq> sizeof_TrftpInfo then client_SendMessage E CXL ct
      else if c_new_file_version ct \<noteq> info_new_file_version (msg_info msg)
      then client_SendMessage E CXL ct
      else if info_file_length (msg_info msg) = 0 then client_SendMessage E CXL ct
      else
        let ct = ct\<lparr>c_status := INFO,
                    c_new_file_size := info_file_length (msg_info msg),
                    c_new_file_crc32 := info_crc32 (msg_info msg),
                    c_total_packet_number := client_packets (info_file_length (msg_info msg))\<rparr>;
            (stream, fs) = ofstream_open (c_new_file_path ct) (env_open E)
                             (c_new_file_stream ct) (c_files ct);
            ct = ct\<lparr>c_new_file_stream := stream, c_files := fs\<rparr>
        in if \<not> out_open stream then client_SendMessage E CXL ct
           else client_SendMessage E RDY ct)"

text \<open>The checks of a \<^verbatim>\<open>DATA\<close> packet that come before its sequence number: first, middle
  and last packet.\<close>

definition client_data_admissible :: "TrftpMessage \<Rightarrow> nat \<Rightarrow> ClientTransaction \<Rightarrow> bool" where
  "client_data_admissible msg payload_len ct =
     (if psn (header msg) = 0 then
        c_status ct = RDY \<and> payload_len = sizeof_TrftpData
      else if psn (header msg) < tpn (header msg) - 1 then
        c_status ct = DATA \<and> payload_len = sizeof_TrftpData
      else
        c_status ct = DATA \<and> payload_len = unat (c_new_file_size ct) mod sizeof_payload)"

text \<open>What happens once the last packet has been counted.\<close>

definition client_complete :: "env \<Rightarrow> ClientTransaction \<Rightarrow> ClientTransaction result" where
  "client_complete E ct =
     (let (stream, fs) = ofstream_close (env_flush E) (c_new_file_stream ct) (c_files ct);
          ct = ct\<lparr>c_new_file_stream := stream, c_files := fs\<rparr>
      in bind_result (fs_file_size (c_new_file_path ct) fs)
           (\<lambda>file_size.
              if unat (c_new_file_size ct) \<noteq> file_size then client_SendMessage E CXL ct
              else if c_new_file_crc32 ct \<noteq> CalculateFileCrc32 (c_new_file_path ct) fs
              then client_SendMessage E CXL ct
              else client_SendMessage E DONE ct))"

definition client_on_data ::
  "env \<Rightarrow> TrftpMessage \<Rightarrow> nat \<Rightarrow> ClientTransaction \<Rightarrow> ClientTransaction result" where
  "client_on_data E msg payload_len ct =
     (if \<not> client_data_admissible msg payload_len ct then client_SendMessage E CXL ct
      else if psn (header msg) \<noteq> c_packet_sequence_number ct then client_SendMessage E RTX ct
      else
        let stream = ofstream_write (take payload_len (payload msg)) (env_write E)
                       (c_new_file_stream ct);
            ct = ct\<lparr>c_new_file_stream := stream\<rparr>
        in if out_fail stream then client_SendMessage E CXL ct
           else
             let ct = ct\<lparr>c_status := DATA,
                         c_packet_sequence_number := c_packet_sequence_number ct + 1\<rparr>
             in if c_packet_sequence_number ct = c_total_packet_number ct
                then client_complete E ct
                else Inr ct)"

definition client_on_fin ::
  "on_file_received \<Rightarrow> env \<Rightarrow> nat \<Rightarrow> ClientTransaction \<Rightarrow> ClientTransaction result" where
  "client_on_fin cb E payload_len ct =
     (if c_status ct \<noteq> DONE then client_SendMessage E CXL ct
      else if payload_len \<noteq> 0 then client_SendMessage E CXL ct
      else
        let ct = ct\<lparr>c_status := FIN, c_is_active := False\<rparr>
        in case cb of
             None \<Rightarrow> Inr ct
           | Some handler \<Rightarrow>
               bind_result (handler (c_new_file_path ct) (c_new_file_version ct) (c_files ct))
                 (\<lambda>fs. Inr (ct\<lparr>c_files := fs\<rparr>)))"

definition client_on_cxl :: "env \<Rightarrow> ClientTransaction \<Rightarrow> ClientTransaction result" where
  "client_on_cxl E ct =
     (let ct =
        (if out_open (c_new_file_stream ct)
         then let (stream, fs) = ofstream_close (env_flush E) (c_new_file_stream ct) (c_files ct)
              in ct\<lparr>c_new_file_stream := stream,
                    c_files := fs_remove (c_new_file_path ct) fs\<rparr>
         else ct)
      in client_SendMessage E CXL (ct\<lparr>c_status := CXL\<rparr>))"

definition client_OnReceive ::
  "executor \<Rightarrow> on_file_received \<Rightarrow> env \<Rightarrow> TrftpMessage \<Rightarrow> nat \<Rightarrow> sockaddr_in \<Rightarrow>
   ClientTransaction \<Rightarrow> ClientTransaction result" where
  "client_OnReceive by_thread cb E msg len addr ct =
     (let ct = ct\<lparr>c_server_address := addr\<rparr>
      in if \<not> client_ValidateMessageIntegrity msg len then Inr ct
         else
           let payload_len = len - sizeof_TrftpHeader
           in case message_id (xid (header msg)) of
                NTF \<Rightarrow> client_on_ntf by_thread E msg payload_len ct
              | INFO \<Rightarrow> client_on_info E msg payload_len ct
              | DATA \<Rightarrow> client_on_data E msg payload_len ct
              | FIN \<Rightarrow> client_on_fin cb E payload_len ct
              | CXL \<Rightarrow> client_on_cxl E ct
              | _ \<Rightarrow> Inr ct)"

definition client_Begin ::
  "on_file_received \<Rightarrow> env \<Rightarrow> TrftpMessage \<Rightarrow> nat \<Rightarrow> sockaddr_in \<Rightarrow>
   ClientTransaction \<Rightarrow> ClientTransaction result" where
  "client_Begin cb E msg len addr ct =
     (if message_id (xid (header msg)) = NTF
      then client_OnReceive Client_Thread cb E msg len addr (Reset E (ct\<lparr>c_is_active := True\<rparr>))
      else Inr (ct\<lparr>c_is_active := False\<rparr>))"

section \<open>The loop of the transaction's thread\<close>

text \<open>The test of \<^verbatim>\<open>while (is_active_)\<close>, and one turn of the body with what the socket
  reports; \<open>m\<close> and \<open>a\<close> are the uninitialised locals.\<close>

definition client_loop_test :: "ClientTransaction \<Rightarrow> ClientTransaction" where
  "client_loop_test ct = ct\<lparr>c_thread := (if c_is_active ct then Receiving else Exited)\<rparr>"

definition client_loop_body ::
  "on_file_received \<Rightarrow> env \<Rightarrow> recv_event \<Rightarrow> TrftpMessage \<Rightarrow> sockaddr_in \<Rightarrow>
   ClientTransaction \<Rightarrow> ClientTransaction result" where
  "client_loop_body cb E ev m a ct =
     bind_result (udp_Receive ev m a)
       (\<lambda>(len, msg, addr).
          if len = 0
          then bind_result (client_SendMessage E CXL ct) (\<lambda>ct. Inr (ct\<lparr>c_thread := Exited\<rparr>))
          else bind_result (client_OnReceive Transaction_Thread cb E msg len addr ct)
                 (\<lambda>ct. Inr (ct\<lparr>c_thread := Loop_Test\<rparr>)))"

end
