(* ===== verification/Client_Invariant.thy ===== *)
theory Client_Invariant
  imports Client_Transaction
begin

text \<open>
  What the handlers of the client's transaction keep true. The step relation interleaves the
  client's receiver thread (which enters \<^verbatim>\<open>Begin\<close>, waits in the \<^verbatim>\<open>join\<close> of \<^verbatim>\<open>Reset\<close> and
  then handles the \<^verbatim>\<open>NTF\<close>) with the transaction's thread; a handler is one step.
\<close>

section \<open>Effects of SendMessage\<close>

lemma client_SendMessage_Inr:
  assumes "client_SendMessage E i ct = Inr ct'" "i \<in> {CHK, RDY, RTX, DONE, CXL}"
  shows "ct' = (client_sent_status i ct)
    \<lparr>c_wire := c_wire ct @ [(c_server_address ct,
       send_image (client_message i (env_stack E) ct) (32 + fst (client_payload i ct)))]\<rparr>"
  using assms
  by (auto simp: client_SendMessage_def Let_def bind_result_eq_Inr client_sent_status_def
      sizeof_defs dest!: udp_Send_Inr split: if_splits)

lemma client_SendMessage_frame:
  assumes "client_SendMessage E i ct = Inr ct'" "i \<in> {CHK, RDY, RTX, DONE, CXL}"
  shows "\<exists>w. ct' = (client_sent_status i ct)\<lparr>c_wire := w\<rparr>"
  using client_SendMessage_Inr [OF assms] by blast

lemma client_SendMessage_error:
  "client_SendMessage E i ct = Inl e \<Longrightarrow> \<exists>w. e = socket_error w"
  by (auto simp: client_SendMessage_def Let_def bind_result_eq_Inl udp_Send_def split: if_splits)

lemma client_SendMessage_CXL:
  assumes "client_SendMessage E CXL ct = Inr ct'"
  shows "c_status ct' = CXL" "\<not> c_is_active ct'" "c_thread ct' = c_thread ct"
    "c_files ct' = c_files ct" "c_new_file_stream ct' = c_new_file_stream ct"
    "c_packet_sequence_number ct' = c_packet_sequence_number ct"
  using client_SendMessage_Inr [OF assms] by (simp_all add: client_sent_status_def)

section \<open>The invariant\<close>

text \<open>Stages of a transfer: the file is being received (into a stream that has failed only
  if it could not be opened anew), or it is complete on disk.\<close>

definition client_receiving :: "ClientTransaction \<Rightarrow> bool" where
  "client_receiving ct \<longleftrightarrow>
     out_open (c_new_file_stream ct) \<and>
     c_new_file_size ct \<noteq> 0 \<and>
     c_total_packet_number ct = client_packets (c_new_file_size ct) \<and>
     (\<not> out_fail (c_new_file_stream ct) \<longrightarrow>
        out_path (c_new_file_stream ct) = c_new_file_path ct)"

definition client_file_complete :: "ClientTransaction \<Rightarrow> bool" where
  "client_file_complete ct \<longleftrightarrow>
     fs_file_size (c_new_file_path ct) (c_files ct) = Inr (unat (c_new_file_size ct)) \<and>
     CalculateFileCrc32 (c_new_file_path ct) (c_files ct) = c_new_file_crc32 ct"

definition client_inv :: "ClientTransaction \<Rightarrow> bool" where
  "client_inv ct \<longleftrightarrow>
     (c_status ct = RDY \<longrightarrow> client_receiving ct \<and>
        (\<not> out_fail (c_new_file_stream ct) \<longrightarrow> out_data (c_new_file_stream ct) = [])) \<and>
     (c_status ct = DATA \<longrightarrow> client_receiving ct \<and> 0 < c_packet_sequence_number ct \<and>
        c_packet_sequence_number ct < c_total_packet_number ct \<and> \<not> out_fail (c_new_file_stream ct)) \<and>
     (c_status ct = DONE \<longrightarrow> client_file_complete ct) \<and>
     (c_status ct \<in> {RDY, DATA, DONE} \<longrightarrow>
        c_is_active ct \<and> c_thread ct \<in> {Loop_Test, Receiving}) \<and>
     (c_thread ct = Receiving \<longrightarrow> c_is_active ct)"

lemma unat_less_32: "unat (s :: u32) < 2 ^ 32"
proof -
  have "unat s < 2 ^ LENGTH(32)" by (rule unsigned_less)
  then show ?thesis by simp
qed

lemma client_packets_pos: "s \<noteq> 0 \<Longrightarrow> 0 < client_packets s"
proof -
  assume "s \<noteq> 0"
  then have "0 < unat s" by (simp add: unat_gt_0)
  moreover have "unat s < 2 ^ 32" by (rule unat_less_32)
  ultimately have "0 < (unat s + 1407) div 1408" "(unat s + 1407) div 1408 < 2 ^ 32"
    by (simp_all add: div_greater_zero_iff)
  then show ?thesis
    by (simp add: client_packets_def sizeof_defs word_less_nat_alt unsigned_of_nat take_bit_nat_eq_self)
qed

lemma unat_client_packets: "unat (client_packets s) = (unat s + 1407) div 1408"
proof -
  have "unat s < 2 ^ 32" by (rule unat_less_32)
  then have "(unat s + 1407) div 1408 < 2 ^ 32" by simp
  then show ?thesis
    by (simp add: client_packets_def sizeof_defs unsigned_of_nat take_bit_nat_eq_self)
qed

text \<open>A cancelled or ended transaction satisfies the invariant whatever its other fields.\<close>

lemma client_inv_idle:
  "c_status ct \<notin> {RDY, DATA, DONE} \<Longrightarrow> (c_thread ct = Receiving \<longrightarrow> c_is_active ct) \<Longrightarrow> client_inv ct"
  by (simp add: client_inv_def)

lemma client_inv_address [simp]:
  "client_inv (ct\<lparr>c_server_address := a\<rparr>) = client_inv ct"
  by (simp add: client_inv_def client_receiving_def client_file_complete_def)

text \<open>The handlers run by the transaction's thread: afterwards the thread is back at the
  loop test, so only the clauses about the status matter.\<close>

definition client_handled :: "ClientTransaction \<Rightarrow> bool" where
  "client_handled ct \<longleftrightarrow> client_inv (ct\<lparr>c_thread := Loop_Test\<rparr>)"

lemma client_handled_CXL:
  "client_SendMessage E CXL ct = Inr ct' \<Longrightarrow> client_handled ct'"
  by (drule client_SendMessage_CXL(1)) (simp add: client_handled_def client_inv_def)

text \<open>The state a \<^verbatim>\<open>SendMessage\<close> leaves, field by field, without the wire.\<close>

lemma client_sent_status_simps [simp]:
  "c_status (client_sent_status CHK ct) = CHK"
  "c_status (client_sent_status RDY ct) = RDY"
  "c_status (client_sent_status DONE ct) = DONE"
  "c_status (client_sent_status CXL ct) = CXL"
  "client_sent_status RTX ct = ct"
  "c_is_active (client_sent_status CXL ct) = False"
  "i \<noteq> CXL \<Longrightarrow> c_is_active (client_sent_status i ct) = c_is_active ct"
  "c_thread (client_sent_status i ct) = c_thread ct"
  "c_new_file_stream (client_sent_status i ct) = c_new_file_stream ct"
  "c_new_file_path (client_sent_status i ct) = c_new_file_path ct"
  "c_new_file_size (client_sent_status i ct) = c_new_file_size ct"
  "c_new_file_crc32 (client_sent_status i ct) = c_new_file_crc32 ct"
  "c_new_file_version (client_sent_status i ct) = c_new_file_version ct"
  "c_total_packet_number (client_sent_status i ct) = c_total_packet_number ct"
  "c_packet_sequence_number (client_sent_status i ct) = c_packet_sequence_number ct"
  "c_files (client_sent_status i ct) = c_files ct"
  "c_server_address (client_sent_status i ct) = c_server_address ct"
  "c_udp_socket (client_sent_status i ct) = c_udp_socket ct"
  by (simp_all add: client_sent_status_def)

lemma client_on_ntf_status:
  assumes "client_on_ntf by_thread E msg n ct = Inr ct'"
  shows "c_status ct' = CXL \<and> c_thread ct' = c_thread ct \<and> \<not> c_is_active ct' \<or>
    c_status ct' = CHK \<and> c_thread ct' = Loop_Test \<and> c_is_active ct' = c_is_active ct"
  using assms
  by (auto simp: client_on_ntf_def Let_def dest!: client_SendMessage_frame split: if_splits)

text \<open>The guards of a handler: either it cancelled, or the guard was passed.\<close>

lemma if_CXL_E:
  assumes "(if b then client_SendMessage E CXL ct else r) = Inr ct'"
  obtains (cancelled) "client_SendMessage E CXL ct = Inr ct'" | (passed) "\<not> b" "r = Inr ct'"
  using assms by (cases b) auto

lemma client_handled_RDY:
  assumes "client_SendMessage E RDY ct = Inr ct'" "client_receiving ct" "c_is_active ct"
    "\<not> out_fail (c_new_file_stream ct) \<longrightarrow> out_data (c_new_file_stream ct) = []"
  shows "client_handled ct'"
  using assms(2-) client_SendMessage_frame [OF assms(1)]
  by (auto simp: client_handled_def client_inv_def client_receiving_def)

lemma client_handled_DONE:
  assumes "client_SendMessage E DONE ct = Inr ct'" "client_file_complete ct" "c_is_active ct"
  shows "client_handled ct'"
  using assms(2-) client_SendMessage_frame [OF assms(1)]
  by (auto simp: client_handled_def client_inv_def client_file_complete_def)

lemma client_handled_DATA:
  assumes "client_receiving ct" "c_is_active ct" "c_status ct = DATA"
    "0 < c_packet_sequence_number ct" "c_packet_sequence_number ct < c_total_packet_number ct"
    "\<not> out_fail (c_new_file_stream ct)"
  shows "client_handled ct"
  using assms by (simp add: client_handled_def client_inv_def client_receiving_def)

lemma client_handled_RTX:
  assumes "client_SendMessage E RTX ct = Inr ct'" "client_inv ct" "c_is_active ct"
  shows "client_handled ct'"
proof -
  obtain w where "ct' = ct\<lparr>c_wire := w\<rparr>"
    using client_SendMessage_frame [OF assms(1)] by auto
  then show ?thesis
    using assms(2,3)
    by (auto simp: client_handled_def client_inv_def client_receiving_def client_file_complete_def)
qed

lemma ofstream_open_result:
  assumes "ofstream_open p ok s fs = (s', fs')" "\<not> out_fail s'"
  shows "out_path s' = p" "out_data s' = []"
  using assms by (auto simp: ofstream_open_def split: if_splits)

text \<open>An \<^verbatim>\<open>INFO\<close> that passes its guards: the state in which \<^verbatim>\<open>RDY\<close> is sent, or the file
  could not be opened.\<close>

definition client_info_state :: "env \<Rightarrow> TrftpMessage \<Rightarrow> ClientTransaction \<Rightarrow> ClientTransaction" where
  "client_info_state E msg ct =
     (let size = info_file_length (msg_info msg);
          (stream, fs) = ofstream_open (c_new_file_path ct) (env_open E) (c_new_file_stream ct) (c_files ct)
      in ct\<lparr>c_status := INFO, c_new_file_size := size, c_new_file_crc32 := info_crc32 (msg_info msg),
            c_total_packet_number := client_packets size, c_new_file_stream := stream, c_files := fs\<rparr>)"

lemma client_on_info_cases:
  assumes "client_on_info E msg n ct = Inr ct'"
  obtains (cancelled) ct0 where "client_SendMessage E CXL ct0 = Inr ct'"
  | (ready) "c_status ct = CHK" "n = sizeof_TrftpInfo"
      "c_new_file_version ct = info_new_file_version (msg_info msg)"
      "info_file_length (msg_info msg) \<noteq> 0"
      "out_open (c_new_file_stream (client_info_state E msg ct))"
      "client_SendMessage E RDY (client_info_state E msg ct) = Inr ct'"
  using assms unfolding client_on_info_def client_info_state_def Let_def
  by (auto split: prod.splits if_splits)

lemma client_on_info_inv:
  assumes "client_on_info E msg n ct = Inr ct'" "c_is_active ct"
  shows "client_handled ct'"
  using assms(1)
proof (cases rule: client_on_info_cases)
  case (cancelled ct0)
  then show ?thesis by (rule client_handled_CXL)
next
  case ready
  obtain st fs where op: "ofstream_open (c_new_file_path ct) (env_open E) (c_new_file_stream ct) (c_files ct) = (st, fs)"
    by fastforce
  show ?thesis
    by (rule client_handled_RDY [OF ready(6)])
      (use ready assms(2) ofstream_open_result [OF op] in
        \<open>simp_all add: client_info_state_def client_receiving_def op Let_def\<close>)
qed

lemma client_complete_inv:
  assumes "client_complete E ct = Inr ct'" "c_is_active ct"
  shows "client_handled ct'"
  using assms unfolding client_complete_def Let_def
  by (auto elim!: if_CXL_E split: prod.splits simp: bind_result_eq_Inr client_file_complete_def
      intro: client_handled_CXL client_handled_DONE)

lemma word_less_Suc:
  fixes a b :: u32
  assumes "a < b" "a + 1 \<noteq> b"
  shows "0 < a + 1" "a + 1 < b"
  using assms by unat_arith+

text \<open>The four ways a \<^verbatim>\<open>DATA\<close> packet is handled.\<close>

definition client_data_state :: "env \<Rightarrow> TrftpMessage \<Rightarrow> nat \<Rightarrow> ClientTransaction \<Rightarrow> ClientTransaction" where
  "client_data_state E msg n ct =
     ct\<lparr>c_new_file_stream :=
          ofstream_write (take n (payload msg)) (env_write E) (c_new_file_stream ct),
        c_status := DATA,
        c_packet_sequence_number := c_packet_sequence_number ct + 1\<rparr>"

lemma client_on_data_cases:
  assumes "client_on_data E msg n ct = Inr ct'"
  obtains (cancelled) ct0 where "client_SendMessage E CXL ct0 = Inr ct'"
  | (retransmit) "client_data_admissible msg n ct"
      "psn (header msg) \<noteq> c_packet_sequence_number ct" "client_SendMessage E RTX ct = Inr ct'"
  | (stored) "client_data_admissible msg n ct"
      "psn (header msg) = c_packet_sequence_number ct"
      "\<not> out_fail (c_new_file_stream (client_data_state E msg n ct))"
      "c_packet_sequence_number ct + 1 \<noteq> c_total_packet_number ct"
      "ct' = client_data_state E msg n ct"
  | (last) "client_data_admissible msg n ct"
      "psn (header msg) = c_packet_sequence_number ct"
      "\<not> out_fail (c_new_file_stream (client_data_state E msg n ct))"
      "c_packet_sequence_number ct + 1 = c_total_packet_number ct"
      "client_complete E (client_data_state E msg n ct) = Inr ct'"
  using assms unfolding client_on_data_def client_data_state_def Let_def
  by (auto split: if_splits)

lemma ofstream_write_result:
  assumes "\<not> out_fail (ofstream_write bs ok s)"
  shows "ofstream_write bs ok s = s\<lparr>out_data := out_data s @ bs\<rparr>" "\<not> out_fail s" "out_open s"
  using assms by (auto simp: ofstream_write_def split: if_splits)

lemma client_data_admissible_receiving:
  assumes "client_data_admissible msg n ct" "psn (header msg) = c_packet_sequence_number ct"
    "client_inv ct"
  shows "client_receiving ct" "c_packet_sequence_number ct < c_total_packet_number ct"
  using assms client_packets_pos [of "c_new_file_size ct"]
  by (auto simp: client_data_admissible_def client_inv_def client_receiving_def split: if_splits)

lemma client_on_data_inv:
  assumes "client_on_data E msg n ct = Inr ct'" "client_inv ct" "c_is_active ct"
  shows "client_handled ct'"
  using assms(1)
proof (cases rule: client_on_data_cases)
  case (cancelled ct0)
  then show ?thesis by (rule client_handled_CXL)
next
  case retransmit
  show ?thesis by (rule client_handled_RTX [OF retransmit(3) assms(2,3)])
next
  case stored
  note recv = client_data_admissible_receiving [OF stored(1,2) assms(2)]
  note written = stored(3) [unfolded client_data_state_def, simplified, THEN ofstream_write_result(1)]
    stored(3) [unfolded client_data_state_def, simplified, THEN ofstream_write_result(2)]
  show ?thesis unfolding stored(5)
    by (rule client_handled_DATA)
      (use recv written stored(4) word_less_Suc [OF recv(2) stored(4)] assms(3) in
        \<open>simp_all add: client_data_state_def client_receiving_def\<close>)
next
  case last
  show ?thesis
    by (rule client_complete_inv [OF last(5)]) (simp add: client_data_state_def assms(3))
qed

lemma client_on_fin_inv:
  assumes "client_on_fin cb E n ct = Inr ct'"
  shows "client_handled ct'"
  using assms unfolding client_on_fin_def Let_def
  by (auto elim!: if_CXL_E split: option.splits simp: bind_result_eq_Inr client_handled_CXL)
    (auto simp: client_handled_def client_inv_def)

lemma client_on_cxl_status:
  assumes "client_on_cxl E ct = Inr ct'"
  shows "c_status ct' = CXL" "\<not> c_is_active ct'"
  using assms unfolding client_on_cxl_def Let_def by (blast dest: client_SendMessage_CXL)+

lemma client_on_cxl_inv:
  "client_on_cxl E ct = Inr ct' \<Longrightarrow> client_handled ct'"
  by (drule client_on_cxl_status(1)) (simp add: client_handled_def client_inv_def)

text \<open>Every handler of the transaction's thread keeps the invariant.\<close>

lemma client_OnReceive_inv:
  assumes "client_OnReceive Transaction_Thread cb E msg len addr ct = Inr ct'"
    and "client_inv ct" "c_is_active ct"
  shows "client_handled ct'"
proof -
  let ?ct = "ct\<lparr>c_server_address := addr\<rparr>"
  have inv: "client_inv ?ct" "c_is_active ?ct"
    using assms by simp_all
  have same: "client_handled ?ct"
    using assms(2,3)
    by (auto simp: client_handled_def client_inv_def client_receiving_def client_file_complete_def)
  have ntf: "client_handled ct'" if "client_on_ntf Transaction_Thread E msg n ?ct = Inr ct'" for n
    using client_on_ntf_status [OF that] by (auto simp: client_handled_def client_inv_def)
  show ?thesis
    using assms(1) inv same ntf unfolding client_OnReceive_def Let_def
    by (auto split: if_splits MessageId.splits
        intro: client_on_info_inv client_on_data_inv client_on_fin_inv client_on_cxl_inv)
qed

section \<open>The two threads interleaved\<close>

text \<open>
  A state is the transaction together with the call of \<^verbatim>\<open>Begin\<close> that waits in the
  \<^verbatim>\<open>join\<close> of \<^verbatim>\<open>Reset\<close>, if there is one. A handler that throws ends the process
  (\<^verbatim>\<open>std::terminate\<close>) and has no successor.
\<close>

type_synonym client_sys = "ClientTransaction \<times> (TrftpMessage \<times> nat \<times> sockaddr_in) option"

definition client_init :: "client_sys \<Rightarrow> bool" where
  "client_init s \<longleftrightarrow> (\<exists>tmp sock v fs w. s = (ClientTransaction_new tmp sock v fs w, None))"

inductive client_step :: "on_file_received \<Rightarrow> client_sys \<Rightarrow> client_sys \<Rightarrow> bool"
  for cb :: on_file_received where
  begin_other:
    "\<not> client_IsAlive ct \<Longrightarrow> message_id (xid (header msg)) \<noteq> NTF \<Longrightarrow>
     client_Begin cb E msg len addr ct = Inr ct' \<Longrightarrow> client_step cb (ct, None) (ct', None)"
| begin_enter:
    "\<not> client_IsAlive ct \<Longrightarrow> message_id (xid (header msg)) = NTF \<Longrightarrow>
     client_step cb (ct, None) (Reset_fields E (ct\<lparr>c_is_active := True\<rparr>), Some (msg, len, addr))"
| begin_joined:
    "join_returns ct \<Longrightarrow>
     client_OnReceive Client_Thread cb E msg len addr (ct\<lparr>c_thread := No_Thread\<rparr>) = Inr ct' \<Longrightarrow>
     client_step cb (ct, Some (msg, len, addr)) (ct', None)"
| loop_test:
    "c_thread ct = Loop_Test \<Longrightarrow> client_step cb (ct, pend) (client_loop_test ct, pend)"
| loop_body:
    "c_thread ct = Receiving \<Longrightarrow> client_loop_body cb E ev m a ct = Inr ct' \<Longrightarrow>
     client_step cb (ct, pend) (ct', pend)"

inductive_cases client_stepE [elim]: "client_step cb s t"

inductive_simps client_step_pending: "client_step cb (ct, Some p) (ct', None)"

definition client_sys_inv :: "client_sys \<Rightarrow> bool" where
  "client_sys_inv s \<longleftrightarrow> client_inv (fst s) \<and>
     (\<forall>msg len addr. snd s = Some (msg, len, addr) \<longrightarrow> message_id (xid (header msg)) = NTF)"

text \<open>When nothing interleaves, entering and joining is \<^verbatim>\<open>Begin\<close>.\<close>

lemma client_Begin_split:
  "message_id (xid (header msg)) = NTF \<Longrightarrow>
   client_Begin cb E msg len addr ct =
     client_OnReceive Client_Thread cb E msg len addr
       ((Reset_fields E (ct\<lparr>c_is_active := True\<rparr>))\<lparr>c_thread := No_Thread\<rparr>)"
  by (simp add: client_Begin_def Reset_def)

lemma Reset_fields_frame [simp]:
  "c_status (Reset_fields E ct) = c_status ct"
  "c_thread (Reset_fields E ct) = c_thread ct"
  "c_is_active (Reset_fields E ct) = c_is_active ct"
  by (simp_all add: Reset_fields_def split: prod.splits)

lemma client_inv_not_alive:
  "client_inv ct \<Longrightarrow> \<not> client_IsAlive ct \<Longrightarrow> c_status ct \<notin> {RDY, DATA, DONE} \<and> c_thread ct \<noteq> Receiving"
  by (auto simp: client_inv_def client_IsAlive_def)

lemma client_inv_joined:
  assumes "client_inv ct" "join_returns ct"
  shows "c_status ct \<notin> {RDY, DATA, DONE}"
proof
  assume "c_status ct \<in> {RDY, DATA, DONE}"
  with assms(1) have "c_thread ct \<in> {Loop_Test, Receiving}"
    unfolding client_inv_def by blast
  with assms(2) show False by (auto simp: join_returns_def)
qed

lemma client_OnReceive_joined:
  assumes "client_OnReceive Client_Thread cb E msg len addr ct = Inr ct'"
    and "message_id (xid (header msg)) = NTF"
    and "c_status ct \<notin> {RDY, DATA, DONE}" "c_thread ct = No_Thread"
  shows "client_inv ct'"
proof -
  let ?ct = "ct\<lparr>c_server_address := addr\<rparr>"
  have "client_inv ct'" if "client_on_ntf Client_Thread E msg n ?ct = Inr ct'" for n
    using client_on_ntf_status [OF that] assms(4) by (auto simp: client_inv_def)
  moreover have "client_inv ?ct"
    using assms(3,4) by (simp add: client_inv_def)
  ultimately show ?thesis
    using assms(1,2) by (auto simp: client_OnReceive_def Let_def split: if_splits)
qed

lemma client_loop_body_inv:
  assumes "client_loop_body cb E ev m a ct = Inr ct'" "client_inv ct" "c_thread ct = Receiving"
  shows "client_inv ct'"
proof -
  have act: "c_is_active ct"
    using assms(2,3) by (simp add: client_inv_def)
  have timeout: "client_inv (ct1\<lparr>c_thread := Exited\<rparr>)" if "client_SendMessage E CXL ct = Inr ct1" for ct1
    using client_SendMessage_CXL(1) [OF that] by (simp add: client_inv_def)
  show ?thesis
    using assms(1) act timeout client_OnReceive_inv [OF _ assms(2) act]
    by (auto simp: client_loop_body_def bind_result_eq_Inr client_handled_def split: if_splits)
qed

lemma client_loop_test_inv:
  "client_inv ct \<Longrightarrow> c_thread ct = Loop_Test \<Longrightarrow> client_inv (client_loop_test ct)"
  by (auto simp: client_inv_def client_loop_test_def client_receiving_def client_file_complete_def)

interpretation client_sys: invariant_system client_init "client_step cb" client_sys_inv for cb
proof unfold_locales
  show "client_sys_inv s" if "client_init s" for s
    using that by (auto simp: client_init_def client_sys_inv_def client_inv_def ClientTransaction_new_def)
  show "client_sys_inv t" if inv: "client_sys_inv s" and step: "client_step cb s t" for s t
    using step
  proof cases
    case (begin_other ct msg E len addr ct')
    then have "client_inv ct" "ct' = ct\<lparr>c_is_active := False\<rparr>"
      using inv by (simp_all add: client_sys_inv_def client_Begin_def)
    then have "client_inv ct'"
      using client_inv_not_alive [OF _ begin_other(3)] by (intro client_inv_idle) simp_all
    then show ?thesis using begin_other by (simp add: client_sys_inv_def)
  next
    case (begin_enter ct msg E len addr)
    then have "client_inv ct"
      using inv by (simp add: client_sys_inv_def)
    then have "client_inv (Reset_fields E (ct\<lparr>c_is_active := True\<rparr>))"
      using client_inv_not_alive [OF _ begin_enter(3)] by (intro client_inv_idle) simp_all
    then show ?thesis
      unfolding client_sys_inv_def begin_enter(2) fst_conv snd_conv using begin_enter(4) by blast
  next
    case (begin_joined ct E msg len addr ct')
    then have "client_inv ct" "message_id (xid (header msg)) = NTF"
      using inv by (simp_all add: client_sys_inv_def)
    moreover from this have "c_status ct \<notin> {RDY, DATA, DONE}"
      using begin_joined(3) by (intro client_inv_joined)
    ultimately have "client_inv ct'"
      by (intro client_OnReceive_joined [OF begin_joined(4)]) simp_all
    then show ?thesis using begin_joined by (simp add: client_sys_inv_def)
  next
    case (loop_test ct pend)
    then show ?thesis
      using inv client_loop_test_inv [of ct] by (simp add: client_sys_inv_def)
  next
    case (loop_body ct E ev m a ct' pend)
    then show ?thesis
      using inv client_loop_body_inv [OF loop_body(4)] by (simp add: client_sys_inv_def)
  qed
qed

section \<open>Delivery\<close>

text \<open>The callback is reached by one path through \<^verbatim>\<open>OnReceive\<close> only.\<close>

lemma client_delivery_path:
  assumes "client_OnReceive by_thread (Some h) E msg len addr ct \<noteq>
           client_OnReceive by_thread None E msg len addr ct"
  shows "client_ValidateMessageIntegrity msg len" "message_id (xid (header msg)) = FIN"
    "len = sizeof_TrftpHeader" "c_status ct = DONE"
    "client_OnReceive by_thread (Some h) E msg len addr ct =
       bind_result (h (c_new_file_path ct) (c_new_file_version ct) (c_files ct))
         (\<lambda>fs. Inr (ct\<lparr>c_server_address := addr, c_status := FIN, c_is_active := False,
                      c_files := fs\<rparr>))"
proof -
  from assms have 1: "client_ValidateMessageIntegrity msg len" "message_id (xid (header msg)) = FIN"
    by (auto simp: client_OnReceive_def Let_def split: if_splits MessageId.splits)
  then show "client_ValidateMessageIntegrity msg len" "message_id (xid (header msg)) = FIN" .
  have "sizeof_TrftpHeader \<le> len"
    using client_check.validate_len [OF 1(1)] by (simp add: sizeof_defs)
  then show 2: "len = sizeof_TrftpHeader" "c_status ct = DONE"
    using assms 1 by (auto simp: client_OnReceive_def client_on_fin_def Let_def split: if_splits)
  show "client_OnReceive by_thread (Some h) E msg len addr ct =
       bind_result (h (c_new_file_path ct) (c_new_file_version ct) (c_files ct))
         (\<lambda>fs. Inr (ct\<lparr>c_server_address := addr, c_status := FIN, c_is_active := False,
                      c_files := fs\<rparr>))"
    using 1 2 by (simp add: client_OnReceive_def client_on_fin_def Let_def)
qed

end
