(* ===== verification/Exchange.thy ===== *)
theory Exchange
  imports Reception
begin

text \<open>
  One message at a time across the network: what a peer reads from a control message the
  other peer sent, and what its handler does with it in the state the protocol expects.
\<close>

section \<open>Control messages across the wire\<close>

text \<open>The part of a received payload that was sent.\<close>

lemma received_payload:
  assumes "wf_message m" "wf_message j" "n \<le> 1408" "take n (payload m) = img" "length img = n"
  shows "\<exists>rest. payload (recv_into j (send_image m (32 + n))) = img @ rest"
  by (rule payload_view [OF _ assms(5)])
    (use recv_send_image(2) [of m j "32 + n"] assms(1-4) in simp)

text \<open>The server's \<^verbatim>\<open>NTF\<close>, \<^verbatim>\<open>INFO\<close>, \<^verbatim>\<open>FIN\<close> and \<^verbatim>\<open>CXL\<close>.\<close>

definition server_image :: "MessageId \<Rightarrow> TrftpMessage \<Rightarrow> ServerTransaction \<Rightarrow> byte list" where
  "server_image i m st = send_image (server_control i m st) (32 + fst (server_payload i st))"

lemma wf_server_control: "wf_message m \<Longrightarrow> wf_message (server_control i m st)"
  using server_payload_length [of i st] by (simp add: server_control_eq)

lemma recv_len_server_image:
  "wf_message m \<Longrightarrow> recv_len (server_image i m st) = 32 + fst (server_payload i st)"
  unfolding server_image_def
  by (rule recv_len_send_image) (use wf_server_control server_payload_length [of i st] in simp_all)

lemma server_image_received:
  assumes "wf_message m" "wf_message j"
  shows "client_ValidateMessageIntegrity (recv_into j (server_image i m st)) (32 + fst (server_payload i st))"
    and "listed i \<Longrightarrow> message_id (xid (header (recv_into j (server_image i m st)))) = i"
    and "\<exists>rest. payload (recv_into j (server_image i m st)) = snd (server_payload i st) @ rest"
proof -
  note l = server_payload_length [of i st]
  show "client_ValidateMessageIntegrity (recv_into j (server_image i m st)) (32 + fst (server_payload i st))"
    unfolding server_image_def by (rule server_control_accepted [OF assms])
  have "header (recv_into j (server_image i m st)) = header (server_control i m st)"
    unfolding server_image_def
    by (rule recv_send_image(1)) (use assms wf_server_control l in simp_all)
  then show "listed i \<Longrightarrow> message_id (xid (header (recv_into j (server_image i m st)))) = i"
    by (simp add: server_control_eq)
  show "\<exists>rest. payload (recv_into j (server_image i m st)) = snd (server_payload i st) @ rest"
    unfolding server_image_def
    by (rule received_payload) (use assms wf_server_control l in \<open>simp_all add: server_control_eq wire_simps\<close>)
qed

lemma msg_ntf_received:
  assumes "wf_message m" "wf_message j"
  shows "msg_ntf (recv_into j (server_image NTF m st)) = \<lparr>ntf_new_file_version = s_new_file_version st\<rparr>"
  using server_image_received(3) [OF assms, of NTF st] by (auto simp: msg_ntf_def ntf_codec.dec_enc)

lemma msg_info_received:
  assumes "wf_message m" "wf_message j"
  shows "msg_info (recv_into j (server_image INFO m st)) =
    \<lparr>info_new_file_version = s_new_file_version st, info_file_length = s_new_file_size st,
     info_crc32 = s_new_file_crc32 st\<rparr>"
  using server_image_received(3) [OF assms, of INFO st] by (auto simp: msg_info_def info_codec.dec_enc)

text \<open>The client's messages.\<close>

definition client_image :: "MessageId \<Rightarrow> TrftpMessage \<Rightarrow> ClientTransaction \<Rightarrow> byte list" where
  "client_image i m ct = send_image (client_message i m ct) (32 + fst (client_payload i ct))"

lemma client_payload_length:
  "length (snd (client_payload i ct)) = fst (client_payload i ct)" "fst (client_payload i ct) \<le> 12"
  by (cases i; simp add: sizeof_payload_defs chk_codec.length_enc rdy_codec.length_enc
      done_codec.length_enc rtx_codec.length_enc)+

lemma client_message_eq:
  "client_message i m ct = seal (32 + fst (client_payload i ct))
     ((put_payload (snd (client_payload i ct)) m)
        \<lparr>header := client_header i (fst (client_payload i ct))\<rparr>)"
  by (simp add: client_message_def sizeof_defs split: prod.splits)

lemma wf_client_message: "wf_message m \<Longrightarrow> wf_message (client_message i m ct)"
  using client_payload_length [of i ct] by (simp add: client_message_eq)

lemma recv_len_client_image:
  "wf_message m \<Longrightarrow> recv_len (client_image i m ct) = 32 + fst (client_payload i ct)"
  unfolding client_image_def
  by (rule recv_len_send_image) (use wf_client_message client_payload_length [of i ct] in simp_all)

lemma client_image_received:
  assumes "wf_message m" "wf_message j"
  shows "server_ValidateMessageIntegrity (recv_into j (client_image i m ct)) (32 + fst (client_payload i ct))"
    and "listed i \<Longrightarrow> message_id (xid (header (recv_into j (client_image i m ct)))) = i"
    and "\<exists>rest. payload (recv_into j (client_image i m ct)) = snd (client_payload i ct) @ rest"
proof -
  note l = client_payload_length [of i ct]
  have u: "unat (of_nat (fst (client_payload i ct)) :: u32) = fst (client_payload i ct)"
    using l(2) by (simp add: unsigned_of_nat take_bit_nat_eq_self)
  let ?m = "(put_payload (snd (client_payload i ct)) m)
        \<lparr>header := client_header i (fst (client_payload i ct))\<rparr>"
  show "server_ValidateMessageIntegrity (recv_into j (client_image i m ct)) (32 + fst (client_payload i ct))"
    unfolding client_image_def client_message_eq
    by (rule server_check.validate_sealed) (use assms l u in \<open>simp_all add: client_header_def\<close>)
  have "header (recv_into j (client_image i m ct)) = header (client_message i m ct)"
    unfolding client_image_def
    by (rule recv_send_image(1)) (use assms wf_client_message l in simp_all)
  then show "listed i \<Longrightarrow> message_id (xid (header (recv_into j (client_image i m ct)))) = i"
    by (simp add: client_message_eq client_header_def)
  show "\<exists>rest. payload (recv_into j (client_image i m ct)) = snd (client_payload i ct) @ rest"
    unfolding client_image_def
    by (rule received_payload) (use assms wf_client_message l in \<open>simp_all add: client_message_eq wire_simps\<close>)
qed

lemma msg_rdy_received:
  assumes "wf_message m" "wf_message j"
  shows "msg_rdy (recv_into j (client_image RDY m ct)) =
    \<lparr>rdy_new_file_version = c_new_file_version ct, rdy_file_length = c_new_file_size ct,
     rdy_inter_packet_gap = of_nat (c_inter_packet_gap ct)\<rparr>"
  using client_image_received(3) [OF assms, of RDY ct] by (auto simp: msg_rdy_def rdy_codec.dec_enc)

lemma msg_done_received:
  assumes "wf_message m" "wf_message j"
  shows "msg_done (recv_into j (client_image DONE m ct)) =
    \<lparr>done_new_file_version = c_new_file_version ct, done_file_length = c_new_file_size ct,
     done_crc32 = c_new_file_crc32 ct\<rparr>"
  using client_image_received(3) [OF assms, of DONE ct] by (auto simp: msg_done_def done_codec.dec_enc)

lemma msg_rtx_received:
  assumes "wf_message m" "wf_message j"
  shows "msg_rtx (recv_into j (client_image RTX m ct)) = \<lparr>rtx_retransmit_psn = c_packet_sequence_number ct\<rparr>"
  using client_image_received(3) [OF assms, of RTX ct] by (auto simp: msg_rtx_def rtx_codec.dec_enc)

section \<open>The server's handlers\<close>

text \<open>What \<^verbatim>\<open>OnReceive\<close> makes of a message of the client, in the state it was sent for.\<close>

lemma server_gets_CHK:
  assumes "wf_message m" "wf_message j" "s_status st = NTF"
  shows "\<exists>v. server_OnReceive (recv_into j (client_image CHK m ct)) (recv_len (client_image CHK m ct)) addr st =
    st\<lparr>s_client_address := addr, s_cur_file_version := v, s_status := CHK\<rparr>"
  using client_image_received(1,2) [OF assms(1,2), of CHK ct] assms(3)
  by (auto simp: server_OnReceive_def recv_len_client_image [OF assms(1)] ValidateMessage_chk_def
      sizeof_payload_defs sizeof_defs)

lemma server_gets_RDY:
  assumes "wf_message m" "wf_message j" "s_status st = INFO"
  shows "\<exists>g. server_OnReceive (recv_into j (client_image RDY m ct)) (recv_len (client_image RDY m ct)) addr st =
    st\<lparr>s_client_address := addr, s_inter_packet_gap := g, s_status := RDY\<rparr>"
  using client_image_received(1,2) [OF assms(1,2), of RDY ct] assms(3)
  by (auto simp: server_OnReceive_def recv_len_client_image [OF assms(1)] ValidateMessage_rdy_def
      sizeof_payload_defs sizeof_defs)

lemma server_gets_DONE:
  assumes "wf_message m" "wf_message j" "s_status st = DATA"
    and "c_new_file_version ct = s_new_file_version st" "c_new_file_size ct = s_new_file_size st"
    and "c_new_file_crc32 ct = s_new_file_crc32 st"
  shows "server_OnReceive (recv_into j (client_image DONE m ct)) (recv_len (client_image DONE m ct)) addr st =
    (if s_packet_sequence_number st = s_total_packet_number st
     then st\<lparr>s_client_address := addr, s_status := DONE\<rparr>
     else st\<lparr>s_client_address := addr\<rparr>)"
  using client_image_received(1,2) [OF assms(1,2), of DONE ct] assms(3-)
  by (simp add: server_OnReceive_def recv_len_client_image [OF assms(1)] ValidateMessage_done_def
      sizeof_payload_defs sizeof_defs msg_done_received [OF assms(1,2)] server_expected_done_def)

lemma server_gets_RTX:
  assumes "wf_message m" "wf_message j" "s_status st = DATA"
    and "c_packet_sequence_number ct \<le> s_packet_sequence_number st"
  shows "server_OnReceive (recv_into j (client_image RTX m ct)) (recv_len (client_image RTX m ct)) addr st =
    st\<lparr>s_client_address := addr, s_retransmit_psn := c_packet_sequence_number ct\<rparr>"
  using client_image_received(1,2) [OF assms(1,2), of RTX ct] assms(3-)
  by (simp add: server_OnReceive_def recv_len_client_image [OF assms(1)] ValidateMessage_rtx_def
      sizeof_payload_defs sizeof_defs msg_rtx_received [OF assms(1,2)] not_less)

lemma server_gets_CXL:
  assumes "wf_message m" "wf_message j"
  shows "server_OnReceive (recv_into j (client_image CXL m ct)) (recv_len (client_image CXL m ct)) addr st =
    st\<lparr>s_client_address := addr, s_status := CXL\<rparr>"
  using client_image_received(1,2) [OF assms(1,2), of CXL ct]
  by (simp add: server_OnReceive_def recv_len_client_image [OF assms(1)] ValidateMessage_cxl_def
      sizeof_payload_defs sizeof_defs)

end
