(* ===== verification/Client.thy ===== *)
theory Client
  imports Client_Invariant
begin

text \<open>
  \<^verbatim>\<open>src/client/client.cpp\<close>: the object that owns the public socket, the file handler and
  the one transaction. Its thread receives the first datagram of a transfer and hands it to
  \<^verbatim>\<open>ClientTransaction::Begin\<close>; everything after that arrives on the transaction's socket.
\<close>

section \<open>State\<close>

text \<open>The position of \<^verbatim>\<open>Client::thread_\<close>: about to test \<^verbatim>\<open>is_running_\<close>, blocked in
  \<^verbatim>\<open>Receive\<close>, blocked in the \<^verbatim>\<open>join\<close> of \<^verbatim>\<open>Reset\<close> called by \<^verbatim>\<open>Begin\<close> (with the arguments of
  the call), or returned.\<close>

datatype main_pc = Main_Test | Main_Receiving | Main_Joining TrftpMessage nat sockaddr_in | Main_Returned

type_synonym file_handler = "path \<Rightarrow> u32 \<Rightarrow> filesystem \<Rightarrow> filesystem result"

record Client =
  cl_udp_socket :: UdpSocket
  cl_is_running :: bool
  cl_thread :: main_pc
  cl_file_handler :: "file_handler option"
  cl_transaction :: ClientTransaction

definition Client_new ::
  "path \<Rightarrow> UdpSocket \<Rightarrow> UdpSocket \<Rightarrow> u32 \<Rightarrow> filesystem \<Rightarrow> datagram list \<Rightarrow> Client" where
  "Client_new tmp sock transaction_sock cur_version fs wire =
     \<lparr>cl_udp_socket = sock,
      cl_is_running = True,
      cl_thread = Main_Test,
      cl_file_handler = None,
      cl_transaction = ClientTransaction_new tmp transaction_sock cur_version fs wire\<rparr>"

text \<open>The first statement of the destructor, and when its \<^verbatim>\<open>join\<close> returns.\<close>

definition Client_stop :: "Client \<Rightarrow> Client" where
  "Client_stop cl = cl\<lparr>cl_is_running := False\<rparr>"

definition Client_delete_returns :: "Client \<Rightarrow> bool" where
  "Client_delete_returns cl \<longleftrightarrow> cl_thread cl = Main_Returned"

definition AttachFileHandler :: "file_handler \<Rightarrow> Client \<Rightarrow> Client" where
  "AttachFileHandler callback cl = cl\<lparr>cl_file_handler := Some callback\<rparr>"

definition DetachFileHandler :: "Client \<Rightarrow> Client" where
  "DetachFileHandler cl = cl\<lparr>cl_file_handler := None\<rparr>"

definition OnFileReceived :: "Client \<Rightarrow> path \<Rightarrow> u32 \<Rightarrow> filesystem \<Rightarrow> filesystem result" where
  "OnFileReceived cl file_path version fs =
     (case cl_file_handler cl of
        Some handler \<Rightarrow> handler file_path version fs
      | None \<Rightarrow> Inr fs)"

section \<open>The receiver thread\<close>

definition client_main_test :: "Client \<Rightarrow> Client" where
  "client_main_test cl = cl\<lparr>cl_thread := (if cl_is_running cl then Main_Receiving else Main_Returned)\<rparr>"

text \<open>The body of the loop up to the \<^verbatim>\<open>join\<close> inside \<^verbatim>\<open>Begin\<close> when the datagram is an
  \<^verbatim>\<open>NTF\<close>; \<open>m\<close> and \<open>a\<close> are the uninitialised locals.\<close>

definition client_main_body ::
  "env \<Rightarrow> recv_event \<Rightarrow> TrftpMessage \<Rightarrow> sockaddr_in \<Rightarrow> Client \<Rightarrow> Client result" where
  "client_main_body E ev m a cl =
     bind_result (udp_Receive ev m a)
       (\<lambda>(len, msg, addr).
          if len = 0 then Inr (cl\<lparr>cl_thread := Main_Test\<rparr>)
          else if client_IsAlive (cl_transaction cl) then Inr (cl\<lparr>cl_thread := Main_Test\<rparr>)
          else if message_id (xid (header msg)) = NTF
          then Inr (cl\<lparr>cl_transaction := Reset_fields E ((cl_transaction cl)\<lparr>c_is_active := True\<rparr>),
                       cl_thread := Main_Joining msg len addr\<rparr>)
          else Inr (cl\<lparr>cl_transaction := (cl_transaction cl)\<lparr>c_is_active := False\<rparr>,
                       cl_thread := Main_Test\<rparr>))"

text \<open>The rest of \<^verbatim>\<open>Begin\<close>, once the old thread has been joined.\<close>

definition client_main_joined ::
  "env \<Rightarrow> TrftpMessage \<Rightarrow> nat \<Rightarrow> sockaddr_in \<Rightarrow> Client \<Rightarrow> Client result" where
  "client_main_joined E msg len addr cl =
     bind_result
       (client_OnReceive Client_Thread (Some (OnFileReceived cl)) E msg len addr
          ((cl_transaction cl)\<lparr>c_thread := No_Thread\<rparr>))
       (\<lambda>ct. Inr (cl\<lparr>cl_transaction := ct, cl_thread := Main_Test\<rparr>))"

text \<open>Body and rest, when nothing happens in between, are the loop's call of \<^verbatim>\<open>Begin\<close>.\<close>

lemma client_main_Begin:
  assumes "udp_Receive ev m a = Inr (len, msg, addr)" "len \<noteq> 0"
    and "\<not> client_IsAlive (cl_transaction cl)"
  shows "bind_result (client_main_body E ev m a cl)
      (\<lambda>cl'. case cl_thread cl' of
         Main_Joining msg len addr \<Rightarrow> client_main_joined E msg len addr cl'
       | _ \<Rightarrow> Inr cl') =
    bind_result (client_Begin (Some (OnFileReceived cl)) E msg len addr (cl_transaction cl))
      (\<lambda>ct. Inr (cl\<lparr>cl_transaction := ct, cl_thread := Main_Test\<rparr>))"
proof -
  have cb: "OnFileReceived (cl\<lparr>cl_transaction := t, cl_thread := p\<rparr>) = OnFileReceived cl" for t p
    by (simp add: OnFileReceived_def fun_eq_iff split: option.splits)
  show ?thesis
    using assms by (simp add: client_main_body_def client_main_joined_def client_Begin_def Reset_def cb)
qed

section \<open>The whole client\<close>

text \<open>The two threads and the caller of the public functions, interleaved. A step that
  throws ends the process and has no successor.\<close>

inductive main_step :: "Client \<Rightarrow> Client \<Rightarrow> bool" where
  main_test: "cl_thread cl = Main_Test \<Longrightarrow> main_step cl (client_main_test cl)"
| main_body:
    "cl_thread cl = Main_Receiving \<Longrightarrow> client_main_body E ev m a cl = Inr cl' \<Longrightarrow> main_step cl cl'"
| main_joined:
    "cl_thread cl = Main_Joining msg len addr \<Longrightarrow> join_returns (cl_transaction cl) \<Longrightarrow>
     client_main_joined E msg len addr cl = Inr cl' \<Longrightarrow> main_step cl cl'"
| tran_test:
    "c_thread (cl_transaction cl) = Loop_Test \<Longrightarrow>
     main_step cl (cl\<lparr>cl_transaction := client_loop_test (cl_transaction cl)\<rparr>)"
| tran_body:
    "c_thread (cl_transaction cl) = Receiving \<Longrightarrow>
     client_loop_body (Some (OnFileReceived cl)) E ev m a (cl_transaction cl) = Inr ct \<Longrightarrow>
     main_step cl (cl\<lparr>cl_transaction := ct\<rparr>)"
| attach: "main_step cl (AttachFileHandler h cl)"
| detach: "main_step cl (DetachFileHandler cl)"
| stop: "main_step cl (Client_stop cl)"

definition main_init :: "Client \<Rightarrow> bool" where
  "main_init cl \<longleftrightarrow> (\<exists>tmp sock tsock v fs w. cl = Client_new tmp sock tsock v fs w)"

text \<open>What the threads of the client do by themselves.\<close>

definition thread_step :: "Client \<Rightarrow> Client \<Rightarrow> bool" where
  "thread_step cl cl' \<longleftrightarrow>
     main_step cl cl' \<and> cl_file_handler cl' = cl_file_handler cl \<and> cl_is_running cl' = cl_is_running cl"

text \<open>The states a program that uses a client can reach are closed under these steps.\<close>

locale client_threads =
  fixes R :: "Client \<Rightarrow> bool"
  assumes threads_go_on: "R cl \<Longrightarrow> thread_step cl cl' \<Longrightarrow> R cl'"
begin

lemma thread_stepI:
  "R cl \<Longrightarrow> main_step cl cl' \<Longrightarrow> cl_file_handler cl' = cl_file_handler cl \<Longrightarrow>
   cl_is_running cl' = cl_is_running cl \<Longrightarrow> R cl'"
  by (rule threads_go_on) (simp_all add: thread_step_def)

end

interpretation client_alone: client_threads "reachable main_init main_step"
  by unfold_locales (auto simp: thread_step_def intro: reachable.reachable_step)

section \<open>The client refines its transaction\<close>

text \<open>The transaction and the pending call of \<^verbatim>\<open>Begin\<close>, as \<^term>\<open>client_step\<close> sees them.\<close>

definition sys_of :: "Client \<Rightarrow> client_sys" where
  "sys_of cl = (cl_transaction cl,
     case cl_thread cl of Main_Joining msg len addr \<Rightarrow> Some (msg, len, addr) | _ \<Rightarrow> None)"

lemma sys_of_simps [simp]:
  "sys_of (cl\<lparr>cl_file_handler := h\<rparr>) = sys_of cl"
  "sys_of (cl\<lparr>cl_is_running := b\<rparr>) = sys_of cl"
  "sys_of (cl\<lparr>cl_transaction := ct\<rparr>) = (ct, snd (sys_of cl))"
  by (simp_all add: sys_of_def)

lemma main_body_refines:
  assumes "client_main_body E ev m a cl = Inr cl'" "cl_thread cl = Main_Receiving"
  shows "sys_of cl' = sys_of cl \<or> client_step cb (sys_of cl) (sys_of cl')"
proof -
  obtain len msg addr where r: "udp_Receive ev m a = Inr (len, msg, addr)"
    using assms(1) by (auto simp: client_main_body_def bind_result_eq_Inr)
  have s: "sys_of cl = (cl_transaction cl, None)"
    by (simp add: sys_of_def assms(2))
  show ?thesis
  proof (cases "len = 0 \<or> client_IsAlive (cl_transaction cl)")
    case True
    then have "cl' = cl\<lparr>cl_thread := Main_Test\<rparr>"
      using assms(1) r by (auto simp: client_main_body_def split: if_splits)
    then show ?thesis by (simp add: s) (simp add: sys_of_def)
  next
    case False
    show ?thesis
    proof (cases "message_id (xid (header msg)) = NTF")
      case True
      then have "sys_of cl' =
          (Reset_fields E ((cl_transaction cl)\<lparr>c_is_active := True\<rparr>), Some (msg, len, addr))"
        using assms(1) r False by (auto simp: client_main_body_def sys_of_def)
      moreover have "client_step cb (cl_transaction cl, None)
          (Reset_fields E ((cl_transaction cl)\<lparr>c_is_active := True\<rparr>), Some (msg, len, addr))"
        using False True by (intro client_step.begin_enter) simp_all
      ultimately show ?thesis by (simp add: s)
    next
      case other: False
      then have "sys_of cl' = ((cl_transaction cl)\<lparr>c_is_active := False\<rparr>, None)"
        using assms(1) r False by (auto simp: client_main_body_def sys_of_def)
      moreover have "client_step cb (cl_transaction cl, None)
          ((cl_transaction cl)\<lparr>c_is_active := False\<rparr>, None)"
        using False other
        by (intro client_step.begin_other [where E = E and msg = msg and len = len and addr = addr])
          (simp_all add: client_Begin_def)
      ultimately show ?thesis by (simp add: s)
    qed
  qed
qed

text \<open>Every step of the client is a step of the transaction with the handler attached at
  that moment, or leaves the transaction alone.\<close>

lemma main_step_refines:
  assumes "main_step cl cl'"
  shows "sys_of cl' = sys_of cl \<or>
    client_step (Some (OnFileReceived cl)) (sys_of cl) (sys_of cl')"
  using assms
proof cases
  case main_test
  then show ?thesis by (auto simp: client_main_test_def sys_of_def)
next
  case (main_body E ev m a)
  then show ?thesis using main_body_refines by blast
next
  case (main_joined msg len addr E)
  then obtain ct where ct: "client_OnReceive Client_Thread (Some (OnFileReceived cl)) E msg len addr
      ((cl_transaction cl)\<lparr>c_thread := No_Thread\<rparr>) = Inr ct"
    and cl': "cl' = cl\<lparr>cl_transaction := ct, cl_thread := Main_Test\<rparr>"
    by (auto simp: client_main_joined_def bind_result_eq_Inr)
  have "client_step (Some (OnFileReceived cl)) (cl_transaction cl, Some (msg, len, addr)) (ct, None)"
    using main_joined(2) ct by (rule client_step.begin_joined)
  then show ?thesis
    using main_joined(1) by (simp add: cl' sys_of_def)
next
  case tran_test
  then show ?thesis
    using client_step.loop_test [of "cl_transaction cl" "Some (OnFileReceived cl)" "snd (sys_of cl)"]
    by (simp add: sys_of_def)
next
  case (tran_body E ev m a ct)
  then show ?thesis
    using client_step.loop_body [of "cl_transaction cl" "Some (OnFileReceived cl)" E ev m a ct
        "snd (sys_of cl)"]
    by (simp add: sys_of_def)
qed (simp_all add: AttachFileHandler_def DetachFileHandler_def Client_stop_def)

definition main_inv :: "Client \<Rightarrow> bool" where
  "main_inv cl \<longleftrightarrow> client_sys_inv (sys_of cl)"

interpretation client_main: invariant_system main_init main_step main_inv
proof unfold_locales
  show "main_inv cl" if start: "main_init cl" for cl
  proof -
    obtain tmp sock tsock v fs w where "cl = Client_new tmp sock tsock v fs w"
      using start unfolding main_init_def by blast
    then have "sys_of cl = (ClientTransaction_new tmp tsock v fs w, None)"
      by (simp add: sys_of_def Client_new_def)
    then have "client_init (sys_of cl)"
      unfolding client_init_def by blast
    then show ?thesis
      unfolding main_inv_def by (rule client_sys.inv_init)
  qed
  show "main_inv cl'" if "main_inv cl" "main_step cl cl'" for cl cl'
    using main_step_refines [OF that(2)] that(1) client_sys.inv_step
    unfolding main_inv_def by metis
qed

lemma main_inv_transaction: "main_inv cl \<Longrightarrow> client_inv (cl_transaction cl)"
  by (simp add: main_inv_def client_sys_inv_def sys_of_def)

section \<open>A transaction that is alive without a thread\<close>

text \<open>
  \<^verbatim>\<open>Begin\<close> sets \<^verbatim>\<open>is_active_\<close> from the unchecked identifier. If the \<^verbatim>\<open>NTF\<close> then fails its
  integrity check, nothing clears the flag and no thread runs that could.
\<close>

definition wedged :: "Client \<Rightarrow> bool" where
  "wedged cl \<longleftrightarrow> client_IsAlive (cl_transaction cl) \<and> c_thread (cl_transaction cl) = No_Thread \<and>
     (\<forall>msg len addr. cl_thread cl \<noteq> Main_Joining msg len addr)"

lemma client_main_joined_corrupt:
  assumes "\<not> client_ValidateMessageIntegrity msg len" "c_is_active (cl_transaction cl)"
  shows "\<exists>cl'. client_main_joined E msg len addr cl = Inr cl' \<and> wedged cl'"
  using assms
  by (simp add: client_main_joined_def client_OnReceive_def Let_def wedged_def client_IsAlive_def)

lemma main_step_wedged:
  assumes "main_step cl cl'" "wedged cl"
  shows "wedged cl' \<and> cl_transaction cl' = cl_transaction cl"
  using assms(1)
proof cases
  case (main_body E ev m a)
  then have "cl' = cl\<lparr>cl_thread := Main_Test\<rparr>"
    using assms(2) by (auto simp: client_main_body_def wedged_def bind_result_eq_Inr split: if_splits)
  then show ?thesis using assms(2) by (simp add: wedged_def)
qed (use assms(2) in \<open>auto simp: wedged_def client_main_test_def AttachFileHandler_def
      DetachFileHandler_def Client_stop_def\<close>)

lemma wedged_stays:
  assumes "reachable (\<lambda>s. s = cl) main_step cl'" "wedged cl"
  shows "wedged cl' \<and> cl_transaction cl' = cl_transaction cl"
  using assms(1)
proof induction
  case (reachable_step s t)
  then show ?case using main_step_wedged by metis
qed (simp add: assms(2))

section \<open>Ending the receiver thread\<close>

text \<open>After the destructor's first statement, two further steps of the thread end it when it
  is at the test or its \<^verbatim>\<open>Receive\<close> reports nothing.\<close>

lemma client_main_stops:
  assumes "\<not> cl_is_running cl" "cl_thread cl = Main_Receiving"
    and "client_main_body E (Recv_Failed EAGAIN) m a cl = Inr cl'"
  shows "Client_delete_returns (client_main_test cl')"
  using assms
  by (auto simp: client_main_body_def udp_Receive_def client_main_test_def Client_delete_returns_def)

end
