(* ===== verification/Coverage.thy ===== *)
theory Coverage
  imports Sender_Run
begin

text \<open>
  What the sequence number of a server transaction says about the network: every packet
  below it has been sent, whatever retransmissions were requested in between and whenever
  they were taken. So a transfer that is reported as done has put the whole file on the wire.
\<close>

section \<open>Packets on the wire\<close>

text \<open>The announced prefix of the file the sending thread has open.\<close>

definition sent_file :: "ServerTransaction \<Rightarrow> byte list" where
  "sent_file st = take (unat (s_new_file_size st)) (in_data (s_ifs st))"

definition on_wire :: "ServerTransaction \<Rightarrow> nat \<Rightarrow> bool" where
  "on_wire st k \<longleftrightarrow>
     (\<exists>j a. (a, snd (data_datagram j (sent_file st) st k)) \<in> set (s_wire st))"

definition covered :: "ServerTransaction \<Rightarrow> bool" where
  "covered st \<longleftrightarrow>
     (\<forall>k < unat (s_packet_sequence_number st). on_wire st k) \<and>
     (s_thr st \<in> {Tail_Wait, For_Incr} \<longrightarrow> on_wire st (unat (s_packet_sequence_number st)))"

text \<open>Nothing that has been sent is taken back.\<close>

lemma on_wire_mono:
  assumes "on_wire st k" "set (s_wire st) \<subseteq> set (s_wire st')"
    and "s_new_file_size st' = s_new_file_size st" "s_device_id st' = s_device_id st"
    and "in_data (s_ifs st') = in_data (s_ifs st)"
  shows "on_wire st' k"
proof -
  have "snd (data_datagram j (sent_file st') st' k) = snd (data_datagram j (sent_file st) st k)" for j
    using assms(3-) by (simp add: data_datagram_def data_packet_def CompleteHeader_def sent_file_def)
  then show ?thesis
    using assms(1,2) unfolding on_wire_def by fastforce
qed

lemma covered_mono:
  assumes "covered st" "set (s_wire st) \<subseteq> set (s_wire st')"
    and "s_new_file_size st' = s_new_file_size st" "s_device_id st' = s_device_id st"
    and "in_data (s_ifs st') = in_data (s_ifs st)"
    and "s_packet_sequence_number st' = s_packet_sequence_number st"
    and "s_thr st' \<in> {Tail_Wait, For_Incr} \<Longrightarrow> s_thr st \<in> {Tail_Wait, For_Incr}"
  shows "covered st'"
  using assms(1,6,7) on_wire_mono [OF _ assms(2-5)] by (auto simp: covered_def)

lemma covered_start: "s_packet_sequence_number st = 0 \<Longrightarrow> s_thr st \<notin> {Tail_Wait, For_Incr} \<Longrightarrow> covered st"
  by (simp add: covered_def)

section \<open>The invariant of one transaction\<close>

text \<open>\<open>DATA\<close> and \<open>DONE\<close> are reached through \<^verbatim>\<open>SendFileAsync\<close>, and \<open>DONE\<close> is accepted at
  the end of the file only.\<close>

definition tran_inv :: "ServerTransaction \<Rightarrow> bool" where
  "tran_inv st \<longleftrightarrow>
     server_inv st \<and> covered st \<and>
     (s_status st \<in> {DATA, DONE} \<longrightarrow> s_thr st \<noteq> Not_Started) \<and>
     (s_status st = DONE \<longrightarrow> s_packet_sequence_number st = s_total_packet_number st)"

definition all_sent :: "ServerTransaction \<Rightarrow> bool" where
  "all_sent st \<longleftrightarrow>
     s_packet_sequence_number st = s_total_packet_number st \<and> s_thr st \<noteq> Not_Started"

lemma tran_inv_DONE: "tran_inv st \<Longrightarrow> s_status st = DONE \<Longrightarrow> all_sent st"
  by (simp add: tran_inv_def all_sent_def)

lemma all_sent_on_wire:
  assumes "tran_inv st" "all_sent st" "k < unat (s_total_packet_number st)"
  shows "on_wire st k"
  using assms by (simp add: tran_inv_def all_sent_def covered_def)

lemma tran_inv_init: "server_init st \<Longrightarrow> tran_inv st \<and> s_thr st = Not_Started"
proof -
  assume "server_init st"
  then obtain addr p v d fs where new: "ServerTransaction_new addr p v d fs = Inr st"
    by (auto simp: server_init_def)
  then have "s_packet_sequence_number st = 0" "s_thr st = Not_Started" "s_status st = NTF"
    by (auto simp: ServerTransaction_new_def bind_result_eq_Inr)
  then show ?thesis
    using server_inv_new [OF new] by (simp add: tran_inv_def covered_start)
qed

section \<open>Preservation\<close>

text \<open>What no operation of another thread touches.\<close>

definition same_transfer :: "ServerTransaction \<Rightarrow> ServerTransaction \<Rightarrow> bool" where
  "same_transfer st st' \<longleftrightarrow>
     s_thr st' = s_thr st \<and> s_packet_sequence_number st' = s_packet_sequence_number st \<and>
     s_total_packet_number st' = s_total_packet_number st \<and> s_ifs st' = s_ifs st \<and>
     s_new_file_size st' = s_new_file_size st \<and> s_device_id st' = s_device_id st \<and>
     s_new_file_version st' = s_new_file_version st \<and>
     s_new_file_crc32 st' = s_new_file_crc32 st \<and>
     set (s_wire st) \<subseteq> set (s_wire st')"

lemma same_transfer_covered: "same_transfer st st' \<Longrightarrow> covered st \<Longrightarrow> covered st'"
  by (rule covered_mono) (simp_all add: same_transfer_def)

lemma same_transfer_all_sent: "same_transfer st st' \<Longrightarrow> all_sent st \<Longrightarrow> all_sent st'"
  by (simp add: same_transfer_def all_sent_def)

lemma same_transfer_OnReceive: "same_transfer st (server_OnReceive msg len addr st)"
  by (rule server_OnReceive_cases [of msg len addr st]) (simp_all add: same_transfer_def)

lemma OnReceive_tran_inv:
  assumes "tran_inv st"
  shows "tran_inv (server_OnReceive msg len addr st)"
proof -
  let ?st = "server_OnReceive msg len addr st"
  have same: "same_transfer st ?st" by (rule same_transfer_OnReceive)
  then have "covered ?st"
    using same_transfer_covered assms by (auto simp: tran_inv_def)
  moreover have "server_inv ?st"
    using assms by (simp add: tran_inv_def server_OnReceive_inv)
  moreover have "s_status ?st \<in> {DATA, DONE} \<Longrightarrow> s_status st \<in> {DATA, DONE}"
    "s_status ?st = DONE \<Longrightarrow>
      s_status st = DONE \<or> s_packet_sequence_number st = s_total_packet_number st"
    by (cases rule: server_OnReceive_cases [of msg len addr st]; simp)+
  ultimately show ?thesis
    using assms same by (auto simp: tran_inv_def same_transfer_def)
qed

text \<open>\<^verbatim>\<open>SendMessage\<close> as a caller sees it that catches what \<^verbatim>\<open>Send\<close> throws: the status was
  assigned before.\<close>

definition send_keeping ::
  "UdpSocket \<Rightarrow> senv \<Rightarrow> MessageId \<Rightarrow> ServerTransaction \<Rightarrow> ServerTransaction \<times> exn option" where
  "send_keeping sock E i st =
     (case server_SendMessage sock E i st of
        Inl e \<Rightarrow> (st\<lparr>s_status := i\<rparr>, Some e)
      | Inr st' \<Rightarrow> (st', None))"

lemma server_SendMessage_Inl:
  assumes "server_SendMessage sock E i st = Inl e"
  shows "i = DATA \<and> s_thr st \<noteq> Not_Started \<and> e = Std_Terminate \<or>
    i \<in> {NTF, INFO, FIN, CXL} \<and> (\<exists>what. e = Runtime_Error what)"
  using assms
  by (auto simp: server_SendMessage_def SendFileAsync_def Let_def bind_result_eq_Inl udp_Send_def
      socket_error_def split: if_splits)

lemma send_keeping_cases:
  assumes "send_keeping sock E i st = (st', r)"
  obtains (ignored) "st' = st" "r = None" "i \<notin> {NTF, INFO, DATA, FIN, CXL}"
  | (started) "i = DATA" "s_thr st = Not_Started" "st' = st\<lparr>s_status := DATA, s_thr := Opening\<rparr>" "r = None"
  | (terminated) "i = DATA" "s_thr st \<noteq> Not_Started" "st' = st\<lparr>s_status := DATA\<rparr>" "r = Some Std_Terminate"
  | (sent) d where "i \<in> {NTF, INFO, FIN, CXL}" "st' = st\<lparr>s_status := i, s_wire := s_wire st @ [d]\<rparr>" "r = None"
  | (failed) what where "i \<in> {NTF, INFO, FIN, CXL}" "st' = st\<lparr>s_status := i\<rparr>" "r = Some (Runtime_Error what)"
proof (cases "server_SendMessage sock E i st")
  case (Inl e)
  then show thesis
    using assms server_SendMessage_Inl [OF Inl] terminated failed by (auto simp: send_keeping_def)
next
  case (Inr st1)
  then have eq: "st' = st1" "r = None"
    using assms by (simp_all add: send_keeping_def)
  show thesis
  proof (cases "i \<in> {NTF, INFO, DATA, FIN, CXL}")
    case False
    then show thesis
      using Inr eq by (intro ignored) (auto simp: server_SendMessage_def)
  next
    case True
    then show thesis
      using Inr eq started sent
      by (auto simp: server_SendMessage_def SendFileAsync_def Let_def bind_result_eq_Inr
          dest!: udp_Send_Inr split: if_splits)
  qed
qed

lemma covered_status: "covered st \<Longrightarrow> covered (st\<lparr>s_status := i\<rparr>)"
  by (rule same_transfer_covered [of st]) (simp_all add: same_transfer_def)

lemma covered_status_wire: "covered st \<Longrightarrow> covered (st\<lparr>s_status := i, s_wire := s_wire st @ ds\<rparr>)"
  by (rule same_transfer_covered [of st]) (auto simp: same_transfer_def)

lemma send_keeping_tran_inv:
  assumes "send_keeping sock E i st = (st', r)" "tran_inv st"
  shows "tran_inv st'"
  using assms(1)
proof (cases rule: send_keeping_cases)
  case started
  then show ?thesis
    using assms(2) by (auto simp: tran_inv_def server_inv_def in_loop_def intro: covered_start)
next
  case terminated
  then show ?thesis
    using assms(2) by (auto simp: tran_inv_def covered_status)
next
  case (sent d)
  then show ?thesis
    using assms(2) by (auto simp: tran_inv_def server_inv_status_wire covered_status_wire)
next
  case (failed what)
  then show ?thesis
    using assms(2) by (auto simp: tran_inv_def covered_status)
qed (use assms in simp)

lemma send_keeping_all_sent:
  "send_keeping sock E i st = (st', r) \<Longrightarrow> all_sent st \<Longrightarrow> all_sent st'"
  by (erule send_keeping_cases) (auto simp: all_sent_def)

lemma send_keeping_Not_Started:
  "send_keeping sock E i st = (st', r) \<Longrightarrow> i \<noteq> DATA \<Longrightarrow> s_thr st' = s_thr st"
  by (erule send_keeping_cases) auto

section \<open>Steps of the sending thread\<close>

lemma covered_sent:
  assumes inv: "server_inv st" "s_thr st = Send_Data" and cov: "covered st"
    and fits: "unat (data_offset st) + unat (data_len st) \<le> length (in_data (s_ifs st))"
  shows "covered (st\<lparr>s_ifs := fst (read_at st),
     s_wire := s_wire st @ [(s_client_address st,
       send_image (data_message E (snd (read_at st)) st) (32 + unat (data_len st)))],
     s_thr := p\<rparr>)" (is "covered ?st")
proof -
  let ?k = "unat (s_packet_sequence_number st)" and ?n = "unat (s_new_file_size st)"
  have loop: "in_loop (s_thr st)" and ok: "\<not> in_fail (s_ifs st)"
    using inv by (simp_all add: in_loop_def server_inv_def)
  note dol = data_offset_len [OF inv(1) loop]
  note rd = read_at_result [OF ok dol(4)]
  define bs where "bs = take ?n (in_data (s_ifs st))"
  have sf: "sent_file (st\<lparr>s_ifs := fst (read_at st), s_wire := w, s_thr := p\<rparr>) = bs" for w
    by (simp add: sent_file_def rd bs_def)
  have lens: "slice_len (length bs) ?k = unat (data_len st)"
    using fits dol(1,2) by (auto simp: bs_def slice_len_def min_def)
  have bytes: "slice bs ?k = snd (read_at st)"
    using dol(3) by (auto simp: bs_def rd(1) slice_def dol(1,2) slice_len_def drop_take min_def)
  have "snd (data_datagram (senv_stack E) bs ?st ?k)
      = send_image (data_message E (snd (read_at st)) st) (32 + unat (data_len st))"
    by (simp add: data_datagram_def data_packet_def data_message_def CompleteHeader_def bytes lens)
  then have "(s_client_address st, snd (data_datagram (senv_stack E) (sent_file ?st) ?st ?k)) \<in> set (s_wire ?st)"
    by (simp add: sf)
  then have "on_wire ?st ?k"
    unfolding on_wire_def by blast
  moreover have "on_wire ?st i" if "i < ?k" for i
    by (rule on_wire_mono [of st]) (use that cov rd in \<open>auto simp: covered_def\<close>)
  ultimately show ?thesis by (simp add: covered_def)
qed

lemma on_wire_frame [simp]:
  "on_wire (st\<lparr>s_packet_sequence_number := k\<rparr>) = on_wire st"
  "on_wire (st\<lparr>s_retransmit_psn := r\<rparr>) = on_wire st"
  "on_wire (st\<lparr>s_thr := p\<rparr>) = on_wire st"
  by (simp_all add: on_wire_def sent_file_def data_datagram_def data_packet_def CompleteHeader_def
      fun_eq_iff)

lemma on_wire_take_rtx [simp]: "on_wire (take_rtx st) = on_wire st"
  by (simp add: take_rtx_def on_wire_def sent_file_def data_datagram_def data_packet_def
      CompleteHeader_def fun_eq_iff)

text \<open>Taking a request goes back to a packet that has been sent already, except when it asks
  for the packet that comes next anyway.\<close>

lemma take_rtx_covered:
  assumes "covered st" "server_inv st" "p \<in> {Tail_Wait, For_Incr} \<Longrightarrow> s_thr st \<in> {Tail_Wait, For_Incr}"
  shows "covered ((take_rtx st)\<lparr>s_thr := p\<rparr>)"
proof -
  have le: "unat (s_packet_sequence_number (take_rtx st)) \<le> unat (s_packet_sequence_number st)"
    using take_rtx_psn [OF assms(2)] by (simp add: word_le_nat_alt)
  have "on_wire st k" if "k < unat (s_packet_sequence_number (take_rtx st))" for k
    using assms(1) le that by (simp add: covered_def)
  moreover have "on_wire st (unat (s_packet_sequence_number (take_rtx st)))"
    if "p \<in> {Tail_Wait, For_Incr}"
    using assms(1) assms(3) [OF that] le by (auto simp: covered_def order.order_iff_strict)
  ultimately show ?thesis
    by (simp add: covered_def)
qed

lemma covered_move:
  assumes "covered st" "p \<notin> {Tail_Wait, For_Incr}"
  shows "covered (st\<lparr>s_thr := p\<rparr>)"
  using assms by (simp add: covered_def)

lemma covered_incr:
  assumes "covered st" "s_thr st = For_Incr"
    and "s_packet_sequence_number st < s_total_packet_number st"
  shows "covered (st\<lparr>s_packet_sequence_number := s_packet_sequence_number st + 1, s_thr := For_Test\<rparr>)"
proof -
  have "unat (s_packet_sequence_number st + 1) = Suc (unat (s_packet_sequence_number st))"
    using assms(3) by unat_arith
  then show ?thesis
    using assms(1,2) by (auto simp: covered_def less_Suc_eq)
qed

lemma send_data_covered:
  assumes "send_data sock E st = Inr st'" "server_inv st" "s_thr st = Send_Data" "covered st"
  shows "covered st'"
  using assms(1-3)
proof (cases rule: send_data_cases)
  case (short_file d)
  have "in_loop (s_thr st)" "\<not> in_fail (s_ifs st)"
    using assms(2,3) by (simp_all add: in_loop_def server_inv_def)
  then have "in_data (fst (read_at st)) = in_data (s_ifs st)"
    using read_at_result(2) data_offset_len(4) [OF assms(2)] by blast
  then show ?thesis
    unfolding short_file(2) by (intro covered_mono [OF assms(4)]) auto
next
  case sent
  show ?thesis
    unfolding sent(2) by (rule covered_sent [OF assms(2-4) sent(1)])
qed

lemma sender_step_covered:
  assumes "sender_step sock E st = Inr st'" "server_inv st" "covered st"
  shows "covered st'"
proof (cases "s_thr st")
  case Opening
  have psn: "s_packet_sequence_number st = 0"
    using Opening assms(2) by (simp add: server_inv_def)
  show ?thesis
  proof (cases "ifstream_open (s_file_path st) (senv_files E)")
    case None
    then obtain st1 where "server_SendMessage sock E CXL st = Inr st1" "st' = st1\<lparr>s_thr := Returned\<rparr>"
      using Opening assms(1) by (auto simp: sender_step_def bind_result_eq_Inr)
    moreover from this(1) have "s_packet_sequence_number st1 = 0"
      using psn by (cases rule: server_SendMessage_Inr) auto
    ultimately show ?thesis by (simp add: covered_start)
  next
    case (Some ifs)
    then show ?thesis
      using Opening assms(1) by (auto simp: sender_step_def intro: covered_start)
  qed
next
  case Check_Rtx
  then show ?thesis
    using assms take_rtx_covered [of st Send_Data] by (auto simp: sender_step_def)
next
  case Tail_Wait
  then show ?thesis
    using assms take_rtx_covered [of st For_Incr] by (auto simp: sender_step_def)
next
  case Send_Data
  then show ?thesis
    using assms send_data_covered by (simp add: sender_step_def)
next
  case For_Incr
  then have "s_packet_sequence_number st < s_total_packet_number st"
    using assms(2) by (simp add: server_inv_def in_loop_def)
  then show ?thesis
    using For_Incr assms(1,3) covered_incr by (auto simp: sender_step_def)
qed (use assms in \<open>auto simp: sender_step_def intro!: covered_move split: if_splits\<close>)

lemma sender_step_status:
  assumes "sender_step sock E st = Inr st'" "server_inv st"
  shows "s_status st' = s_status st \<or> s_status st' = CXL"
    and "s_thr st' = Not_Started \<longleftrightarrow> s_thr st = Not_Started"
proof -
  have "(s_status st' = s_status st \<or> s_status st' = CXL) \<and>
    (s_thr st' = Not_Started \<longleftrightarrow> s_thr st = Not_Started)"
  proof (cases "s_thr st")
    case Opening
    have "s_status st1 = CXL" if "server_SendMessage sock E CXL st = Inr st1" for st1
      using that by (auto simp: server_SendMessage_def Let_def bind_result_eq_Inr)
    then show ?thesis
      using Opening assms(1)
      by (auto simp: sender_step_def bind_result_eq_Inr split: option.splits)
  next
    case Send_Data
    then have "send_data sock E st = Inr st'"
      using assms(1) by (simp add: sender_step_def)
    then show ?thesis
      using assms(2) Send_Data by (cases rule: send_data_cases) (simp_all add: Send_Data)
  qed (use assms(1) in \<open>auto simp: sender_step_def split: if_splits\<close>)
  then show "s_status st' = s_status st \<or> s_status st' = CXL"
    "s_thr st' = Not_Started \<longleftrightarrow> s_thr st = Not_Started" by blast+
qed

text \<open>At the end of the file the thread only leaves its loop.\<close>

lemma sender_step_at_end:
  assumes "sender_step sock E st = Inr st'" "server_inv st"
    and "s_packet_sequence_number st = s_total_packet_number st"
  shows "s_packet_sequence_number st' = s_packet_sequence_number st"
    and "s_total_packet_number st' = s_total_packet_number st"
proof -
  have out: "\<not> in_loop (s_thr st)"
    using assms(2,3) by (auto simp: server_inv_def)
  have "s_packet_sequence_number st1 = s_packet_sequence_number st \<and>
      s_total_packet_number st1 = s_total_packet_number st" if "server_SendMessage sock E CXL st = Inr st1" for st1
    using that by (cases rule: server_SendMessage_Inr) auto
  then have "s_packet_sequence_number st' = s_packet_sequence_number st \<and>
      s_total_packet_number st' = s_total_packet_number st"
    using assms(1,2) out
    by (cases "s_thr st")
      (auto simp: sender_step_def in_loop_def server_inv_def bind_result_eq_Inr split: option.splits)
  then show "s_packet_sequence_number st' = s_packet_sequence_number st"
    "s_total_packet_number st' = s_total_packet_number st" by blast+
qed

lemma sender_step_all_sent:
  assumes "sender_step sock E st = Inr st'" "server_inv st" "all_sent st"
  shows "all_sent st'"
  using assms(3) sender_step_at_end [OF assms(1,2)] sender_step_status(2) [OF assms(1,2)]
  by (simp add: all_sent_def)

lemma sender_step_tran_inv:
  assumes "sender_step sock E st = Inr st'" "tran_inv st"
  shows "tran_inv st'"
proof -
  have inv: "server_inv st" "covered st"
    using assms(2) by (simp_all add: tran_inv_def)
  have "s_packet_sequence_number st' = s_total_packet_number st'" if "s_status st = DONE"
    using sender_step_at_end [OF assms(1) inv(1)] assms(2) that by (simp add: tran_inv_def)
  then show ?thesis
    using assms(2) sender_step_inv [OF assms(1) inv(1)] sender_step_covered [OF assms(1) inv]
      sender_step_status [OF assms(1) inv(1)]
    by (auto simp: tran_inv_def)
qed

end
