(* ===== verification/Server.thy ===== *)
theory Server
  imports Coverage
begin

text \<open>
  \<^verbatim>\<open>src/server/server.cpp\<close>: starting and aborting transfers, the map of active
  transactions and the receiver thread. Transactions are objects on a heap, shared between
  the map and the calls that run them. Every call of \<^verbatim>\<open>StartFileTransfer\<close> is a program
  counter with one step per stretch between its waits.
\<close>

section \<open>Parsing the client's address\<close>

text \<open>\<^verbatim>\<open>find(':')\<close> with the two \<^verbatim>\<open>substr\<close>.\<close>

definition parse_uri :: "string \<Rightarrow> (string \<times> string) option" where
  "parse_uri uri =
     (case dropWhile (\<lambda>c. c \<noteq> CHR '':'') uri of
        [] \<Rightarrow> None
      | _ # rest \<Rightarrow> Some (takeWhile (\<lambda>c. c \<noteq> CHR '':'') uri, rest))"

definition INET_ADDRSTRLEN :: nat where
  "INET_ADDRSTRLEN = 16"

text \<open>\<^verbatim>\<open>std::stoi\<close>: white space, a sign, digits; what follows is ignored.\<close>

definition is_space :: "char \<Rightarrow> bool" where
  "is_space c \<longleftrightarrow> (of_char c :: nat) = 32 \<or> 9 \<le> (of_char c :: nat) \<and> (of_char c :: nat) \<le> 13"

definition stoi_sign :: "string \<Rightarrow> bool \<times> string" where
  "stoi_sign cs =
     (case cs of
        [] \<Rightarrow> (False, [])
      | c # rest \<Rightarrow>
          if c = CHR ''-'' then (True, rest)
          else if c = CHR ''+'' then (False, rest)
          else (False, cs))"

definition stoi :: "string \<Rightarrow> int result" where
  "stoi cs =
     (let (neg, rest) = stoi_sign (dropWhile is_space cs);
          digits = takeWhile is_digit rest;
          v = (if neg then - int (undecimal digits) else int (undecimal digits))
      in if digits = [] then Inl Invalid_Argument
         else if v < - 2147483648 \<or> 2147483647 < v then Inl Out_Of_Range
         else Inr v)"

text \<open>\<^verbatim>\<open>c_str()\<close>, as far as a C function reads it.\<close>

definition c_str :: "string \<Rightarrow> string" where
  "c_str s = takeWhile (\<lambda>c. c \<noteq> CHR 0x00) s"

lemma parse_uri_append: "CHR '':'' \<notin> set ip \<Longrightarrow> parse_uri (ip @ CHR '':'' # port) = Some (ip, port)"
proof -
  assume no: "CHR '':'' \<notin> set ip"
  then have "dropWhile (\<lambda>c. c \<noteq> CHR '':'') (ip @ CHR '':'' # port) = CHR '':'' # port"
    by (subst dropWhile_append3) auto
  moreover have "takeWhile (\<lambda>c. c \<noteq> CHR '':'') (ip @ CHR '':'' # port) = ip"
    by (subst takeWhile_append2) (use no in auto)
  ultimately show ?thesis
    by (simp only: parse_uri_def list.case)
qed

lemma decimal_ne: "decimal n \<noteq> []"
  by (subst decimal.simps) simp

lemma stoi_decimal: "n < 2147483648 \<Longrightarrow> stoi (decimal n) = Inr (int n)"
proof -
  assume n: "n < 2147483648"
  obtain c cs where d: "decimal n = c # cs"
    using decimal_ne by (metis neq_Nil_conv)
  have c: "is_digit c" using decimal_digits [of n] by (simp add: d)
  then have "\<not> is_space c" "c \<noteq> CHR ''-''" "c \<noteq> CHR ''+''"
    by (auto simp: is_digit_def is_space_def)
  then have "stoi_sign (dropWhile is_space (decimal n)) = (False, decimal n)"
    by (simp add: d stoi_sign_def)
  moreover have digits: "takeWhile is_digit (decimal n) = decimal n"
    using decimal_digits by (simp add: takeWhile_eq_all_conv)
  ultimately show ?thesis
    using n unfolding stoi_def
    by (simp add: digits decimal_ne undecimal_decimal del: undecimal.simps)
qed

lemma length_decimal_byte: "length (decimal (unat (b :: byte))) \<le> 3"
proof -
  have "unat b < 2 ^ LENGTH(8)" by (rule unsigned_less)
  then have b: "unat b < 256" by simp
  have step: "length (decimal n) \<le> Suc k" if "n < 10 \<or> length (decimal (n div 10)) \<le> k" for n k
    using that by (subst decimal.simps) auto
  have "length (decimal (unat b div 10 div 10)) \<le> 1"
    using b by (subst decimal.simps) auto
  then show ?thesis
    using step [of "unat b div 10" 1] step [of "unat b" 2] by (simp add: numeral_3_eq_3 numeral_2_eq_2)
qed

lemma le32_four: "\<exists>a b c d. le32 w = [a, b, c, d]"
  by (simp add: le32_def numeral_eq_Suc)

lemma length_inet_ntoa: "length (inet_ntoa a) < INET_ADDRSTRLEN"
proof -
  obtain p q r s where "le32 a = [p, q, r, s]" using le32_four by blast
  then show ?thesis
    using length_decimal_byte [of p] length_decimal_byte [of q] length_decimal_byte [of r]
      length_decimal_byte [of s]
    by (simp add: inet_ntoa_def dotted_def dot_field_def INET_ADDRSTRLEN_def)
qed

lemma inet_ntoa_chars: "c \<in> set (inet_ntoa a) \<Longrightarrow> is_digit c \<or> c = CHR ''.''"
proof -
  assume c: "c \<in> set (inet_ntoa a)"
  obtain p q r s where "le32 a = [p, q, r, s]" using le32_four by blast
  then show ?thesis
    using c decimal_digits by (auto simp: inet_ntoa_def dotted_def dot_field_def)
qed

lemma parse_uri_inet_ntoa: "parse_uri (inet_ntoa a @ CHR '':'' # port) = Some (inet_ntoa a, port)"
  by (rule parse_uri_append) (auto dest: inet_ntoa_chars simp: is_digit_def)

lemma c_str_inet_ntoa: "c_str (inet_ntoa a) = inet_ntoa a"
  unfolding c_str_def
  by (rule takeWhile_eq_all_conv [THEN iffD2]) (auto dest: inet_ntoa_chars simp: is_digit_def)

section \<open>State\<close>

record Device =
  dev_id :: u32

text \<open>\<^verbatim>\<open>ServerTransactionFactory::CreateTransaction\<close>, in a file system.\<close>

type_synonym factory = "Device \<Rightarrow> sockaddr_in \<Rightarrow> path \<Rightarrow> u32 \<Rightarrow> filesystem \<Rightarrow> ServerTransaction result"

definition DefaultServerTransactionFactory_CreateTransaction :: factory where
  "DefaultServerTransactionFactory_CreateTransaction device addr file_path file_version fs =
     ServerTransaction_new addr file_path file_version (dev_id device) fs"

datatype server_pc = Server_Test | Server_Receiving | Server_Returned

text \<open>The objects behind \<^verbatim>\<open>std::shared_ptr\<close> are the entries of \<open>sv_heap\<close>.\<close>

record Server =
  sv_udp_socket :: UdpSocket
  sv_is_running :: bool
  sv_thread :: server_pc
  sv_factory :: factory
  sv_active_transactions :: "string \<rightharpoonup> nat"
  sv_heap :: "ServerTransaction list"

definition Server_new :: "UdpSocket \<Rightarrow> factory \<Rightarrow> Server" where
  "Server_new sock factory =
     \<lparr>sv_udp_socket = sock,
      sv_is_running = True,
      sv_thread = Server_Test,
      sv_factory = factory,
      sv_active_transactions = Map.empty,
      sv_heap = []\<rparr>"

definition Server_stop :: "Server \<Rightarrow> Server" where
  "Server_stop sv = sv\<lparr>sv_is_running := False\<rparr>"

definition Server_delete_returns :: "Server \<Rightarrow> bool" where
  "Server_delete_returns sv \<longleftrightarrow> sv_thread sv = Server_Returned"

definition set_tran :: "nat \<Rightarrow> ServerTransaction \<Rightarrow> Server \<Rightarrow> Server" where
  "set_tran k st sv = sv\<lparr>sv_heap := (sv_heap sv)[k := st]\<rparr>"

section \<open>StartFileTransfer\<close>

text \<open>
  The positions of a call: before \<^verbatim>\<open>SendMessage(id)\<close>; before \<^verbatim>\<open>WaitForStatus\<close> loads the
  status after that message; in its \<^verbatim>\<open>wait_for\<close> with the status it loaded; before the
  \<^verbatim>\<open>erase\<close>; in the destructor of the transaction; returned; left by an exception.
\<close>

datatype start_pc =
    Sending MessageId | Loading MessageId | Waiting MessageId FtpStatus
  | Erasing FtpStatus | Destroying FtpStatus | Finished FtpStatus | Threw exn

record start_call =
  call_ip :: string
  call_tran :: nat
  call_pc :: start_pc

text \<open>Up to \<^verbatim>\<open>try_emplace\<close>. \<open>inet_addr\<close> is the C library's.\<close>

definition StartFileTransfer_enter ::
  "(string \<Rightarrow> u32) \<Rightarrow> filesystem \<Rightarrow> string \<Rightarrow> path \<Rightarrow> u32 \<Rightarrow> Device \<Rightarrow> Server \<Rightarrow>
   (start_call \<times> Server) result" where
  "StartFileTransfer_enter inet_addr fs client_uri file_path file_version device sv =
     (case parse_uri client_uri of
        None \<Rightarrow> Inl (Runtime_Error (''Invalid client address ('' @ client_uri @ '')''))
      | Some (client_ip, client_port) \<Rightarrow>
          if INET_ADDRSTRLEN \<le> length client_ip then Inl (Runtime_Error (''Invalid client IP ('' @ client_ip @ '')''))
          else if \<not> fs_exists file_path fs then Inl (Runtime_Error (''File('' @ file_path @ '') not found''))
          else
            bind_result (stoi client_port)
              (\<lambda>port.
                 let client_addr =
                       \<lparr>sin_family = AF_INET, sin_port = htobe16 (word_of_int port),
                        s_addr = inet_addr (c_str client_ip)\<rparr>
                 in bind_result (sv_factory sv device client_addr file_path file_version fs)
                      (\<lambda>tran.
                         if sv_active_transactions sv client_ip \<noteq> None
                         then Inl (Runtime_Error (''Transaction already exists for <'' @ client_ip @ ''>''))
                         else Inr
                           (\<lparr>call_ip = client_ip, call_tran = length (sv_heap sv), call_pc = Sending NTF\<rparr>,
                            sv\<lparr>sv_heap := sv_heap sv @ [tran],
                               sv_active_transactions :=
                                 (sv_active_transactions sv)(client_ip \<mapsto> length (sv_heap sv))\<rparr>))))"

text \<open>What follows a \<^verbatim>\<open>SendMessage\<close> that returns, and a \<^verbatim>\<open>WaitForStatus\<close>.\<close>

definition after_send :: "MessageId \<Rightarrow> start_pc" where
  "after_send i = (if i = FIN \<or> i = CXL then Erasing i else Loading i)"

definition after_wait :: "MessageId \<Rightarrow> FtpStatus option \<Rightarrow> start_pc" where
  "after_wait i status =
     (if i = NTF then
        (case status of
           None \<Rightarrow> Erasing NTF
         | Some s \<Rightarrow>
             if s = CXL then Erasing CXL
             else if s \<noteq> CHK then Sending CXL
             else Sending INFO)
      else if i = INFO then
        (if status = Some CXL then Erasing CXL
         else if status \<noteq> Some RDY then Sending CXL
         else Sending DATA)
      else
        (if status = Some CXL then Erasing CXL
         else if status \<noteq> Some DONE then Sending CXL
         else Sending FIN))"

text \<open>One step of a call; \<open>timed_out\<close> tells a \<^verbatim>\<open>wait_for\<close> whether its time is up. \<open>None\<close>:
  the call is blocked or over.\<close>

definition StartFileTransfer_step ::
  "senv \<Rightarrow> bool \<Rightarrow> start_call \<Rightarrow> Server \<Rightarrow> (start_call \<times> Server) option" where
  "StartFileTransfer_step E timed_out c sv =
     (let tran = sv_heap sv ! call_tran c
      in case call_pc c of
           Sending i \<Rightarrow>
             (case send_keeping (sv_udp_socket sv) E i tran of
                (tran, Some e) \<Rightarrow> Some (c\<lparr>call_pc := Threw e\<rparr>, set_tran (call_tran c) tran sv)
              | (tran, None) \<Rightarrow> Some (c\<lparr>call_pc := after_send i\<rparr>, set_tran (call_tran c) tran sv))
         | Loading i \<Rightarrow> Some (c\<lparr>call_pc := Waiting i (wait_load tran)\<rparr>, sv)
         | Waiting i old_status \<Rightarrow>
             (case wait_poll old_status timed_out tran of
                None \<Rightarrow> None
              | Some status \<Rightarrow> Some (c\<lparr>call_pc := after_wait i status\<rparr>, sv))
         | Erasing s \<Rightarrow>
             Some (c\<lparr>call_pc := Destroying s\<rparr>,
                   sv\<lparr>sv_active_transactions := (sv_active_transactions sv)(call_ip c := None)\<rparr>)
         | Destroying s \<Rightarrow>
             if ServerTransaction_delete_returns tran then Some (c\<lparr>call_pc := Finished s\<rparr>, sv)
             else None
         | Finished s \<Rightarrow> None
         | Threw e \<Rightarrow> None)"

section \<open>AbortFileTransfer and the receiver thread\<close>

definition AbortFileTransfer :: "senv \<Rightarrow> string \<Rightarrow> Server \<Rightarrow> Server \<times> exn option" where
  "AbortFileTransfer E client_ip sv =
     (case sv_active_transactions sv client_ip of
        None \<Rightarrow> (sv, Some (Runtime_Error (''No transaction found for <'' @ client_ip @ ''>'')))
      | Some k \<Rightarrow>
          (case send_keeping (sv_udp_socket sv) E CXL (sv_heap sv ! k) of
             (tran, r) \<Rightarrow> (set_tran k tran sv, r)))"

definition server_main_test :: "Server \<Rightarrow> Server" where
  "server_main_test sv =
     sv\<lparr>sv_thread := (if sv_is_running sv then Server_Receiving else Server_Returned)\<rparr>"

text \<open>One turn of \<^verbatim>\<open>HandleIncomingMessages\<close>: \<open>len\<close> bytes of \<open>msg\<close> from \<open>addr\<close>.\<close>

definition server_route :: "nat \<Rightarrow> TrftpMessage \<Rightarrow> sockaddr_in \<Rightarrow> Server \<Rightarrow> Server" where
  "server_route len msg addr sv =
     (if len = 0 then sv
      else
        case sv_active_transactions sv (inet_ntoa (s_addr addr)) of
          None \<Rightarrow> sv
        | Some k \<Rightarrow> set_tran k (server_OnReceive msg len addr (sv_heap sv ! k)) sv)"

definition server_main_body ::
  "recv_event \<Rightarrow> TrftpMessage \<Rightarrow> sockaddr_in \<Rightarrow> Server \<Rightarrow> Server result" where
  "server_main_body ev m a sv =
     bind_result (udp_Receive ev m a)
       (\<lambda>(len, msg, addr). Inr ((server_route len msg addr sv)\<lparr>sv_thread := Server_Test\<rparr>))"

section \<open>The whole server\<close>

type_synonym server_sys = "Server \<times> start_call list"

inductive sys_step :: "(string \<Rightarrow> u32) \<Rightarrow> server_sys \<Rightarrow> server_sys \<Rightarrow> bool"
  for inet_addr :: "string \<Rightarrow> u32" where
  start:
    "StartFileTransfer_enter inet_addr fs uri p v d sv = Inr (c, sv') \<Longrightarrow>
     sys_step inet_addr (sv, cs) (sv', cs @ [c])"
| call:
    "k < length cs \<Longrightarrow> StartFileTransfer_step E timed_out (cs ! k) sv = Some (c, sv') \<Longrightarrow>
     sys_step inet_addr (sv, cs) (sv', cs[k := c])"
| abort:
    "AbortFileTransfer E ip sv = (sv', r) \<Longrightarrow> sys_step inet_addr (sv, cs) (sv', cs)"
| stop: "sys_step inet_addr (sv, cs) (Server_stop sv, cs)"
| main_test:
    "sv_thread sv = Server_Test \<Longrightarrow> sys_step inet_addr (sv, cs) (server_main_test sv, cs)"
| main_body:
    "sv_thread sv = Server_Receiving \<Longrightarrow> server_main_body ev m a sv = Inr sv' \<Longrightarrow>
     sys_step inet_addr (sv, cs) (sv', cs)"
| sender:
    "k < length (sv_heap sv) \<Longrightarrow> sender_step (sv_udp_socket sv) E (sv_heap sv ! k) = Inr st \<Longrightarrow>
     sys_step inet_addr (sv, cs) (set_tran k st sv, cs)"

definition sys_init :: "factory \<Rightarrow> server_sys \<Rightarrow> bool" where
  "sys_init f s \<longleftrightarrow> (\<exists>sock. s = (Server_new sock f, []))"

end
