(* ===== verification/Server_System.thy ===== *)
theory Server_System
  imports Server
begin

text \<open>
  What holds of the whole server in every interleaving of its callers, its receiver thread
  and the sending threads: which transactions the map holds, what a call has achieved at
  each position, and what its result means.
\<close>

section \<open>Positions of a call\<close>

text \<open>A call owns its entry of the map until it erases it.\<close>

fun owns :: "start_pc \<Rightarrow> bool" where
  "owns (Destroying s) = False"
| "owns (Finished s) = False"
| "owns _ = True"

text \<open>The transaction a call is done with: its thread was never started, or will see \<^verbatim>\<open>CXL\<close>, or is
  at the end of the file.\<close>

definition over :: "FtpStatus \<Rightarrow> ServerTransaction \<Rightarrow> bool" where
  "over s st \<longleftrightarrow> s \<in> {NTF, CXL, FIN} \<and> (s = NTF \<longrightarrow> s_thr st = Not_Started) \<and>
     (s = CXL \<longrightarrow> s_status st = CXL) \<and> (s = FIN \<longrightarrow> all_sent st)"

fun pc_ok :: "start_pc \<Rightarrow> ServerTransaction \<Rightarrow> bool" where
  "pc_ok (Sending i) st \<longleftrightarrow> i \<in> {NTF, INFO, DATA, FIN, CXL} \<and>
     (i \<in> {NTF, INFO, DATA} \<longrightarrow> s_thr st = Not_Started) \<and> (i = FIN \<longrightarrow> all_sent st)"
| "pc_ok (Loading i) st \<longleftrightarrow> i \<in> {NTF, INFO, DATA} \<and> (i \<noteq> DATA \<longrightarrow> s_thr st = Not_Started)"
| "pc_ok (Waiting i old_status) st \<longleftrightarrow> i \<in> {NTF, INFO, DATA} \<and> (i \<noteq> DATA \<longrightarrow> s_thr st = Not_Started)"
| "pc_ok (Erasing s) st \<longleftrightarrow> over s st"
| "pc_ok (Destroying s) st \<longleftrightarrow> over s st"
| "pc_ok (Finished s) st \<longleftrightarrow> over s st \<and> ServerTransaction_delete_returns st"
| "pc_ok (Threw e) st \<longleftrightarrow> (\<exists>what. e = Runtime_Error what)"

text \<open>What the other threads may do to a transaction without disturbing its call.\<close>

definition tran_frame :: "ServerTransaction \<Rightarrow> ServerTransaction \<Rightarrow> bool" where
  "tran_frame st st' \<longleftrightarrow>
     (s_thr st = Not_Started \<longrightarrow> s_thr st' = Not_Started) \<and>
     (s_thr st = Returned \<longrightarrow> s_thr st' = Returned) \<and>
     (s_status st = CXL \<longrightarrow> s_status st' = CXL) \<and>
     (all_sent st \<longrightarrow> all_sent st')"

lemma pc_ok_frame: "pc_ok pc st \<Longrightarrow> tran_frame st st' \<Longrightarrow> pc_ok pc st'"
  by (cases pc) (auto simp: tran_frame_def over_def ServerTransaction_delete_returns_def)

lemma tran_frame_OnReceive: "tran_frame st (server_OnReceive msg len addr st)"
proof -
  have "s_status st = CXL \<Longrightarrow> s_status (server_OnReceive msg len addr st) = CXL"
    by (cases rule: server_OnReceive_cases [of msg len addr st]) simp_all
  then show ?thesis
    using same_transfer_OnReceive [of st msg len addr] same_transfer_all_sent
    by (auto simp: tran_frame_def same_transfer_def)
qed

lemma send_keeping_status:
  "send_keeping sock E i st = (st', r) \<Longrightarrow> s_status st' = i \<or> s_status st' = s_status st"
  by (erule send_keeping_cases) simp_all

lemma tran_frame_CXL: "send_keeping sock E CXL st = (st', r) \<Longrightarrow> tran_frame st st'"
  using send_keeping_all_sent send_keeping_Not_Started [of sock E CXL st st' r]
    send_keeping_status [of sock E CXL st st' r]
  by (auto simp: tran_frame_def)

lemma tran_frame_sender:
  assumes "sender_step sock E st = Inr st'" "tran_inv st"
  shows "tran_frame st st'"
proof -
  have "server_inv st" using assms(2) by (simp add: tran_inv_def)
  then show ?thesis
    using sender_step_all_sent [OF assms(1)] sender_step_status [OF assms(1)] assms(1)
    by (auto simp: tran_frame_def sender_step_def)
qed

section \<open>The invariant\<close>

definition owned :: "start_call list \<Rightarrow> (string \<times> nat) set" where
  "owned cs = {(call_ip c, call_tran c) | c. c \<in> set cs \<and> owns (call_pc c)}"

definition call_ok :: "Server \<Rightarrow> start_call \<Rightarrow> bool" where
  "call_ok sv c \<longleftrightarrow>
     call_tran c < length (sv_heap sv) \<and> pc_ok (call_pc c) (sv_heap sv ! call_tran c)"

definition sys_inv :: "factory \<Rightarrow> server_sys \<Rightarrow> bool" where
  "sys_inv f s \<longleftrightarrow>
     sv_factory (fst s) = f \<and>
     (\<forall>st \<in> set (sv_heap (fst s)). tran_inv st) \<and>
     (\<forall>c \<in> set (snd s). call_ok (fst s) c) \<and>
     distinct (map call_tran (snd s)) \<and>
     (\<forall>ip k. sv_active_transactions (fst s) ip = Some k \<longleftrightarrow> (ip, k) \<in> owned (snd s))"

lemma sys_invD:
  assumes "sys_inv f (sv, cs)"
  shows "sv_factory sv = f" "\<And>k. k < length (sv_heap sv) \<Longrightarrow> tran_inv (sv_heap sv ! k)"
    "\<And>c. c \<in> set cs \<Longrightarrow> call_ok sv c" "distinct (map call_tran cs)"
    "\<And>ip k. sv_active_transactions sv ip = Some k \<longleftrightarrow> (ip, k) \<in> owned cs"
  using assms by (auto simp: sys_inv_def)

lemma owned_bound:
  assumes "sys_inv f (sv, cs)" "sv_active_transactions sv ip = Some k"
  shows "k < length (sv_heap sv)"
  using sys_invD [OF assms(1)] assms(2) by (auto simp: owned_def call_ok_def)

lemma owned_iff:
  "(x, y) \<in> owned cs \<longleftrightarrow>
     (\<exists>i < length cs. call_ip (cs ! i) = x \<and> call_tran (cs ! i) = y \<and> owns (call_pc (cs ! i)))"
  unfolding owned_def by (auto simp: in_set_conv_nth)

lemma update_pc_nth:
  assumes "k < length cs"
  shows "call_ip (cs[k := (cs ! k)\<lparr>call_pc := pc\<rparr>] ! i) = call_ip (cs ! i)"
    "call_tran (cs[k := (cs ! k)\<lparr>call_pc := pc\<rparr>] ! i) = call_tran (cs ! i)"
    "call_pc (cs[k := (cs ! k)\<lparr>call_pc := pc\<rparr>] ! i) = (if i = k then pc else call_pc (cs ! i))"
  using assms by (cases "i = k"; simp)+

lemma owned_update:
  assumes "k < length cs" "owns pc = owns (call_pc (cs ! k))"
  shows "owned (cs[k := (cs ! k)\<lparr>call_pc := pc\<rparr>]) = owned cs"
proof -
  have "owns (if i = k then pc else call_pc (cs ! i)) = owns (call_pc (cs ! i))" for i
    using assms(2) by simp
  then show ?thesis
    by (auto simp: owned_iff update_pc_nth [OF assms(1)])
qed

lemma call_tran_update:
  "k < length cs \<Longrightarrow> map call_tran (cs[k := (cs ! k)\<lparr>call_pc := pc\<rparr>]) = map call_tran cs"
  by (simp add: map_update) (metis length_map list_update_id nth_map)

lemma set_tran_simps [simp]:
  "sv_factory (set_tran k st sv) = sv_factory sv"
  "sv_active_transactions (set_tran k st sv) = sv_active_transactions sv"
  "sv_udp_socket (set_tran k st sv) = sv_udp_socket sv"
  "sv_heap (set_tran k st sv) = (sv_heap sv)[k := st]"
  "set_tran k (sv_heap sv ! k) sv = sv"
  by (simp_all add: set_tran_def)

text \<open>What the public functions and the receiver thread do to the heap: nothing, or one operation of
  one transaction.\<close>

lemma AbortFileTransfer_cases:
  assumes "AbortFileTransfer E ip sv = (sv', r)"
  obtains (nothing) "sv' = sv"
  | (cancelled) k st r' where "sv_active_transactions sv ip = Some k"
      "send_keeping (sv_udp_socket sv) E CXL (sv_heap sv ! k) = (st, r')" "sv' = set_tran k st sv"
proof (cases "sv_active_transactions sv ip")
  case None
  then have "sv' = sv" using assms by (simp add: AbortFileTransfer_def)
  then show thesis by (rule nothing)
next
  case (Some k)
  obtain st r' where send: "send_keeping (sv_udp_socket sv) E CXL (sv_heap sv ! k) = (st, r')" by fastforce
  show thesis
    by (rule cancelled [OF Some send]) (use assms Some send in \<open>simp add: AbortFileTransfer_def\<close>)
qed

lemma server_main_body_cases:
  assumes "server_main_body ev m a sv = Inr sv'"
  obtains (ignored) "sv' = sv\<lparr>sv_thread := Server_Test\<rparr>"
  | (routed) k len msg addr where "udp_Receive ev m a = Inr (len, msg, addr)" "len \<noteq> 0"
      "sv_active_transactions sv (inet_ntoa (s_addr addr)) = Some k"
      "sv' = (set_tran k (server_OnReceive msg len addr (sv_heap sv ! k)) sv)\<lparr>sv_thread := Server_Test\<rparr>"
proof -
  obtain len msg addr where r: "udp_Receive ev m a = Inr (len, msg, addr)"
    and sv': "sv' = (server_route len msg addr sv)\<lparr>sv_thread := Server_Test\<rparr>"
    using assms by (auto simp: server_main_body_def bind_result_eq_Inr)
  show thesis
  proof (cases "len = 0 \<or> sv_active_transactions sv (inet_ntoa (s_addr addr)) = None")
    case True
    then show thesis using sv' ignored by (auto simp: server_route_def)
  next
    case False
    then show thesis using routed [OF r] sv' by (auto simp: server_route_def)
  qed
qed

lemma StartFileTransfer_step_heap:
  assumes "StartFileTransfer_step E t c sv = Some (c', sv')"
  obtains (sent) i st r where "call_pc c = Sending i"
      "send_keeping (sv_udp_socket sv) E i (sv_heap sv ! call_tran c) = (st, r)"
      "sv_heap sv' = (sv_heap sv)[call_tran c := st]"
      "c' = c\<lparr>call_pc := (case r of None \<Rightarrow> after_send i | Some e \<Rightarrow> Threw e)\<rparr>"
      "sv' = set_tran (call_tran c) st sv"
  | (kept) "\<And>i. call_pc c \<noteq> Sending i" "sv_heap sv' = sv_heap sv" "call_tran c' = call_tran c"
proof (cases "call_pc c")
  case (Sending i)
  obtain st r where send: "send_keeping (sv_udp_socket sv) E i (sv_heap sv ! call_tran c) = (st, r)" by fastforce
  show thesis
    by (rule sent [OF Sending send])
      (use assms Sending send in \<open>auto simp: StartFileTransfer_step_def split: option.splits\<close>)
qed (use assms kept in \<open>auto simp: StartFileTransfer_step_def Let_def split: option.splits if_splits\<close>)

text \<open>A change of one transaction by another thread.\<close>

lemma sys_inv_set_tran:
  assumes "sys_inv f (sv, cs)" "k < length (sv_heap sv)" "tran_inv st"
    and "tran_frame (sv_heap sv ! k) st"
  shows "sys_inv f (set_tran k st sv, cs)"
proof -
  have "call_ok (set_tran k st sv) c" if "c \<in> set cs" for c
    using sys_invD(3) [OF assms(1) that] pc_ok_frame [OF _ assms(4)] assms(2)
    by (cases "call_tran c = k") (simp_all add: call_ok_def)
  then show ?thesis
    using assms(1-3) by (auto simp: sys_inv_def dest: set_update_subset_insert [THEN subsetD])
qed

text \<open>A step of a call that keeps its entry, with what it does to its transaction.\<close>

lemma sys_inv_call:
  assumes inv: "sys_inv f (sv, cs)" and k: "k < length cs" and st: "tran_inv st"
    and pc: "pc_ok pc st" "owns pc = owns (call_pc (cs ! k))"
  shows "sys_inv f (set_tran (call_tran (cs ! k)) st sv, cs[k := (cs ! k)\<lparr>call_pc := pc\<rparr>])"
proof -
  note D = sys_invD [OF inv]
  let ?c = "(cs ! k)\<lparr>call_pc := pc\<rparr>" and ?sv = "set_tran (call_tran (cs ! k)) st sv"
  have bound: "call_tran (cs ! k) < length (sv_heap sv)"
    using D(3) [of "cs ! k"] k by (simp add: call_ok_def)
  have "call_ok ?sv c" if "c \<in> set (cs[k := ?c])" for c
  proof -
    obtain i where i: "i < length cs" "c = cs[k := ?c] ! i"
      using \<open>c \<in> set (cs[k := ?c])\<close> by (metis in_set_conv_nth length_list_update)
    show ?thesis
    proof (cases "i = k")
      case True
      then show ?thesis using i pc(1) bound by (simp add: call_ok_def)
    next
      case False
      then have "call_tran (cs ! i) \<noteq> call_tran (cs ! k)"
        using D(4) i(1) k by (simp add: distinct_conv_nth)
      then show ?thesis
        using False i D(3) [of "cs ! i"] by (simp add: call_ok_def)
    qed
  qed
  moreover have "\<forall>s \<in> set (sv_heap ?sv). tran_inv s"
    using inv st by (auto simp: sys_inv_def dest: set_update_subset_insert [THEN subsetD])
  ultimately show ?thesis
    unfolding sys_inv_def fst_conv snd_conv call_tran_update [OF k] owned_update [OF k pc(2)]
    using D(1,4,5) by simp
qed

text \<open>Erasing the entry.\<close>

lemma sys_inv_erase:
  assumes inv: "sys_inv f (sv, cs)" and k: "k < length cs" and pc: "call_pc (cs ! k) = Erasing s"
  shows "sys_inv f
    (sv\<lparr>sv_active_transactions := (sv_active_transactions sv)(call_ip (cs ! k) := None)\<rparr>,
     cs[k := (cs ! k)\<lparr>call_pc := Destroying s\<rparr>])"
proof -
  note D = sys_invD [OF inv]
  let ?c = "(cs ! k)\<lparr>call_pc := Destroying s\<rparr>"
  let ?sv = "sv\<lparr>sv_active_transactions := (sv_active_transactions sv)(call_ip (cs ! k) := None)\<rparr>"
  have own: "(call_ip (cs ! k), call_tran (cs ! k)) \<in> owned cs"
    using k pc by (force simp: owned_def)
  have "call_ok ?sv c" if "c \<in> set (cs[k := ?c])" for c
    using set_update_subset_insert [THEN subsetD, OF that] D(3) [of "cs ! k"] D(3) [of c] k pc
    by (auto simp: call_ok_def)
  moreover have "(x, y) \<in> owned (cs[k := ?c]) \<longleftrightarrow> x \<noteq> call_ip (cs ! k) \<and> (x, y) \<in> owned cs" for x y
  proof -
    have "i = k" if "i < length cs" "(call_ip (cs ! k), call_tran (cs ! i)) \<in> owned cs" for i
    proof -
      have "call_tran (cs ! i) = call_tran (cs ! k)"
        using that(2) own D(5) by (metis option.inject)
      then show ?thesis
        using D(4) that(1) k by (simp add: distinct_conv_nth) metis
    qed
    then show ?thesis
      unfolding owned_iff update_pc_nth [OF k] length_list_update using pc
      by (auto simp: owned_iff) metis
  qed
  moreover have "\<forall>st \<in> set (sv_heap ?sv). tran_inv st"
    using inv by (simp add: sys_inv_def)
  ultimately show ?thesis
    unfolding sys_inv_def fst_conv snd_conv call_tran_update [OF k] using D(1,4,5) by auto
qed

text \<open>Where a call goes on after it has sent its message.\<close>

lemma sent_pc_ok:
  assumes send: "send_keeping sock E i st = (st', r)" and pc: "pc_ok (Sending i) st"
  shows "pc_ok (case r of None \<Rightarrow> after_send i | Some e \<Rightarrow> Threw e) st'"
proof (cases r)
  case None
  have "i = FIN \<Longrightarrow> all_sent st'"
    using send_keeping_all_sent [OF send] pc by simp
  moreover have "i = NTF \<or> i = INFO \<Longrightarrow> s_thr st' = Not_Started"
    using send_keeping_Not_Started [OF send] pc by auto
  moreover have "i = CXL \<Longrightarrow> s_status st' = CXL"
    using send None by (cases rule: send_keeping_cases) auto
  ultimately show ?thesis
    using None pc by (auto simp: after_send_def over_def)
next
  case (Some e)
  have "\<exists>what. e = Runtime_Error what"
    using send Some pc by (cases rule: send_keeping_cases) auto
  then show ?thesis using Some by simp
qed

text \<open>And after it has waited.\<close>

lemma waited_pc_ok:
  assumes poll: "wait_poll old t st = Some r" and pc: "pc_ok (Waiting i old') st" and st: "tran_inv st"
  shows "pc_ok (after_wait i r) st"
proof -
  have "r = Some DONE \<Longrightarrow> all_sent st"
    using poll tran_inv_DONE [OF st] by (auto simp: wait_poll_def split: if_splits)
  moreover have "r = Some CXL \<Longrightarrow> s_status st = CXL"
    using poll by (auto simp: wait_poll_def split: if_splits)
  ultimately show ?thesis
    using pc by (auto simp: after_wait_def over_def split: option.splits)
qed

lemma StartFileTransfer_step_inv:
  assumes inv: "sys_inv f (sv, cs)" and k: "k < length cs"
    and step: "StartFileTransfer_step E t (cs ! k) sv = Some (c, sv')"
  shows "sys_inv f (sv', cs[k := c])"
proof -
  let ?tran = "sv_heap sv ! call_tran (cs ! k)"
  have ok: "call_tran (cs ! k) < length (sv_heap sv)" "pc_ok (call_pc (cs ! k)) ?tran"
    using sys_invD(3) [OF inv, of "cs ! k"] k by (simp_all add: call_ok_def)
  have tran: "tran_inv ?tran" using sys_invD(2) [OF inv ok(1)] .
  have move: "sys_inv f (sv, cs[k := (cs ! k)\<lparr>call_pc := pc\<rparr>])"
    if "pc_ok pc ?tran" "owns pc = owns (call_pc (cs ! k))" for pc
    using sys_inv_call [OF inv k tran that] by simp
  show ?thesis
  proof (cases "call_pc (cs ! k)")
    case (Sending i)
    let ?next = "\<lambda>r. case r of None \<Rightarrow> after_send i | Some e \<Rightarrow> Threw e"
    obtain st r where send: "send_keeping (sv_udp_socket sv) E i ?tran = (st, r)"
      and c: "c = (cs ! k)\<lparr>call_pc := ?next r\<rparr>" "sv' = set_tran (call_tran (cs ! k)) st sv"
      using step Sending by (cases rule: StartFileTransfer_step_heap) auto
    have "owns (?next r) = owns (call_pc (cs ! k))"
      by (simp add: Sending after_send_def split: option.splits)
    then show ?thesis
      using sys_inv_call [OF inv k send_keeping_tran_inv [OF send tran] sent_pc_ok [OF send]] ok(2) Sending c
      by simp
  next
    case (Loading i)
    then show ?thesis
      using step ok(2) move [of "Waiting i (wait_load ?tran)"]
      by (auto simp: StartFileTransfer_step_def)
  next
    case (Waiting i old)
    then obtain r where r: "wait_poll old t ?tran = Some r"
      and c: "c = (cs ! k)\<lparr>call_pc := after_wait i r\<rparr>" "sv' = sv"
      using step by (auto simp: StartFileTransfer_step_def split: option.splits)
    have "pc_ok (after_wait i r) ?tran"
      by (rule waited_pc_ok [OF r _ tran]) (use ok(2) Waiting in simp)
    moreover have "owns (after_wait i r) = owns (call_pc (cs ! k))"
      by (simp add: Waiting after_wait_def split: option.splits)
    ultimately show ?thesis using c move by simp
  next
    case (Erasing s)
    then show ?thesis
      using step sys_inv_erase [OF inv k Erasing] by (auto simp: StartFileTransfer_step_def)
  next
    case (Destroying s)
    then show ?thesis
      using step ok(2) move [of "Finished s"]
      by (auto simp: StartFileTransfer_step_def split: if_splits)
  qed (use step in \<open>simp_all add: StartFileTransfer_step_def\<close>)
qed

section \<open>The contract of a factory\<close>

text \<open>What a call that passes the checks of its arguments has done.\<close>

lemma enter_cases:
  assumes "StartFileTransfer_enter inet_addr fs uri p v d sv = Inr (c, sv')"
  obtains ip port n st where "parse_uri uri = Some (ip, port)" "stoi port = Inr n"
    "sv_factory sv d \<lparr>sin_family = AF_INET, sin_port = htobe16 (word_of_int n),
       s_addr = inet_addr (c_str ip)\<rparr> p v fs = Inr st"
    "sv_active_transactions sv ip = None"
    "c = \<lparr>call_ip = ip, call_tran = length (sv_heap sv), call_pc = Sending NTF\<rparr>"
    "sv' = sv\<lparr>sv_heap := sv_heap sv @ [st],
       sv_active_transactions := (sv_active_transactions sv)(ip \<mapsto> length (sv_heap sv))\<rparr>"
proof -
  obtain ip port where uri: "parse_uri uri = Some (ip, port)"
    using assms by (cases "parse_uri uri") (auto simp: StartFileTransfer_enter_def)
  note enter = assms [unfolded StartFileTransfer_enter_def uri option.case prod.case Let_def]
  have "\<not> INET_ADDRSTRLEN \<le> length ip" "\<not> \<not> fs_exists p fs"
    using enter by (metis Inl_Inr_False)+
  note checked = enter [unfolded if_not_P [OF this(1)], unfolded if_not_P [OF this(2)] bind_result_eq_Inr]
  then obtain n st where "stoi port = Inr n" and "sv_factory sv d \<lparr>sin_family = AF_INET, sin_port = htobe16 (word_of_int n),
       s_addr = inet_addr (c_str ip)\<rparr> p v fs = Inr st"
      and "(if sv_active_transactions sv ip \<noteq> None then Inl (Runtime_Error (''Transaction already exists for <'' @ ip @ ''>''))
       else Inr (\<lparr>call_ip = ip, call_tran = length (sv_heap sv), call_pc = Sending NTF\<rparr>,
         sv\<lparr>sv_heap := sv_heap sv @ [st],
       sv_active_transactions := (sv_active_transactions sv)(ip \<mapsto> length (sv_heap sv))\<rparr>)) = Inr (c, sv')" by blast
  then show thesis
    using that [OF uri] by (auto split: if_splits)
qed

text \<open>A factory returns a newly constructed transaction, addressed to the client.\<close>

locale transaction_factory =
  fixes create :: factory
  assumes create_new: "create d a p v fs = Inr st \<Longrightarrow> server_init st"
    and create_address: "create d a p v fs = Inr st \<Longrightarrow> s_client_address st = a"
begin

lemma enter_result:
  assumes "StartFileTransfer_enter inet_addr fs uri p v d sv = Inr (c, sv')" "sv_factory sv = create"
  obtains st where "server_init st" "s_addr (s_client_address st) = inet_addr (c_str (call_ip c))"
    "sv_active_transactions sv (call_ip c) = None" "call_tran c = length (sv_heap sv)"
    "call_pc c = Sending NTF"
    "sv' = sv\<lparr>sv_heap := sv_heap sv @ [st],
       sv_active_transactions := (sv_active_transactions sv)(call_ip c \<mapsto> length (sv_heap sv))\<rparr>"
  using assms(1)
proof (cases rule: enter_cases)
  case (1 ip port n st)
  then have new: "create d \<lparr>sin_family = AF_INET, sin_port = htobe16 (word_of_int n),
       s_addr = inet_addr (c_str ip)\<rparr> p v fs = Inr st"
    using assms(2) by simp
  have addr: "s_addr (s_client_address st) = inet_addr (c_str ip)"
    using create_address [OF new] by simp
  show thesis
    by (rule that [OF create_new [OF new]]) (simp_all only: addr 1(4-6) start_call.simps)
qed

lemma enter_inv:
  assumes "StartFileTransfer_enter inet_addr fs uri p v d sv = Inr (c, sv')" "sys_inv create (sv, cs)"
  shows "sys_inv create (sv', cs @ [c])"
proof -
  note D = sys_invD [OF assms(2)]
  obtain st where st: "server_init st" and c: "sv_active_transactions sv (call_ip c) = None"
    "call_tran c = length (sv_heap sv)" "call_pc c = Sending NTF"
    and sv': "sv' = sv\<lparr>sv_heap := sv_heap sv @ [st],
       sv_active_transactions := (sv_active_transactions sv)(call_ip c \<mapsto> length (sv_heap sv))\<rparr>"
    using enter_result [OF assms(1) D(1)] by metis
  have new: "tran_inv st" "s_thr st = Not_Started"
    using tran_inv_init [OF st] by simp_all
  have old: "call_tran x < length (sv_heap sv)" if "x \<in> set cs" for x
    using D(3) [OF that] by (simp add: call_ok_def)
  have "call_ok sv' x" if "x \<in> set (cs @ [c])" for x
    using that new c D(3) [of x] by (auto simp: call_ok_def sv' nth_append)
  moreover have "owned (cs @ [c]) = insert (call_ip c, call_tran c) (owned cs)"
    using c(3) by (auto simp: owned_def)
  moreover have "call_tran c \<notin> call_tran ` set cs"
    using old c(2) by (auto simp: image_iff) (metis less_irrefl)
  moreover have "(call_ip c, k) \<notin> owned cs" for k
    using D(5) [of "call_ip c" k] c(1) by simp
  moreover have "\<forall>s \<in> set (sv_heap sv'). tran_inv s"
    using assms(2) new by (auto simp: sys_inv_def sv')
  ultimately show ?thesis
    unfolding sys_inv_def fst_conv snd_conv using D(1,4,5) c(2) by (auto simp: sv')
qed

lemma sys_step_inv:
  assumes "sys_step inet_addr s t" "sys_inv create s"
  shows "sys_inv create t"
  using assms(1)
proof cases
  case (start fs uri p v d sv c sv' cs)
  then show ?thesis using enter_inv assms(2) by blast
next
  case (call k cs E timed_out sv c sv')
  then show ?thesis using StartFileTransfer_step_inv assms(2) by blast
next
  case (abort E ip sv sv' r cs)
  have inv: "sys_inv create (sv, cs)" using abort(1) assms(2) by simp
  from abort(3) show ?thesis
  proof (cases rule: AbortFileTransfer_cases)
    case nothing
    then show ?thesis using abort(2) inv by simp
  next
    case (cancelled k st r')
    note k = owned_bound [OF inv cancelled(1)]
    show ?thesis
      unfolding abort(2) cancelled(3)
      by (rule sys_inv_set_tran [OF inv k send_keeping_tran_inv [OF cancelled(2) sys_invD(2) [OF inv k]]
            tran_frame_CXL [OF cancelled(2)]])
  qed
next
  case (stop sv cs)
  then show ?thesis using assms(2) by (simp add: sys_inv_def call_ok_def Server_stop_def)
next
  case (main_test sv cs)
  then show ?thesis using assms(2) by (simp add: sys_inv_def call_ok_def server_main_test_def)
next
  case (main_body sv ev m a sv' cs)
  have inv: "sys_inv create (sv, cs)" using main_body(1) assms(2) by simp
  have thr: "sys_inv create (x\<lparr>sv_thread := Server_Test\<rparr>, cs)" if "sys_inv create (x, cs)" for x
    using that by (simp add: sys_inv_def call_ok_def)
  from main_body(4) show ?thesis
  proof (cases rule: server_main_body_cases)
    case ignored
    then show ?thesis using main_body(2) thr [OF inv] by simp
  next
    case (routed k len msg addr)
    note k = owned_bound [OF inv routed(3)]
    show ?thesis
      unfolding main_body(2) routed(4)
      by (rule thr [OF sys_inv_set_tran [OF inv k OnReceive_tran_inv [OF sys_invD(2) [OF inv k]] tran_frame_OnReceive]])
  qed
next
  case (sender k sv E st cs)
  have inv: "sys_inv create (sv, cs)" using sender(1) assms(2) by simp
  have old: "tran_inv (sv_heap sv ! k)" using sys_invD(2) [OF inv sender(3)] .
  show ?thesis
    unfolding sender(2)
    using sys_inv_set_tran [OF inv sender(3)] sender_step_tran_inv [OF sender(4) old]
      tran_frame_sender [OF sender(4) old] by blast
qed

lemma sys_init_inv: "sys_init create s \<Longrightarrow> sys_inv create s"
  by (auto simp: sys_init_def sys_inv_def Server_new_def owned_def)

end

sublocale transaction_factory \<subseteq>
  sys: invariant_system "sys_init create" "sys_step inet_addr" "sys_inv create" for inet_addr
  by unfold_locales (auto intro: sys_init_inv sys_step_inv)

interpretation default_factory: transaction_factory DefaultServerTransactionFactory_CreateTransaction
proof unfold_locales
  show "server_init st" if "DefaultServerTransactionFactory_CreateTransaction d a p v fs = Inr st"
    for d a p v fs st
    using that unfolding DefaultServerTransactionFactory_CreateTransaction_def server_init_def by blast
  show "s_client_address st = a"
    if "DefaultServerTransactionFactory_CreateTransaction d a p v fs = Inr st" for d a p v fs st
    using that
    by (auto simp: DefaultServerTransactionFactory_CreateTransaction_def ServerTransaction_new_def
        bind_result_eq_Inr)
qed

section \<open>What a result means\<close>

text \<open>Reachable states of a server with the default factory.\<close>

abbreviation server_reachable :: "(string \<Rightarrow> u32) \<Rightarrow> Server \<Rightarrow> start_call list \<Rightarrow> bool" where
  "server_reachable inet_addr sv cs \<equiv>
     reachable (sys_init DefaultServerTransactionFactory_CreateTransaction) (sys_step inet_addr) (sv, cs)"

lemma reachable_call:
  assumes "server_reachable inet_addr sv cs" "c \<in> set cs"
  shows "call_tran c < length (sv_heap sv)" "pc_ok (call_pc c) (sv_heap sv ! call_tran c)"
    "tran_inv (sv_heap sv ! call_tran c)"
  using sys_invD(2,3) [OF default_factory.sys.reachable_inv [OF assms(1)]] assms(2)
  by (auto simp: call_ok_def)

text \<open>The map holds exactly the transactions of the calls that have not erased theirs.\<close>

lemma reachable_active:
  assumes "server_reachable inet_addr sv cs"
  shows "sv_active_transactions sv ip = Some k \<longleftrightarrow>
    (\<exists>c \<in> set cs. call_ip c = ip \<and> call_tran c = k \<and> owns (call_pc c))"
  using sys_invD(5) [OF default_factory.sys.reachable_inv [OF assms]] by (auto simp: owned_def)

lemma reachable_distinct:
  assumes "server_reachable inet_addr sv cs"
  shows "distinct (map call_tran cs)"
  using sys_invD(4) [OF default_factory.sys.reachable_inv [OF assms]] .

text \<open>Calls for the same address exclude each other.\<close>

lemma enter_refused:
  assumes "sv_active_transactions sv ip \<noteq> None" "parse_uri uri = Some (ip, port)"
  shows "\<exists>e. StartFileTransfer_enter inet_addr fs uri p v d sv = Inl e"
proof -
  have "\<nexists>r. StartFileTransfer_enter inet_addr fs uri p v d sv = Inr r"
    using assms by (auto simp: StartFileTransfer_enter_def Let_def bind_result_eq_Inr)
  then show ?thesis by (metis sumE)
qed

lemma finished_not_active:
  assumes "server_reachable inet_addr sv cs" "c \<in> set cs" "\<not> owns (call_pc c)"
  shows "call_tran c \<notin> ran (sv_active_transactions sv)"
proof
  assume "call_tran c \<in> ran (sv_active_transactions sv)"
  then obtain ip where "sv_active_transactions sv ip = Some (call_tran c)"
    by (auto simp: ran_def)
  then obtain c' where c': "c' \<in> set cs" "call_tran c' = call_tran c" "owns (call_pc c')"
    using reachable_active [OF assms(1)] by auto
  then have "c' = c"
    using reachable_distinct [OF assms(1)] assms(2) by (auto simp: distinct_map dest: inj_onD)
  with c'(3) assms(3) show False by simp
qed

section \<open>Routing\<close>

lemma server_route_other:
  assumes "sv_active_transactions sv (inet_ntoa (s_addr addr)) \<noteq> Some k"
  shows "sv_heap (server_route len msg addr sv) ! k = sv_heap sv ! k"
  using assms by (auto simp: server_route_def split: option.splits)

text \<open>An entry whose key is not the canonical spelling of an address receives nothing.\<close>

lemma server_route_canonical:
  assumes "\<And>a. ip \<noteq> inet_ntoa a" "\<And>ip'. sv_active_transactions sv ip' = Some k \<Longrightarrow> ip' = ip"
  shows "sv_heap (server_route len msg addr sv) ! k = sv_heap sv ! k"
  using assms by (intro server_route_other) metis

text \<open>A transfer to \<open>inet_ntoa a\<close>: the entry made for it is the one to which the client's
  answers are routed.\<close>

lemma enter_canonical:
  assumes "port < 65536" "fs_exists p fs" "sv_active_transactions sv (inet_ntoa a) = None"
    and "sv_factory sv d \<lparr>sin_family = AF_INET, sin_port = htobe16 (of_nat port),
            s_addr = inet_addr (inet_ntoa a)\<rparr> p v fs = Inr st"
  shows "StartFileTransfer_enter inet_addr fs (inet_ntoa a @ CHR '':'' # decimal port) p v d sv =
    Inr (\<lparr>call_ip = inet_ntoa a, call_tran = length (sv_heap sv), call_pc = Sending NTF\<rparr>,
         sv\<lparr>sv_heap := sv_heap sv @ [st],
            sv_active_transactions := (sv_active_transactions sv)(inet_ntoa a \<mapsto> length (sv_heap sv))\<rparr>)"
  using assms length_inet_ntoa [of a]
  by (simp add: StartFileTransfer_enter_def parse_uri_inet_ntoa stoi_decimal c_str_inet_ntoa)

section \<open>The window between sending and waiting\<close>

text \<open>
  \<^verbatim>\<open>WaitForStatus\<close> loads the status it waits to change after the message has been sent: an
  answer that arrives in between is the status it waits with, and is reported as none.
\<close>

lemma lost_answer:
  assumes "call_pc c = Loading i" "s_status (sv_heap sv ! call_tran c) = a"
  shows "StartFileTransfer_step E t c sv = Some (c\<lparr>call_pc := Waiting i a\<rparr>, sv)"
    and "StartFileTransfer_step E False (c\<lparr>call_pc := Waiting i a\<rparr>) sv = None"
    and "StartFileTransfer_step E True (c\<lparr>call_pc := Waiting i a\<rparr>) sv =
      Some (c\<lparr>call_pc := after_wait i None\<rparr>, sv)"
  using assms by (simp_all add: StartFileTransfer_step_def wait_load_def wait_poll_def)

end
