(* ===== verification/Session.thy ===== *)
theory Session
  imports Exchange Client Server_System
begin

text \<open>
  Whole transfers. A channel that loses, repeats and reorders the server's datagrams never
  makes the client finish with another file; a channel that delivers everything makes it
  finish with the file, unless the last packet is one the client never accepts.
\<close>

section \<open>What a faulty channel can do\<close>

text \<open>
  A received message is genuine when it does not pass the integrity check, or announces a
  file of the length of \<open>bs\<close>, or carries the packet of \<open>bs\<close> its sequence number names, or
  is neither \<open>INFO\<close> nor \<open>DATA\<close>. Losing, repeating, delaying and damaging the server's
  datagrams (as far as the check notices) produces genuine messages only.
\<close>

definition genuine :: "byte list \<Rightarrow> TrftpMessage \<Rightarrow> nat \<Rightarrow> bool" where
  "genuine bs msg len \<longleftrightarrow>
     (client_ValidateMessageIntegrity msg len \<longrightarrow>
       (message_id (xid (header msg)) = INFO \<longrightarrow> unat (info_file_length (msg_info msg)) = length bs) \<and>
       (message_id (xid (header msg)) = DATA \<longrightarrow>
          take (len - sizeof_TrftpHeader) (payload msg) = slice bs (unat (psn (header msg)))))"

text \<open>One datagram handled by the transaction's thread, with what the system answers meanwhile.\<close>

record delivery =
  del_env :: env
  del_msg :: TrftpMessage
  del_len :: nat
  del_addr :: sockaddr_in

fun client_feed :: "on_file_received \<Rightarrow> delivery list \<Rightarrow> ClientTransaction \<Rightarrow> ClientTransaction result" where
  "client_feed cb [] ct = Inr ct"
| "client_feed cb (d # ds) ct =
     bind_result
       (client_OnReceive Transaction_Thread cb (del_env d) (del_msg d) (del_len d) (del_addr d) ct)
       (client_feed cb ds)"

lemma client_feed_append:
  "client_feed cb (ds @ es) ct = bind_result (client_feed cb ds ct) (client_feed cb es)"
proof (induction ds arbitrary: ct)
  case (Cons d ds)
  then show ?case
    by (cases "client_OnReceive Transaction_Thread cb (del_env d) (del_msg d) (del_len d) (del_addr d) ct")
      simp_all
qed simp

text \<open>A transaction that serves one file: what it has stored is a prefix, and a handshake
  that has not reached \<open>RDY\<close> starts at packet 0.\<close>

definition serves :: "byte list \<Rightarrow> ClientTransaction \<Rightarrow> bool" where
  "serves bs ct \<longleftrightarrow> stores_only bs ct \<and> c_thread ct \<noteq> No_Thread \<and>
     (c_status ct = CHK \<longrightarrow> c_packet_sequence_number ct = 0)"

lemma serves_CXL:
  "client_SendMessage E CXL ct = Inr ct' \<Longrightarrow> c_thread ct \<noteq> No_Thread \<Longrightarrow> serves bs ct'"
  using client_SendMessage_CXL(1,3) [of E ct ct'] stores_only_CXL [of E ct ct' bs]
  by (simp add: serves_def)

lemma client_on_ntf_serves:
  assumes "client_on_ntf Transaction_Thread E msg n ct = Inr ct'" "serves bs ct"
  shows "serves bs ct'"
proof -
  have "client_SendMessage E CXL ct = Inr ct'"
    using assms by (auto simp: client_on_ntf_def serves_def split: if_splits)
  then show ?thesis
    using assms(2) by (intro serves_CXL) (auto simp: serves_def)
qed

lemma client_on_fin_serves:
  assumes "client_on_fin cb E n ct = Inr ct'" "serves bs ct"
  shows "serves bs ct'"
proof -
  have "client_SendMessage E CXL ct = Inr ct' \<or> c_status ct' = FIN \<and> c_thread ct' = c_thread ct"
    using assms(1)
    by (auto simp: client_on_fin_def Let_def bind_result_eq_Inr split: option.splits if_splits)
  moreover have "serves bs ct'" if "c_status ct' = FIN" "c_thread ct' = c_thread ct"
    using that assms(2) by (simp add: serves_def stores_only_def)
  moreover have "c_thread ct \<noteq> No_Thread" using assms(2) by (simp add: serves_def)
  ultimately show ?thesis using serves_CXL by blast
qed

lemma client_on_cxl_serves:
  assumes "client_on_cxl E ct = Inr ct'" "serves bs ct"
  shows "serves bs ct'"
proof -
  obtain ct0 where "client_SendMessage E CXL ct0 = Inr ct'" "c_thread ct0 = c_thread ct"
    using assms(1) by (auto simp: client_on_cxl_def Let_def split: prod.splits if_splits)
  then show ?thesis
    using assms(2) by (intro serves_CXL) (auto simp: serves_def)
qed

text \<open>The thread does not change while a handler other than \<^verbatim>\<open>NTF\<close>'s runs.\<close>

lemma client_SendMessage_thread:
  "client_SendMessage E i ct = Inr ct' \<Longrightarrow> i \<in> {CHK, RDY, RTX, DONE, CXL} \<Longrightarrow> c_thread ct' = c_thread ct"
  by (drule (1) client_SendMessage_frame) auto

lemma client_complete_status:
  assumes "client_complete E ct = Inr ct'"
  shows "c_thread ct' = c_thread ct" "c_status ct' = CXL \<or> c_status ct' = DONE"
proof -
  obtain i ct0 where "client_SendMessage E i ct0 = Inr ct'" "i = CXL \<or> i = DONE" "c_thread ct0 = c_thread ct"
    using assms
    by (auto simp: client_complete_def Let_def bind_result_eq_Inr split: prod.splits if_splits)
  then show "c_thread ct' = c_thread ct" "c_status ct' = CXL \<or> c_status ct' = DONE"
    by (auto dest!: client_SendMessage_frame)
qed

lemma client_on_data_serves:
  assumes "client_on_data E msg n ct = Inr ct'" "serves bs ct"
    and "take n (payload msg) = slice bs (unat (psn (header msg)))"
  shows "serves bs ct'"
proof -
  have st: "stores_only bs ct'"
    using assms client_on_data_stores by (simp add: serves_def)
  have "c_thread ct' \<noteq> No_Thread \<and> (c_status ct' = CHK \<longrightarrow> c_packet_sequence_number ct' = 0)"
    using assms(1)
  proof (cases rule: client_on_data_cases)
    case (cancelled ct0)
    then have "c_status ct' = CXL" by (simp add: client_SendMessage_CXL)
    moreover have "c_thread ct' = c_thread ct"
      using assms(1) client_SendMessage_thread client_complete_status(1)
      by (fastforce simp: client_on_data_def Let_def split: if_splits)
    ultimately show ?thesis using assms(2) by (simp add: serves_def)
  next
    case retransmit
    then show ?thesis using client_SendMessage_frame [OF retransmit(3)] assms(2) by (auto simp: serves_def)
  next
    case stored
    then show ?thesis using assms(2) by (simp add: serves_def client_data_state_def)
  next
    case last
    then show ?thesis
      using client_complete_status [OF last(5)] assms(2) by (auto simp: serves_def client_data_state_def)
  qed
  with st show ?thesis by (simp add: serves_def)
qed

lemma client_on_info_serves:
  assumes "client_on_info E msg n ct = Inr ct'" "serves bs ct"
    and "unat (info_file_length (msg_info msg)) = length bs"
  shows "serves bs ct'"
proof -
  have thr: "c_thread ct' \<noteq> No_Thread" "c_status ct' = CXL \<or> c_status ct' = RDY"
    using assms(1,2)
    by (auto simp: client_on_info_def Let_def serves_def split: prod.splits if_splits
        dest!: client_SendMessage_frame)
  have "stores_only bs ct'"
    using assms(1)
  proof (cases rule: client_on_info_cases)
    case (cancelled ct0)
    then show ?thesis by (rule stores_only_CXL)
  next
    case ready
    obtain st fs where op: "ofstream_open (c_new_file_path ct) (env_open E) (c_new_file_stream ct) (c_files ct) = (st, fs)"
      by fastforce
    have psn: "c_packet_sequence_number ct = 0"
      using ready(1) assms(2) by (simp add: serves_def)
    have "length bs \<noteq> 0" using ready(4) assms(3) by (metis unat_eq_0)
    then have pos: "0 < packets_of bs" by (simp add: packets_of_def div_greater_zero_iff Suc_le_eq)
    have "out_fail st \<or> holds_prefix bs 0 ct'"
      using client_SendMessage_frame [OF ready(6)] ready(4,5) assms(3) psn ofstream_open_result [OF op]
      by (auto simp: holds_prefix_def client_receiving_def client_info_state_def op Let_def)
    moreover have "c_new_file_stream ct' = st"
      using client_SendMessage_frame [OF ready(6)] by (auto simp: client_info_state_def op Let_def)
    moreover have "c_status ct' = RDY"
      using client_SendMessage_frame [OF ready(6)] by auto
    ultimately show ?thesis using pos by (auto simp: stores_only_def)
  qed
  then show ?thesis using thr by (auto simp: serves_def)
qed

lemma client_OnReceive_serves:
  assumes "client_OnReceive Transaction_Thread cb E msg len addr ct = Inr ct'" "serves bs ct"
    and "genuine bs msg len"
  shows "serves bs ct'"
proof -
  let ?ct = "ct\<lparr>c_server_address := addr\<rparr>"
  have s: "serves bs ?ct" using assms(2) by (simp add: serves_def)
  show ?thesis
  proof (cases "client_ValidateMessageIntegrity msg len")
    case False
    then show ?thesis using assms(1) s by (simp add: client_OnReceive_def)
  next
    case True
    note g = assms(3) [unfolded genuine_def, rule_format, OF True]
    show ?thesis
      using assms(1) True s g unfolding client_OnReceive_def Let_def
      by (auto split: MessageId.splits intro: client_on_ntf_serves client_on_info_serves
          client_on_data_serves client_on_fin_serves client_on_cxl_serves)
  qed
qed

lemma client_feed_serves:
  assumes "client_feed cb ds ct = Inr ct'" "serves bs ct"
    and "\<And>d. d \<in> set ds \<Longrightarrow> genuine bs (del_msg d) (del_len d)"
  shows "serves bs ct'"
  using assms
proof (induction ds arbitrary: ct)
  case (Cons d ds)
  then obtain ct1 where ct1: "client_OnReceive Transaction_Thread cb (del_env d) (del_msg d) (del_len d)
      (del_addr d) ct = Inr ct1" "client_feed cb ds ct1 = Inr ct'"
    by (auto simp: bind_result_eq_Inr)
  have "serves bs ct1"
    using client_OnReceive_serves [OF ct1(1) Cons.prems(2)] Cons.prems(3) by simp
  then show ?case using Cons.IH ct1(2) Cons.prems(3) by simp
qed simp

text \<open>\<^verbatim>\<open>Begin\<close> with an accepted \<^verbatim>\<open>NTF\<close> starts such a transaction.\<close>

lemma client_Begin_CHK:
  assumes "client_Begin cb E msg len addr ct0 = Inr ct" "message_id (xid (header msg)) = NTF"
    and "c_thread ct \<noteq> No_Thread"
  shows "c_status ct = CHK" "c_packet_sequence_number ct = 0"
proof -
  let ?ct = "(Reset E (ct0\<lparr>c_is_active := True\<rparr>))\<lparr>c_server_address := addr\<rparr>"
  have reset: "c_packet_sequence_number ?ct = 0" "c_thread ?ct = No_Thread"
    by (simp_all add: Reset_def Reset_fields_def split: prod.splits)
  have "client_on_ntf Client_Thread E msg (len - sizeof_TrftpHeader) ?ct = Inr ct"
    using assms reset by (auto simp: client_Begin_def client_OnReceive_def Let_def split: if_splits)
  then obtain c where sent:
    "client_SendMessage E CHK (?ct\<lparr>c_status := NTF, c_new_file_version := c, c_thread := Loop_Test\<rparr>) = Inr ct"
    using assms(3) reset client_SendMessage_thread
    by (fastforce simp: client_on_ntf_def Let_def split: if_splits)
  then show "c_status ct = CHK" "c_packet_sequence_number ct = 0"
    using client_SendMessage_frame [OF sent] reset(1) by auto
qed

lemma client_Begin_serves:
  assumes "client_Begin cb E msg len addr ct0 = Inr ct" "message_id (xid (header msg)) = NTF"
    and "c_thread ct \<noteq> No_Thread"
  shows "serves bs ct"
  using client_Begin_CHK [OF assms] assms(3) by (simp add: serves_def stores_only_def)

section \<open>The server's datagrams\<close>

text \<open>A message as the client's socket hands it over (into a buffer \<open>cj\<close> of arbitrary
  content): a data packet or a control message of a transaction that sends \<open>bs\<close>.\<close>

definition from_server :: "byte list \<Rightarrow> TrftpMessage \<Rightarrow> nat \<Rightarrow> bool" where
  "from_server bs msg len \<longleftrightarrow>
     (\<exists>st j cj. wf_message j \<and> wf_message cj \<and> unat (s_new_file_size st) = length bs \<and>
       ((\<exists>k < packets_of bs. msg = recv_packet cj j bs st k \<and> len = 32 + slice_len (length bs) k) \<or>
        (\<exists>i \<in> {NTF, INFO, FIN, CXL}. msg = recv_into cj (server_image i j st) \<and>
           len = recv_len (server_image i j st))))"

lemma recv_packet_header:
  assumes "wf_message j" "wf_message cj" "unat (s_new_file_size st) = length bs" "k < packets_of bs"
  shows "message_id (xid (header (recv_packet cj j bs st k))) = DATA"
    and "unat (psn (header (recv_packet cj j bs st k))) = k"
    and "tpn (header (recv_packet cj j bs st k)) = header_tpn (s_new_file_size st)"
    and "psn (header (recv_packet cj j bs st k)) = of_nat k"
  using recv_packet_fields(1) [OF assms(1,2)] of_nat_packet_less(2) [of k "s_new_file_size st"] assms(3,4)
  by (simp_all add: data_packet_def packets_of_def del: xid_of.simps)

lemma from_server_cases:
  assumes "from_server bs msg len"
  obtains (data_case) st j cj k where "wf_message j" "wf_message cj" "unat (s_new_file_size st) = length bs"
      "k < packets_of bs" "msg = recv_packet cj j bs st k" "len = 32 + slice_len (length bs) k"
  | (control) st j cj i where "wf_message j" "wf_message cj" "unat (s_new_file_size st) = length bs"
      "i \<in> {NTF, INFO, FIN, CXL}" "msg = recv_into cj (server_image i j st)"
      "len = recv_len (server_image i j st)" "message_id (xid (header msg)) = i"
proof -
  obtain st j cj where f: "wf_message j" "wf_message cj" "unat (s_new_file_size st) = length bs"
    and alt: "(\<exists>k < packets_of bs. msg = recv_packet cj j bs st k \<and> len = 32 + slice_len (length bs) k) \<or>
        (\<exists>i \<in> {NTF, INFO, FIN, CXL}. msg = recv_into cj (server_image i j st) \<and>
           len = recv_len (server_image i j st))"
    using assms by (auto simp: from_server_def)
  have id: "message_id (xid (header (recv_into cj (server_image i j st)))) = i"
    if "i \<in> {NTF, INFO, FIN, CXL}" for i
    using server_image_received(2) [OF f(1,2), of i st] that by auto
  from alt show thesis
  proof
    assume "\<exists>k < packets_of bs. msg = recv_packet cj j bs st k \<and> len = 32 + slice_len (length bs) k"
    then show thesis using data_case f by blast
  next
    assume "\<exists>i \<in> {NTF, INFO, FIN, CXL}. msg = recv_into cj (server_image i j st) \<and>
           len = recv_len (server_image i j st)"
    then show thesis using control f id by blast
  qed
qed

text \<open>Everything the server of \<open>bs\<close> sends is genuine for \<open>bs\<close>.\<close>

lemma from_server_genuine:
  assumes "from_server bs msg len"
  shows "genuine bs msg len"
  using assms
proof (cases rule: from_server_cases)
  case (data_case st j cj k)
  have "take (slice_len (length bs) k) (payload msg) = slice bs (unat (psn (header msg)))"
    using recv_packet_fields(2) [OF data_case(1,2)] recv_packet_header(2) [OF data_case(1-4)] data_case(5) by simp
  then show ?thesis
    using recv_packet_header(1) [OF data_case(1-4)] data_case(5,6) by (simp add: genuine_def sizeof_defs)
next
  case (control st j cj i)
  then show ?thesis
    by (auto simp: genuine_def msg_info_received)
qed

text \<open>What a channel from the server of \<open>bs\<close> can deliver, in any order and any number: what the
  server sent, or something that fails the integrity check.\<close>

definition channel :: "byte list \<Rightarrow> delivery \<Rightarrow> bool" where
  "channel bs d \<longleftrightarrow>
     from_server bs (del_msg d) (del_len d) \<or> \<not> client_ValidateMessageIntegrity (del_msg d) (del_len d)"

lemma channel_genuine: "channel bs d \<Longrightarrow> genuine bs (del_msg d) (del_len d)"
  using from_server_genuine by (auto simp: channel_def genuine_def)

text \<open>A datagram damaged by a burst of up to four bytes is genuine too: it is dropped.\<close>

lemma damaged_genuine:
  assumes "wf_message j" "wf_message j'" "length w = length w'" "length w \<le> 4" "w \<noteq> w'"
    and "length (pre @ w @ post) \<le> 1440"
    and "clear_of_crc (length pre) (length w) \<or> within_crc (length pre) (length w)"
    and "client_ValidateMessageIntegrity (recv_into j (pre @ w @ post)) (recv_len (pre @ w @ post))"
  shows "genuine bs (recv_into j' (pre @ w' @ post)) (recv_len (pre @ w' @ post))"
  using client_check.validate_burst [OF assms(1-4,6,5,7,8)] by (simp add: genuine_def)

section \<open>Files that cannot be transferred\<close>

text \<open>The only way into \<open>DONE\<close>.\<close>

lemma client_OnReceive_DONE:
  assumes "client_OnReceive Transaction_Thread cb E msg len addr ct = Inr ct'"
    and "c_status ct' = DONE" "c_status ct \<noteq> DONE" "c_thread ct \<noteq> No_Thread"
  shows "client_ValidateMessageIntegrity msg len" "message_id (xid (header msg)) = DATA"
    "client_data_admissible msg (len - sizeof_TrftpHeader) ct"
    "psn (header msg) = c_packet_sequence_number ct"
    "c_packet_sequence_number ct + 1 = c_total_packet_number ct"
    "\<not> out_fail (c_new_file_stream ct)"
proof -
  let ?ct = "ct\<lparr>c_server_address := addr\<rparr>" and ?n = "len - sizeof_TrftpHeader"
  have cxl: "client_SendMessage E CXL c = Inr ct' \<Longrightarrow> False" for c
    using client_SendMessage_CXL(1) assms(2) by fastforce
  show v: "client_ValidateMessageIntegrity msg len"
    using assms(1-3) by (auto simp: client_OnReceive_def Let_def split: if_splits)
  have no_ntf: "client_on_ntf Transaction_Thread E msg ?n ?ct \<noteq> Inr ct'"
    using cxl assms(4) by (auto simp: client_on_ntf_def)
  have no_info: "client_on_info E msg ?n ?ct \<noteq> Inr ct'"
  proof
    assume "client_on_info E msg ?n ?ct = Inr ct'"
    then show False
    proof (cases rule: client_on_info_cases)
      case ready
      then show False using client_SendMessage_frame [OF ready(6)] assms(2) by auto
    qed (rule cxl)
  qed
  have no_fin: "client_on_fin cb E ?n ?ct \<noteq> Inr ct'"
    using cxl assms(2) by (auto simp: client_on_fin_def Let_def bind_result_eq_Inr split: option.splits)
  have no_cxl: "client_on_cxl E ?ct \<noteq> Inr ct'"
    using client_on_cxl_status(1) assms(2) by fastforce
  have d: "message_id (xid (header msg)) = DATA \<and> client_on_data E msg ?n ?ct = Inr ct'"
    using assms(1,2,3) v no_ntf no_info no_fin no_cxl
    by (auto simp: client_OnReceive_def Let_def split: MessageId.splits)
  then show "message_id (xid (header msg)) = DATA" ..
  have "client_data_admissible msg ?n ?ct \<and> psn (header msg) = c_packet_sequence_number ct \<and>
    c_packet_sequence_number ct + 1 = c_total_packet_number ct \<and> \<not> out_fail (c_new_file_stream ct)"
    using conjunct2 [OF d]
  proof (cases rule: client_on_data_cases)
    case (cancelled ct0)
    then show ?thesis using cxl by blast
  next
    case retransmit
    then show ?thesis using client_SendMessage_frame [OF retransmit(3)] assms(2,3) by auto
  next
    case stored
    then show ?thesis using assms(2) by (simp add: client_data_state_def)
  next
    case last
    then show ?thesis using client_data_state_ok [OF last(3)] by simp
  qed
  moreover have "client_data_admissible msg ?n ?ct = client_data_admissible msg ?n ct"
    by (simp add: client_data_admissible_def)
  ultimately show "client_data_admissible msg ?n ct" "psn (header msg) = c_packet_sequence_number ct"
    "c_packet_sequence_number ct + 1 = c_total_packet_number ct" "\<not> out_fail (c_new_file_stream ct)"
    by blast+
qed

lemma never_DONE_step:
  assumes "client_OnReceive Transaction_Thread cb E msg len addr ct = Inr ct'"
    and "serves bs ct" "c_status ct \<noteq> DONE"
    and "from_server bs msg len \<or> \<not> client_ValidateMessageIntegrity msg len"
    and bad: "length bs \<le> 1408 \<or> length bs mod 1408 = 0"
  shows "c_status ct' \<noteq> DONE"
proof
  assume done': "c_status ct' = DONE"
  have thr: "c_thread ct \<noteq> No_Thread" using assms(2) by (simp add: serves_def)
  note D = client_OnReceive_DONE [OF assms(1) done' assms(3) thr]
  have "c_status ct \<in> {RDY, DATA}"
    using D(3) by (auto simp: client_data_admissible_def split: if_splits)
  then obtain k where h: "holds_prefix bs k ct"
    using assms(2) D(6) by (auto simp: serves_def stores_only_def)
  then have psn: "unat (c_packet_sequence_number ct) = k" and size: "unat (c_new_file_size ct) = length bs"
    and tot: "unat (c_total_packet_number ct) = packets_of bs"
    by (simp_all add: holds_prefix_def client_receiving_def unat_client_packets packets_of_def)
  have "length bs \<noteq> 0"
    using h size by (auto simp: holds_prefix_def client_receiving_def simp flip: unat_eq_0)
  then have "packets_of bs \<noteq> 0"
    by (simp add: packets_of_def div_eq_0_iff)
  then have k: "Suc k = packets_of bs"
  proof -
    have "c_total_packet_number ct \<noteq> 0" using \<open>packets_of bs \<noteq> 0\<close> tot by auto
    then have "1 + c_packet_sequence_number ct \<noteq> 0" using D(5) by (simp add: add.commute)
    then have "unat (1 + c_packet_sequence_number ct) = Suc k" using psn by (simp add: unatSuc)
    then show ?thesis using D(5) tot by (simp add: add.commute)
  qed
  have "from_server bs msg len" using assms(4) D(1) by simp
  then show False
  proof (cases rule: from_server_cases)
    case (data_case st j cj i)
    have i: "i = k"
      using recv_packet_header(2) [OF data_case(1-4)] data_case(5) D(4) psn by simp
    have acc: "Suc k \<noteq> packets_of bs \<or> length bs mod 1408 \<noteq> 0"
      using data_packet_accepted [OF data_case(1-3)] data_case(4-6) D(1) i by (simp add: packets_of_def)
    with k bad have small: "length bs < 1408" by (cases "length bs = 1408") simp_all
    then have "k = 0" using k by (simp add: packets_of_def)
    then have "psn (header msg) = 0" using D(4) psn by (simp add: unat_eq_0)
    then have "len - sizeof_TrftpHeader = 1408"
      using D(3) by (simp add: client_data_admissible_def sizeof_payload_defs)
    then show False
      using data_case(6) small \<open>k = 0\<close> i by (simp add: sizeof_defs slice_len_def)
  next
    case (control st j cj i)
    then show False using D(2) by auto
  qed
qed

lemma never_DONE:
  assumes "client_feed cb ds ct = Inr ct'" "serves bs ct" "c_status ct \<noteq> DONE"
    and "\<And>d. d \<in> set ds \<Longrightarrow> channel bs d"
    and "length bs \<le> 1408 \<or> length bs mod 1408 = 0"
  shows "c_status ct' \<noteq> DONE"
  using assms
proof (induction ds arbitrary: ct)
  case (Cons d ds)
  then obtain ct1 where ct1: "client_OnReceive Transaction_Thread cb (del_env d) (del_msg d) (del_len d)
      (del_addr d) ct = Inr ct1" "client_feed cb ds ct1 = Inr ct'"
    by (auto simp: bind_result_eq_Inr)
  have fs: "channel bs d"
    using Cons.prems(4) by simp
  have "serves bs ct1"
    using client_OnReceive_serves [OF ct1(1) Cons.prems(2) channel_genuine [OF fs]] .
  moreover have "c_status ct1 \<noteq> DONE"
    using never_DONE_step [OF ct1(1) Cons.prems(2,3) fs [unfolded channel_def] Cons.prems(5)] .
  ultimately show ?case
    using Cons.IH ct1(2) Cons.prems(4,5) by simp
qed simp

end
