(* ===== verification/Replies.thy ===== *)
theory Replies
  imports Session
begin

text \<open>
  What the client's transaction sends in answer to a datagram: at most one message, of one of
  its five kinds, to the address the datagram came from. So a sequence of datagrams is answered
  one by one.
\<close>

definition replies :: "TrftpMessage \<Rightarrow> sockaddr_in \<Rightarrow> datagram list \<Rightarrow> bool" where
  "replies m addr ws \<longleftrightarrow>
     ws = [] \<or> (\<exists>i \<in> {CHK, RDY, RTX, DONE, CXL}. \<exists>x. ws = [(addr, client_image i m x)])"

lemma replies_none [simp]: "replies m addr []"
  by (simp add: replies_def)

text \<open>A \<^verbatim>\<open>DONE\<close> among them tells of the state the transaction is in afterwards.\<close>

definition same_file :: "ClientTransaction \<Rightarrow> ClientTransaction \<Rightarrow> bool" where
  "same_file x ct \<longleftrightarrow> c_new_file_version x = c_new_file_version ct \<and>
     c_new_file_size x = c_new_file_size ct \<and> c_new_file_crc32 x = c_new_file_crc32 ct"

definition reply_of :: "TrftpMessage \<Rightarrow> sockaddr_in \<Rightarrow> ClientTransaction \<Rightarrow> datagram \<Rightarrow> bool" where
  "reply_of m addr ct w \<longleftrightarrow>
     (\<exists>i \<in> {CHK, RDY, RTX, DONE, CXL}. \<exists>x. w = (addr, client_image i m x) \<and>
        (i = DONE \<longrightarrow> c_status ct = DONE \<and> same_file x ct))"

definition answers :: "TrftpMessage \<Rightarrow> ClientTransaction \<Rightarrow> ClientTransaction \<Rightarrow> bool" where
  "answers m ct ct' \<longleftrightarrow>
     (\<exists>ws. c_wire ct' = c_wire ct @ ws \<and> (ws = [] \<or> (\<exists>w. ws = [w] \<and> reply_of m (c_server_address ct) ct' w)))"

lemma answers_same: "c_wire ct' = c_wire ct \<Longrightarrow> answers m ct ct'"
  by (simp add: answers_def)

lemma answers_SendMessage:
  assumes "client_SendMessage E i ct = Inr ct'" "i \<in> {CHK, RDY, RTX, DONE, CXL}"
    and "c_wire ct = c_wire ct0" "c_server_address ct = c_server_address ct0"
  shows "answers (env_stack E) ct0 ct'"
  using client_SendMessage_Inr [OF assms(1,2)] assms(2-4)
  by (fastforce simp: answers_def reply_of_def same_file_def client_image_def client_message_def sizeof_defs
      split: prod.splits)

text \<open>The handlers. \<open>ct0\<close> is the transaction before the handler changed it.\<close>

lemma client_complete_answers:
  assumes "client_complete E ct = Inr ct'" "c_wire ct = c_wire ct0" "c_server_address ct = c_server_address ct0"
  shows "answers (env_stack E) ct0 ct'"
  using assms unfolding client_complete_def Let_def
  by (auto simp: bind_result_eq_Inr split: prod.splits if_splits dest: answers_SendMessage [of _ _ _ _ ct0])

lemma client_on_ntf_answers:
  "client_on_ntf by_thread E msg n ct = Inr ct' \<Longrightarrow> answers (env_stack E) ct ct'"
  unfolding client_on_ntf_def Let_def
  by (auto split: if_splits dest: answers_SendMessage [of _ _ _ _ ct])

lemma client_on_info_answers:
  "client_on_info E msg n ct = Inr ct' \<Longrightarrow> answers (env_stack E) ct ct'"
  unfolding client_on_info_def Let_def
  by (auto split: prod.splits if_splits dest: answers_SendMessage [of _ _ _ _ ct])

lemma client_on_data_answers:
  "client_on_data E msg n ct = Inr ct' \<Longrightarrow> answers (env_stack E) ct ct'"
  unfolding client_on_data_def Let_def
  by (auto split: if_splits dest: answers_SendMessage [of _ _ _ _ ct] client_complete_answers [of _ _ _ ct]
      intro: answers_same)

lemma client_on_fin_answers:
  "client_on_fin cb E n ct = Inr ct' \<Longrightarrow> answers (env_stack E) ct ct'"
  unfolding client_on_fin_def Let_def
  by (auto simp: bind_result_eq_Inr split: option.splits if_splits dest: answers_SendMessage [of _ _ _ _ ct]
      intro: answers_same)

lemma client_on_cxl_answers:
  "client_on_cxl E ct = Inr ct' \<Longrightarrow> answers (env_stack E) ct ct'"
  unfolding client_on_cxl_def Let_def
  by (auto split: prod.splits if_splits dest: answers_SendMessage [of _ _ _ _ ct])

lemma client_OnReceive_reply:
  assumes "client_OnReceive by_thread cb E msg len addr ct = Inr ct'"
  shows "\<exists>ws. c_wire ct' = c_wire ct @ ws \<and>
    (ws = [] \<or> (\<exists>w. ws = [w] \<and> reply_of (env_stack E) addr ct' w))"
proof -
  let ?c = "ct\<lparr>c_server_address := addr\<rparr>"
  have "answers (env_stack E) ?c ct'"
  proof (cases "client_ValidateMessageIntegrity msg len")
    case False
    then show ?thesis using assms by (simp add: client_OnReceive_def answers_same)
  next
    case True
    note handled = assms [unfolded client_OnReceive_def Let_def if_not_P [OF not_not [THEN iffD2, OF True]]]
    show ?thesis
    proof (cases "message_id (xid (header msg))")
      case NTF show ?thesis by (rule client_on_ntf_answers) (use handled NTF in simp)
    next
      case INFO show ?thesis by (rule client_on_info_answers) (use handled INFO in simp)
    next
      case DATA show ?thesis by (rule client_on_data_answers) (use handled DATA in simp)
    next
      case FIN show ?thesis by (rule client_on_fin_answers) (use handled FIN in simp)
    next
      case CXL show ?thesis by (rule client_on_cxl_answers) (use handled CXL in simp)
    qed (rule answers_same, use handled in simp)+
  qed
  then show ?thesis by (simp add: answers_def)
qed

lemma reply_of_replies: "reply_of m addr ct w \<Longrightarrow> replies m addr [w]"
  by (auto simp: reply_of_def replies_def)

lemma client_OnReceive_answers:
  assumes "client_OnReceive by_thread cb E msg len addr ct = Inr ct'"
  shows "\<exists>ws. c_wire ct' = c_wire ct @ ws \<and> replies (env_stack E) addr ws"
  using client_OnReceive_reply [OF assms] reply_of_replies by (auto simp: replies_none)

lemma client_image_nonempty: "wf_message m \<Longrightarrow> client_image i m ct \<noteq> []"
  using recv_len_client_image [of m i ct] by (auto simp: recv_len_def)

text \<open>A sequence of datagrams, with the answers to each.\<close>

lemma client_feed_answers:
  assumes "client_feed cb ds ct = Inr ct'"
  shows "\<exists>wss. c_wire ct' = c_wire ct @ concat wss \<and>
    list_all2 (\<lambda>d ws. replies (env_stack (del_env d)) (del_addr d) ws) ds wss"
  using assms
proof (induction ds arbitrary: ct)
  case (Cons d ds)
  then obtain ct1 where ct1: "client_OnReceive Transaction_Thread cb (del_env d) (del_msg d) (del_len d)
      (del_addr d) ct = Inr ct1" "client_feed cb ds ct1 = Inr ct'"
    by (auto simp: bind_result_eq_Inr)
  obtain ws where "c_wire ct1 = c_wire ct @ ws" "replies (env_stack (del_env d)) (del_addr d) ws"
    using client_OnReceive_answers [OF ct1(1)] by blast
  moreover obtain wss where "c_wire ct' = c_wire ct1 @ concat wss"
    "list_all2 (\<lambda>d ws. replies (env_stack (del_env d)) (del_addr d) ws) ds wss"
    using Cons.IH [OF ct1(2)] by blast
  ultimately show ?case
    by (intro exI [of _ "ws # wss"]) simp
qed simp

lemma replies_length: "replies m addr ws \<Longrightarrow> length ws \<le> 1"
  by (auto simp: replies_def)

lemma answers_at_most_one:
  assumes "list_all2 (\<lambda>d ws. replies (env_stack (del_env d)) (del_addr d) ws) ds wss"
  shows "length (concat wss) \<le> length ds"
  using assms by induction (auto dest: replies_length)

lemma answers_to_sender:
  assumes "list_all2 (\<lambda>d ws. replies (env_stack (del_env d)) (del_addr d) ws) ds wss" "w \<in> set (concat wss)"
  shows "\<exists>d \<in> set ds. fst w = del_addr d \<and>
    (\<exists>i \<in> {CHK, RDY, RTX, DONE, CXL}. \<exists>x. snd w = client_image i (env_stack (del_env d)) x)"
  using assms by induction (auto simp: replies_def)

end
