(* ===== verification/Wire_History.thy ===== *)
theory Wire_History
  imports Session
begin

text \<open>
  What a history of sent datagrams tells: the numbers of the data packets, in the order they
  were sent, and the packet numbers the client has asked for. Both are read off the bytes.
\<close>

definition sent_header :: "datagram \<Rightarrow> TrftpHeader" where
  "sent_header d = header_of_bytes (snd d)"

definition sent_psns :: "datagram list \<Rightarrow> nat list" where
  "sent_psns ws = map (\<lambda>d. unat (psn (sent_header d))) (filter (\<lambda>d. message_id (xid (sent_header d)) = DATA) ws)"

definition requested_psns :: "datagram list \<Rightarrow> nat list" where
  "requested_psns ws = map (\<lambda>d. unat (rtx_retransmit_psn (rtx_of_bytes (drop sizeof_TrftpHeader (snd d)))))
     (filter (\<lambda>d. message_id (xid (sent_header d)) = RTX) ws)"

lemma sent_psns_append [simp]: "sent_psns (ws @ vs) = sent_psns ws @ sent_psns vs"
  and requested_psns_append [simp]: "requested_psns (ws @ vs) = requested_psns ws @ requested_psns vs"
  by (simp_all add: sent_psns_def requested_psns_def)

lemma sent_psns_Nil [simp]: "sent_psns [] = []"
  and requested_psns_Nil [simp]: "requested_psns [] = []"
  by (simp_all add: sent_psns_def requested_psns_def)

text \<open>The header of a message that is sent with at least its header.\<close>

lemma sent_header_image:
  "32 \<le> len \<Longrightarrow> sent_header (a, send_image m len) = header m"
  by (simp add: sent_header_def send_image_def message_bytes_def header.dec_enc)

lemma sent_header_server: "sent_header (a, server_image i m st) = header (server_control i m st)"
  by (simp add: server_image_def sent_header_image)

lemma sent_header_client: "sent_header (a, client_image i m ct) = header (client_message i m ct)"
  by (simp add: client_image_def sent_header_image)

lemma sent_psns_control [simp]:
  "listed i \<Longrightarrow> i \<noteq> DATA \<Longrightarrow> sent_psns ((a, server_image i m st) # ws) = sent_psns ws"
  by (simp add: sent_psns_def sent_header_server server_control_eq)

lemma sent_psns_data:
  assumes "m \<le> packets_of bs" "unat (s_new_file_size st) = length bs"
  shows "sent_psns (map (data_datagram j bs st) [a ..< m]) = [a ..< m]"
proof -
  have h: "message_id (xid (sent_header (data_datagram j bs st k))) = DATA"
    "unat (psn (sent_header (data_datagram j bs st k))) = k" if "k < m" for k
    using that assms of_nat_packet_less(2) [of k "s_new_file_size st"]
    by (simp_all add: data_datagram_def sent_header_image data_packet_def packets_of_def del: xid_of.simps)
  have "filter (\<lambda>k. message_id (xid (sent_header (data_datagram j bs st k))) = DATA) [a ..< m] = [a ..< m]"
    using h(1) by (simp add: filter_id_conv)
  then have "sent_psns (map (data_datagram j bs st) [a ..< m]) =
      map (\<lambda>k. unat (psn (sent_header (data_datagram j bs st k)))) [a ..< m]"
    by (simp add: sent_psns_def filter_map comp_def)
  also have "\<dots> = [a ..< m]"
    by (rule map_idI) (simp add: h(2))
  finally show ?thesis .
qed

lemma requested_psns_image:
  assumes "wf_message m" "i \<in> {CHK, RDY, RTX, DONE, CXL}"
  shows "requested_psns ((a, client_image i m ct) # ws) =
    (if i = RTX then unat (c_packet_sequence_number ct) # requested_psns ws else requested_psns ws)"
proof -
  have "drop 32 (client_image RTX m ct) = take 4 (payload (client_message RTX m ct))"
    by (simp add: client_image_def send_image_def message_bytes_def sizeof_payload_defs)
  also have "\<dots> = rtx_bytes \<lparr>rtx_retransmit_psn = c_packet_sequence_number ct\<rparr>"
    using assms(1) by (simp add: client_message_eq sizeof_payload_defs rtx_codec.length_enc wire_simps)
  finally have "rtx_of_bytes (drop 32 (client_image RTX m ct)) = \<lparr>rtx_retransmit_psn = c_packet_sequence_number ct\<rparr>"
    using rtx_codec.dec_enc [of _ "[]"] by simp
  moreover have "message_id (xid (sent_header (a, client_image i m ct))) = i"
    using assms(2) by (auto simp: sent_header_client client_message_eq client_header_def simp del: xid_of.simps)
  ultimately show ?thesis
    by (simp add: requested_psns_def sizeof_defs)
qed

text \<open>The answers to the later packets of a burst: the same request each.\<close>

lemma requested_psns_requests:
  assumes "wf_message m" "\<forall>x \<in> set xs. unat (c_packet_sequence_number x) = k"
  shows "requested_psns (map (\<lambda>x. (a, client_image RTX m x)) xs) = replicate (length xs) k"
  using assms(2)
proof (induction xs)
  case (Cons x xs)
  then show ?case
    using requested_psns_image [OF assms(1), of RTX a x] by simp
qed simp

text \<open>
  What a file of \<open>p\<close> packets makes of losses \<open>(k, m)\<close>: packets up to \<open>m\<close> are sent, then the
  thread goes back to packet \<open>k\<close>; and every packet after \<open>k\<close> in the burst is answered by a
  request for \<open>k\<close>.
\<close>

fun psns_with_losses :: "nat \<Rightarrow> nat \<Rightarrow> (nat \<times> nat) list \<Rightarrow> nat list" where
  "psns_with_losses p a [] = [a ..< p]"
| "psns_with_losses p a ((k, m) # ls) = [a ..< m] @ psns_with_losses p k ls"

fun requests_for :: "(nat \<times> nat) list \<Rightarrow> nat list" where
  "requests_for [] = []"
| "requests_for ((k, m) # ls) = replicate (m - Suc k) k @ requests_for ls"

end
