(* ===== verification/Lossless.thy ===== *)
theory Lossless
  imports Wire_History
begin

text \<open>
  A transfer over a channel that delivers every datagram once and in order, between systems
  that do not fail: the handshake, the packets of the file, the acknowledgement and the
  delivery.
\<close>

section \<open>The client's handlers\<close>

definition good_env :: "env \<Rightarrow> bool" where
  "good_env E \<longleftrightarrow> 0 \<le> env_sendto E \<and> env_open E \<and> env_write E \<and> env_flush E = None \<and>
     wf_message (env_stack E)"

text \<open>A temporary file that is left from an earlier transfer can be read.\<close>

definition tmp_readable :: "path \<Rightarrow> filesystem \<Rightarrow> bool" where
  "tmp_readable p fs \<longleftrightarrow> (\<forall>f. fs p = Some f \<longrightarrow> readable f)"

lemma tmp_readable_close:
  "tmp_readable p fs \<Longrightarrow> ofstream_close flush s fs = (s', fs') \<Longrightarrow> tmp_readable p fs'"
  by (auto simp: tmp_readable_def ofstream_close_def split: if_splits option.splits)

lemma client_SendMessage_ok:
  assumes "i \<in> {CHK, RDY, RTX, DONE, CXL}" "0 \<le> env_sendto E" "0 \<le> fd (c_udp_socket ct)"
  shows "client_SendMessage E i ct = Inr ((client_sent_status i ct)
    \<lparr>c_wire := c_wire ct @ [(c_server_address ct, client_image i (env_stack E) ct)]\<rparr>)"
  using assms
  by (auto simp: client_SendMessage_def udp_Send_def client_image_def client_sent_status_def sizeof_defs Let_def)

text \<open>After the \<^verbatim>\<open>NTF\<close>.\<close>

definition checked :: "ServerTransaction \<Rightarrow> ClientTransaction \<Rightarrow> bool" where
  "checked st ct \<longleftrightarrow>
     c_status ct = CHK \<and> c_is_active ct \<and> c_thread ct \<noteq> No_Thread \<and>
     c_new_file_version ct = s_new_file_version st \<and> c_packet_sequence_number ct = 0 \<and>
     \<not> out_open (c_new_file_stream ct) \<and> 0 \<le> fd (c_udp_socket ct) \<and>
     tmp_readable (c_new_file_path ct) (c_files ct)"

lemma Reset_idle:
  assumes "tmp_readable (temp_file (env_tmp E)) (c_files ct)"
  shows "\<not> out_open (c_new_file_stream (Reset E ct))"
    and "c_packet_sequence_number (Reset E ct) = 0" "c_thread (Reset E ct) = No_Thread"
    and "c_is_active (Reset E ct) = c_is_active ct" "c_udp_socket (Reset E ct) = c_udp_socket ct"
    and "c_wire (Reset E ct) = c_wire ct"
    and "tmp_readable (c_new_file_path (Reset E ct)) (c_files (Reset E ct))"
proof -
  obtain s fs where cl: "ofstream_close (env_flush E) (c_new_file_stream ct) (c_files ct) = (s, fs)"
    by fastforce
  have "\<not> out_open s"
    using cl by (auto simp: ofstream_close_def split: if_splits)
  then show "\<not> out_open (c_new_file_stream (Reset E ct))"
    "c_packet_sequence_number (Reset E ct) = 0" "c_thread (Reset E ct) = No_Thread"
    "c_is_active (Reset E ct) = c_is_active ct" "c_udp_socket (Reset E ct) = c_udp_socket ct"
    "c_wire (Reset E ct) = c_wire ct"
    "tmp_readable (c_new_file_path (Reset E ct)) (c_files (Reset E ct))"
    using tmp_readable_close [OF assms cl] by (simp_all add: Reset_def Reset_fields_def cl)
qed

lemma client_gets_NTF:
  assumes "wf_message m" "wf_message j" "good_env E" "0 \<le> fd (c_udp_socket ct)"
    and "tmp_readable (temp_file (env_tmp E)) (c_files ct)"
  shows "\<exists>ct' x. client_Begin cb E (recv_into j (server_image NTF m st))
      (recv_len (server_image NTF m st)) addr ct = Inr ct' \<and>
    checked st ct' \<and> c_thread ct' = Loop_Test \<and>
    c_wire ct' = c_wire ct @ [(addr, client_image CHK (env_stack E) x)]"
proof -
  note r = server_image_received [OF assms(1,2), of NTF st]
  note R = Reset_idle [of E "ct\<lparr>c_is_active := True\<rparr>", simplified, OF assms(5)]
  let ?r = "Reset E (ct\<lparr>c_is_active := True\<rparr>)"
  let ?c = "?r\<lparr>c_server_address := addr, c_status := NTF,
    c_new_file_version := s_new_file_version st, c_thread := Loop_Test\<rparr>"
  have "client_Begin cb E (recv_into j (server_image NTF m st)) (recv_len (server_image NTF m st)) addr ct
      = client_SendMessage E CHK ?c"
    using r R
    by (simp add: client_Begin_def client_OnReceive_def client_on_ntf_def
        recv_len_server_image [OF assms(1)] msg_ntf_received [OF assms(1,2)] sizeof_defs sizeof_payload_defs)
  also have "\<dots> = Inr ((client_sent_status CHK ?c)
      \<lparr>c_wire := c_wire ct @ [(addr, client_image CHK (env_stack E) ?c)]\<rparr>)"
    by (subst client_SendMessage_ok) (use assms(3,4) R in \<open>simp_all add: good_env_def\<close>)
  finally show ?thesis
    using R assms(4) by (intro exI conjI) (assumption, simp_all add: checked_def)
qed

text \<open>While the packets arrive.\<close>

definition receiving :: "byte list \<Rightarrow> ServerTransaction \<Rightarrow> nat \<Rightarrow> ClientTransaction \<Rightarrow> bool" where
  "receiving bs st k ct \<longleftrightarrow>
     holds_prefix bs k ct \<and> c_is_active ct \<and>
     c_new_file_version ct = s_new_file_version st \<and> c_new_file_size ct = s_new_file_size st \<and>
     c_new_file_crc32 ct = s_new_file_crc32 st \<and> 0 \<le> fd (c_udp_socket ct) \<and>
     (\<exists>f. c_files ct (c_new_file_path ct) = Some f \<and> readable f)"

lemma client_gets_INFO:
  assumes "wf_message m" "wf_message j" "good_env E" "checked st ct"
    and "unat (s_new_file_size st) = length bs" "bs \<noteq> []"
  shows "\<exists>ct' x. client_OnReceive Transaction_Thread cb E (recv_into j (server_image INFO m st))
      (recv_len (server_image INFO m st)) addr ct = Inr ct' \<and>
    receiving bs st 0 ct' \<and> c_wire ct' = c_wire ct @ [(addr, client_image RDY (env_stack E) x)]"
proof -
  note r = server_image_received [OF assms(1,2), of INFO st]
  have nz: "s_new_file_size st \<noteq> 0"
    using assms(5,6) by auto
  define p where "p = c_new_file_path ct"
  have rd: "tmp_readable p (c_files ct)" and idle: "\<not> out_open (c_new_file_stream ct)"
    and c: "c_status ct = CHK" "c_new_file_version ct = s_new_file_version st"
      "c_packet_sequence_number ct = 0" "0 \<le> fd (c_udp_socket ct)" "c_is_active ct"
    using assms(4) by (simp_all add: checked_def p_def)
  define fs where "fs = (c_files ct)(p \<mapsto> \<lparr>content = [],
      readable = (case c_files ct p of None \<Rightarrow> True | Some f \<Rightarrow> readable f)\<rparr>)"
  have fs: "\<exists>f. fs p = Some f \<and> readable f"
    using rd by (simp add: fs_def tmp_readable_def split: option.splits)
  have op: "ofstream_open p (env_open E) (c_new_file_stream ct) (c_files ct)
      = (\<lparr>out_open = True, out_fail = False, out_path = p, out_data = []\<rparr>, fs)"
    using idle assms(3) by (simp add: ofstream_open_def good_env_def fs_def)
  let ?c = "ct\<lparr>c_server_address := addr, c_status := INFO, c_new_file_size := s_new_file_size st,
    c_new_file_crc32 := s_new_file_crc32 st,
    c_total_packet_number := client_packets (s_new_file_size st),
    c_new_file_stream := \<lparr>out_open = True, out_fail = False, out_path = p, out_data = []\<rparr>, c_files := fs\<rparr>"
  have "client_OnReceive Transaction_Thread cb E (recv_into j (server_image INFO m st))
      (recv_len (server_image INFO m st)) addr ct = client_SendMessage E RDY ?c"
    using r c nz op
    by (simp add: client_OnReceive_def client_on_info_def recv_len_server_image [OF assms(1)]
        msg_info_received [OF assms(1,2)] sizeof_defs sizeof_payload_defs p_def)
  also have "\<dots> = Inr ((client_sent_status RDY ?c)
      \<lparr>c_wire := c_wire ct @ [(addr, client_image RDY (env_stack E) ?c)]\<rparr>)"
    by (subst client_SendMessage_ok) (use assms(3) c in \<open>simp_all add: good_env_def\<close>)
  finally show ?thesis
    using c fs nz assms(5)
    by (intro exI conjI)
      (assumption, simp_all add: receiving_def holds_prefix_def client_receiving_def p_def)
qed

text \<open>A packet that is next in order is stored.\<close>

lemma client_stores_packet:
  assumes "receiving bs st k ct" "good_env E" "k < packets_of bs"
    and "take n (payload msg) = slice bs k" "psn (header msg) = of_nat k" "unat (psn (header msg)) = k"
    and "client_data_admissible msg n ct"
  shows "receiving bs st (Suc k) (client_data_state E msg n ct) \<or> Suc k = packets_of bs"
    and "holds_prefix bs (Suc k) (client_data_state E msg n ct)"
    and "client_on_data E msg n ct =
      (if Suc k = packets_of bs then client_complete E (client_data_state E msg n ct)
       else Inr (client_data_state E msg n ct))"
proof -
  have h: "holds_prefix bs k ct" using assms(1) by (simp add: receiving_def)
  have open': "out_open (c_new_file_stream ct)" "\<not> out_fail (c_new_file_stream ct)"
    using h by (simp_all add: holds_prefix_def client_receiving_def)
  have ok: "\<not> out_fail (c_new_file_stream (client_data_state E msg n ct))"
    using open' assms(2) by (simp add: client_data_state_def ofstream_write_def good_env_def)
  show h': "holds_prefix bs (Suc k) (client_data_state E msg n ct)"
    by (rule holds_prefix_data_state [OF h assms(3,4) ok])
  show "receiving bs st (Suc k) (client_data_state E msg n ct) \<or> Suc k = packets_of bs"
    using h' assms(1) by (simp add: receiving_def client_data_state_def)
  have psn: "psn (header msg) = c_packet_sequence_number ct"
    using h assms(6) by (simp add: holds_prefix_def word_unat_eq_iff)
  have tot: "unat (c_total_packet_number ct) = packets_of bs"
    using h by (simp add: holds_prefix_def client_receiving_def unat_client_packets packets_of_def)
  have "unat (c_packet_sequence_number ct + 1) = Suc k"
    using h' by (simp add: holds_prefix_def client_data_state_def)
  then have "c_packet_sequence_number ct + 1 = c_total_packet_number ct \<longleftrightarrow> Suc k = packets_of bs"
    using tot by (metis word_unat_eq_iff)
  then show "client_on_data E msg n ct =
      (if Suc k = packets_of bs then client_complete E (client_data_state E msg n ct)
       else Inr (client_data_state E msg n ct))"
    using assms(7) psn ok by (simp add: client_on_data_def client_data_state_def)
qed

text \<open>A file the client can receive.\<close>

definition transferable :: "byte list \<Rightarrow> bool" where
  "transferable bs \<longleftrightarrow> 1408 < length bs \<and> length bs mod 1408 \<noteq> 0"

lemma packet_admissible:
  assumes "receiving bs st k ct" "transferable bs" "wf_message j" "wf_message cj"
    and "unat (s_new_file_size st) = length bs" "k < packets_of bs"
  shows "client_data_admissible (recv_packet cj j bs st k) (slice_len (length bs) k) ct"
proof -
  note hd = recv_packet_header [OF assms(3-6)]
  have h: "c_status ct = (if k = 0 then RDY else DATA)" "unat (c_new_file_size ct) = length bs"
    using assms(1,5) by (simp_all add: receiving_def holds_prefix_def)
  have ne: "s_new_file_size st \<noteq> 0" using assms(2,5) by (auto simp: transferable_def)
  then have tpn: "unat (header_tpn (s_new_file_size st)) = packets_of bs"
    using assms(5) by (simp add: unat_header_tpn packets_of_def)
  have lt: "of_nat k < header_tpn (s_new_file_size st)"
    using of_nat_packet_less(1) [of k "s_new_file_size st"] assms(5,6) by (simp add: packets_of_def)
  have last: "of_nat k < header_tpn (s_new_file_size st) - 1 \<longleftrightarrow> Suc k \<noteq> packets_of bs"
  proof -
    have "0 < header_tpn (s_new_file_size st)" by (rule header_tpn_pos)
    then have "unat (header_tpn (s_new_file_size st) - 1) = packets_of bs - 1"
      using tpn by (simp add: unat_minus_1)
    then show ?thesis
      using hd(2,4) assms(6) by (auto simp: word_less_nat_alt)
  qed
  have zero: "psn (header (recv_packet cj j bs st k)) = 0 \<longleftrightarrow> k = 0"
    using hd(2) by (metis unat_eq_0)
  have two: "1 < packets_of bs" using assms(2) unfolding transferable_def packets_of_def by linarith
  have full: "slice_len (length bs) k = 1408" if "Suc k \<noteq> packets_of bs"
    using that assms(6) by (intro slice_len_full) (simp add: packets_of_def)
  have tail: "slice_len (length bs) k = length bs mod 1408" if "Suc k = packets_of bs"
    using that assms(2) by (intro slice_len_last) (simp_all add: packets_of_def transferable_def)
  show ?thesis
  proof (cases "k = 0")
    case True
    then show ?thesis
      using zero h full two by (simp add: client_data_admissible_def sizeof_payload_defs)
  next
    case False
    then show ?thesis
      using zero h full tail last hd(3,4)
      by (simp add: client_data_admissible_def sizeof_payload_defs sizeof_defs)
  qed
qed

text \<open>The acknowledged transaction.\<close>

definition acknowledged :: "byte list \<Rightarrow> ServerTransaction \<Rightarrow> ClientTransaction \<Rightarrow> bool" where
  "acknowledged bs st ct \<longleftrightarrow>
     c_status ct = DONE \<and> c_is_active ct \<and> 0 \<le> fd (c_udp_socket ct) \<and>
     c_new_file_version ct = s_new_file_version st \<and>
     (\<exists>f. c_files ct (c_new_file_path ct) = Some f \<and> content f = bs)"

lemma client_completes:
  assumes "holds_prefix bs k ct" "packets_of bs \<le> k" "good_env E" "0 \<le> fd (c_udp_socket ct)"
    and "\<exists>f. c_files ct (c_new_file_path ct) = Some f \<and> readable f"
    and "c_new_file_crc32 ct = CalculateCrc32 bs (length bs) 0"
  shows "\<exists>fs s. client_complete E ct = Inr (ct\<lparr>c_new_file_stream := s, c_files := fs, c_status := DONE,
      c_wire := c_wire ct @ [(c_server_address ct, client_image DONE (env_stack E) ct)]\<rparr>) \<and>
    (\<exists>f. fs (c_new_file_path ct) = Some f \<and> content f = bs)"
proof -
  have op: "out_open (c_new_file_stream ct)" and p: "out_path (c_new_file_stream ct) = c_new_file_path ct"
    and d: "out_data (c_new_file_stream ct) = bs" and sz: "unat (c_new_file_size ct) = length bs"
    using assms(1) take_packets_of [OF assms(2)] by (auto simp: holds_prefix_def client_receiving_def)
  define fs where "fs = (c_files ct)(c_new_file_path ct \<mapsto> \<lparr>content = bs, readable = True\<rparr>)"
  obtain s where cl: "ofstream_close (env_flush E) (c_new_file_stream ct) (c_files ct) = (s, fs)"
    using op p d assms(3,5) by (auto simp: ofstream_close_def good_env_def fs_def)
  let ?c = "ct\<lparr>c_new_file_stream := s, c_files := fs\<rparr>"
  have f: "fs (c_new_file_path ct) = Some \<lparr>content = bs, readable = True\<rparr>"
    by (simp add: fs_def)
  have "CalculateFileCrc32 (c_new_file_path ct) fs = c_new_file_crc32 ct"
    using CalculateFileCrc32_content [of fs "c_new_file_path ct", OF f] assms(6) by simp
  then have "client_complete E ct = client_SendMessage E DONE ?c"
    using f sz by (simp add: client_complete_def cl fs_file_size_def)
  also have "\<dots> = Inr ((client_sent_status DONE ?c)
      \<lparr>c_wire := c_wire ct @ [(c_server_address ct, client_image DONE (env_stack E) ?c)]\<rparr>)"
    by (subst client_SendMessage_ok) (use assms(3,4) in \<open>simp_all add: good_env_def\<close>)
  also have "client_image DONE (env_stack E) ?c = client_image DONE (env_stack E) ct"
    by (simp add: client_image_def client_message_def)
  finally show ?thesis
    using f by (intro exI [of _ fs] exI [of _ s]) (simp add: client_sent_status_def)
qed

lemma client_gets_packet:
  assumes rec: "receiving bs st k ct" and E: "good_env E" and tr: "transferable bs"
    and wf: "wf_message j" "wf_message cj" and size: "unat (s_new_file_size st) = length bs"
    and k: "k < packets_of bs"
  shows "client_OnReceive Transaction_Thread cb E (recv_packet cj j bs st k)
      (32 + slice_len (length bs) k) addr ct =
    client_on_data E (recv_packet cj j bs st k) (slice_len (length bs) k) (ct\<lparr>c_server_address := addr\<rparr>)"
  using data_packet_accepted [OF wf size] k tr recv_packet_header(1) [OF wf size k]
  by (simp add: client_OnReceive_def sizeof_defs packets_of_def transferable_def)

lemma receiving_frame [simp]:
  "receiving bs st k (ct\<lparr>c_server_address := a\<rparr>) = receiving bs st k ct"
  "receiving bs st k (ct\<lparr>c_thread := t\<rparr>) = receiving bs st k ct"
  by (simp_all add: receiving_def)

lemma checked_thread [simp]: "t \<noteq> No_Thread \<Longrightarrow> checked st ct \<Longrightarrow> checked st (ct\<lparr>c_thread := t\<rparr>)"
  by (simp add: checked_def)

text \<open>Feeding the packets from \<open>k\<close> on.\<close>

definition packet_delivery ::
  "env \<Rightarrow> TrftpMessage \<Rightarrow> TrftpMessage \<Rightarrow> sockaddr_in \<Rightarrow> byte list \<Rightarrow> ServerTransaction \<Rightarrow> nat \<Rightarrow> delivery" where
  "packet_delivery E cj j addr bs st k =
     \<lparr>del_env = E, del_msg = recv_packet cj j bs st k, del_len = 32 + slice_len (length bs) k,
      del_addr = addr\<rparr>"

lemma client_feed_packets:
  assumes "receiving bs st k ct" "k < packets_of bs" "m = packets_of bs - k"
    and "good_env E" "transferable bs" "wf_message j" "wf_message cj"
    and "unat (s_new_file_size st) = length bs"
    and "s_new_file_crc32 st = CalculateCrc32 bs (length bs) 0"
  shows "\<exists>ct' x. client_feed cb (map (packet_delivery E cj j addr bs st) [k ..< packets_of bs]) ct = Inr ct' \<and>
    acknowledged bs st ct' \<and> c_wire ct' = c_wire ct @ [(addr, client_image DONE (env_stack E) x)] \<and>
    c_new_file_version x = s_new_file_version st \<and> c_new_file_size x = s_new_file_size st \<and>
    c_new_file_crc32 x = s_new_file_crc32 st"
  using assms(1-3)
proof (induction m arbitrary: k ct)
  case 0
  then show ?case by simp
next
  case (Suc m)
  note assms = assms(4-9)
  let ?msg = "recv_packet cj j bs st k" and ?n = "slice_len (length bs) k"
  let ?ct = "ct\<lparr>c_server_address := addr\<rparr>"
  have rec: "receiving bs st k ?ct" using Suc.prems(1) by simp
  note hd = recv_packet_header [OF assms(3,4,5) Suc.prems(2)]
  have bytes: "take ?n (payload ?msg) = slice bs k"
    by (rule recv_packet_fields(2) [OF assms(3,4)])
  have adm: "client_data_admissible ?msg ?n ?ct"
    by (rule packet_admissible [OF rec assms(2,3,4,5) Suc.prems(2)])
  note stored = client_stores_packet [OF rec assms(1) Suc.prems(2) bytes hd(4,2) adm]
  let ?c = "client_data_state E ?msg ?n ?ct"
  have step: "client_feed cb (map (packet_delivery E cj j addr bs st) [k ..< packets_of bs]) ct =
    bind_result (client_on_data E ?msg ?n ?ct)
      (client_feed cb (map (packet_delivery E cj j addr bs st) [Suc k ..< packets_of bs]))"
    using Suc.prems(2) client_gets_packet [OF Suc.prems(1) assms(1,2,3,4,5) Suc.prems(2)]
    by (simp add: upt_conv_Cons packet_delivery_def)
  have wire: "c_wire ?c = c_wire ct"
    by (simp add: client_data_state_def)
  show ?case
  proof (cases "Suc k = packets_of bs")
    case False
    then have "receiving bs st (Suc k) ?c" "Suc k < packets_of bs" "m = packets_of bs - Suc k"
      using stored(1) Suc.prems(2,3) by auto
    from Suc.IH [OF this] show ?thesis
      using step stored(3) False wire by simp
  next
    case True
    have c: "0 \<le> fd (c_udp_socket ?c)" "\<exists>f. c_files ?c (c_new_file_path ?c) = Some f \<and> readable f"
      "c_new_file_crc32 ?c = CalculateCrc32 bs (length bs) 0"
      using rec assms(6) by (simp_all add: receiving_def client_data_state_def)
    obtain fs s where done': "client_complete E ?c = Inr (?c\<lparr>c_new_file_stream := s, c_files := fs,
        c_status := DONE,
        c_wire := c_wire ?c @ [(c_server_address ?c, client_image DONE (env_stack E) ?c)]\<rparr>)"
      and f: "\<exists>f. fs (c_new_file_path ?c) = Some f \<and> content f = bs"
      using client_completes [OF stored(2) _ assms(1) c] True by auto
    have x: "c_new_file_version ?c = s_new_file_version st" "c_new_file_size ?c = s_new_file_size st"
      "c_new_file_crc32 ?c = s_new_file_crc32 st" "c_is_active ?c"
      "c_server_address ?c = addr"
      using rec by (simp_all add: receiving_def client_data_state_def)
    have "client_feed cb (map (packet_delivery E cj j addr bs st) [k ..< packets_of bs]) ct =
      Inr (?c\<lparr>c_new_file_stream := s, c_files := fs, c_status := DONE,
        c_wire := c_wire ct @ [(addr, client_image DONE (env_stack E) ?c)]\<rparr>)"
      using step stored(3) True done' wire x(5) by simp
    then show ?thesis
      using x f c(1) by (intro exI conjI) (assumption, simp_all add: acknowledged_def)
  qed
qed

lemma client_gets_FIN:
  assumes "wf_message m" "wf_message j" "acknowledged bs st0 ct"
  shows "client_OnReceive Transaction_Thread cb E (recv_into j (server_image FIN m st))
      (recv_len (server_image FIN m st)) addr ct =
    (let ct' = ct\<lparr>c_server_address := addr, c_status := FIN, c_is_active := False\<rparr>
     in case cb of
          None \<Rightarrow> Inr ct'
        | Some h \<Rightarrow> bind_result (h (c_new_file_path ct) (s_new_file_version st0) (c_files ct))
                      (\<lambda>fs. Inr (ct'\<lparr>c_files := fs\<rparr>)))"
  using server_image_received(1,2) [OF assms(1,2), of FIN st] assms(3)
  by (simp add: client_OnReceive_def client_on_fin_def recv_len_server_image [OF assms(1)] sizeof_defs
      acknowledged_def Let_def split: option.splits)

section \<open>The whole session\<close>

text \<open>The peers in turn, each handed the last datagram of the other; the server's side goes on
  as \<^verbatim>\<open>StartFileTransfer\<close> does, with an error where that would give up. \<open>cj\<close> and \<open>j\<close> are the
  uninitialised receive buffers, \<open>caddr\<close> and \<open>saddr\<close> the addresses the datagrams come from.\<close>

record link =
  l_sock :: UdpSocket
  l_senv :: senv
  l_env :: env
  l_cj :: TrftpMessage
  l_j :: TrftpMessage
  l_caddr :: sockaddr_in
  l_saddr :: sockaddr_in

definition good_link :: "link \<Rightarrow> bool" where
  "good_link L \<longleftrightarrow> sends (l_sock L) (l_senv L) \<and> wf_message (senv_stack (l_senv L)) \<and>
     good_env (l_env L) \<and> wf_message (l_cj L) \<and> wf_message (l_j L)"

definition client_gets ::
  "link \<Rightarrow> on_file_received \<Rightarrow> datagram list \<Rightarrow> ClientTransaction \<Rightarrow> ClientTransaction result" where
  "client_gets L cb wire ct =
     client_OnReceive Transaction_Thread cb (l_env L) (recv_into (l_cj L) (snd (last wire)))
       (recv_len (snd (last wire))) (l_saddr L) ct"

definition server_gets :: "link \<Rightarrow> datagram list \<Rightarrow> ServerTransaction \<Rightarrow> ServerTransaction" where
  "server_gets L wire st =
     server_OnReceive (recv_into (l_j L) (snd (last wire))) (recv_len (snd (last wire))) (l_caddr L) st"

definition expect :: "FtpStatus \<Rightarrow> ServerTransaction \<Rightarrow> ServerTransaction result" where
  "expect i st = (if s_status st = i then Inr st else Inl (Runtime_Error ''Unexpected status''))"

definition session_handshake ::
  "link \<Rightarrow> on_file_received \<Rightarrow> ServerTransaction \<Rightarrow> ClientTransaction \<Rightarrow>
   (ServerTransaction \<times> ClientTransaction) result" where
  "session_handshake L cb st ct =
     bind_result (server_SendMessage (l_sock L) (l_senv L) NTF st) (\<lambda>st.
     bind_result (client_Begin cb (l_env L) (recv_into (l_cj L) (snd (last (s_wire st))))
                    (recv_len (snd (last (s_wire st)))) (l_saddr L) ct) (\<lambda>ct.
     bind_result (expect CHK (server_gets L (c_wire ct) st)) (\<lambda>st.
     bind_result (server_SendMessage (l_sock L) (l_senv L) INFO st) (\<lambda>st.
     bind_result (client_gets L cb (s_wire st) ct) (\<lambda>ct.
     bind_result (expect RDY (server_gets L (c_wire ct) st)) (\<lambda>st.
     bind_result (server_SendMessage (l_sock L) (l_senv L) DATA st) (\<lambda>st.
     Inr (st, ct))))))))"

definition delivered :: "link \<Rightarrow> datagram \<Rightarrow> delivery" where
  "delivered L d = \<lparr>del_env = l_env L, del_msg = recv_into (l_cj L) (snd d),
     del_len = recv_len (snd d), del_addr = l_saddr L\<rparr>"

definition session_data ::
  "link \<Rightarrow> on_file_received \<Rightarrow> nat \<Rightarrow> ServerTransaction \<times> ClientTransaction \<Rightarrow>
   (ServerTransaction \<times> ClientTransaction) result" where
  "session_data L cb fuel s =
     bind_result (sender_run (l_sock L) (l_senv L) fuel (fst s)) (\<lambda>st.
     bind_result
       (client_feed cb
          (map (delivered L) (drop (length (s_wire (fst s))) (s_wire st))) (snd s)) (\<lambda>ct.
     Inr (st, ct)))"

definition session_finish ::
  "link \<Rightarrow> ServerTransaction \<times> ClientTransaction \<Rightarrow> (ServerTransaction \<times> ClientTransaction) result" where
  "session_finish L s =
     bind_result (expect DONE (server_gets L (c_wire (snd s)) (fst s))) (\<lambda>st.
     bind_result (server_SendMessage (l_sock L) (l_senv L) FIN st) (\<lambda>st.
     Inr (st, snd s)))"

text \<open>A new transaction that sends \<open>bs\<close>.\<close>

definition prepared :: "byte list \<Rightarrow> link \<Rightarrow> ServerTransaction \<Rightarrow> bool" where
  "prepared bs L st \<longleftrightarrow>
     server_inv st \<and> s_thr st = Not_Started \<and> s_packet_sequence_number st = 0 \<and>
     s_retransmit_psn st = no_rtx \<and> unat (s_new_file_size st) = length bs \<and>
     unat (s_total_packet_number st) = packets_of bs \<and>
     s_new_file_crc32 st = CalculateCrc32 bs (length bs) 0 \<and>
     (\<exists>f. senv_files (l_senv L) (s_file_path st) = Some f \<and> readable f \<and> content f = bs)"

lemma prepared_new:
  assumes "ServerTransaction_new addr p v d fs = Inr st"
    and "fs p = Some f" "readable f" "senv_files (l_senv L) = fs"
    and "length (content f) + 1407 < 2 ^ 32"
  shows "prepared (content f) L st"
proof -
  have n: "unat (of_nat (length (content f)) :: u32) = length (content f)"
    using assms(5) by (simp add: unsigned_of_nat take_bit_nat_eq_self)
  have nw: "no_wrap (of_nat (length (content f)))"
    using assms(5) n by (simp add: no_wrap_def)
  have st: "s_new_file_size st = of_nat (length (content f))" "s_file_path st = p" "s_thr st = Not_Started"
    "s_total_packet_number st = server_packets (of_nat (length (content f)))"
    "s_packet_sequence_number st = 0" "s_retransmit_psn st = no_rtx"
    "s_new_file_crc32 st = CalculateFileCrc32 p fs"
    using assms(1,2) by (auto simp: ServerTransaction_new_def bind_result_eq_Inr fs_file_size_def)
  show ?thesis
    using server_inv_new [OF assms(1)] st n server_packets_no_wrap [OF nw] assms(2-4)
      CalculateFileCrc32_content [of fs p, OF assms(2,3)]
    by (simp add: prepared_def packets_of_def)
qed

lemma server_SendMessage_ok:
  assumes "i \<in> {NTF, INFO, FIN, CXL}" "sends sock E"
  shows "server_SendMessage sock E i st = Inr (st\<lparr>s_status := i,
    s_wire := s_wire st @ [(s_client_address st, server_image i (senv_stack E) st)]\<rparr>)"
proof -
  have "server_payload i (st\<lparr>s_status := i\<rparr>) = server_payload i st"
    "server_control i (senv_stack E) (st\<lparr>s_status := i\<rparr>) = server_control i (senv_stack E) st"
    using assms(1) by (auto simp: server_control_def CompleteHeader_def)
  then show ?thesis
    using assms by (auto simp: server_SendMessage_def sends_def udp_Send_def server_image_def sizeof_defs)
qed

text \<open>What the handshake changes in the server's transaction.\<close>

definition started :: "ServerTransaction \<Rightarrow> ServerTransaction \<Rightarrow> bool" where
  "started st st' \<longleftrightarrow>
     (\<exists>a g w v. st' = st\<lparr>s_client_address := a, s_inter_packet_gap := g, s_wire := w,
        s_cur_file_version := v, s_status := DATA, s_thr := Opening\<rparr> \<and> 100 \<le> g \<and> g \<le> 300 \<and>
        sent_psns w = sent_psns (s_wire st))"

lemma started_same:
  assumes "started st st'"
  shows "s_new_file_size st' = s_new_file_size st" "s_total_packet_number st' = s_total_packet_number st"
    "s_packet_sequence_number st' = s_packet_sequence_number st"
    "s_retransmit_psn st' = s_retransmit_psn st" "s_new_file_crc32 st' = s_new_file_crc32 st"
    "s_new_file_version st' = s_new_file_version st" "s_file_path st' = s_file_path st"
    "s_thr st' = Opening" "100 \<le> s_inter_packet_gap st'" "s_inter_packet_gap st' \<le> 300"
    "sent_psns (s_wire st') = sent_psns (s_wire st)"
  using assms by (auto simp: started_def)

lemma session_handshake_result:
  assumes L: "good_link L" and p: "prepared bs L st" and ne: "bs \<noteq> []"
    and ct: "0 \<le> fd (c_udp_socket ct)" "tmp_readable (temp_file (env_tmp (l_env L))) (c_files ct)"
  shows "\<exists>st' ct'. session_handshake L cb st ct = Inr (st', ct') \<and>
    receiving bs st' 0 ct' \<and> s_status st' = DATA \<and> s_thr st' = Opening \<and> started st st' \<and>
    requested_psns (c_wire ct') = requested_psns (c_wire ct)"
proof -
  have wf: "wf_message (senv_stack (l_senv L))" "wf_message (l_cj L)" "wf_message (l_j L)"
    "wf_message (env_stack (l_env L))" and E: "good_env (l_env L)" and snd: "sends (l_sock L) (l_senv L)"
    using L by (simp_all add: good_link_def good_env_def)
  let ?m = "senv_stack (l_senv L)" and ?e = "env_stack (l_env L)"
  define st1 where "st1 = st\<lparr>s_status := NTF,
    s_wire := s_wire st @ [(s_client_address st, server_image NTF ?m st)]\<rparr>"
  have s1: "server_SendMessage (l_sock L) (l_senv L) NTF st = Inr st1" "s_status st1 = NTF"
    using server_SendMessage_ok [OF _ snd, of NTF] by (simp_all add: st1_def)
  obtain ct1 x1 where c1: "client_Begin cb (l_env L) (recv_into (l_cj L) (server_image NTF ?m st))
      (recv_len (server_image NTF ?m st)) (l_saddr L) ct = Inr ct1" "checked st ct1"
    "c_wire ct1 = c_wire ct @ [(l_saddr L, client_image CHK ?e x1)]"
    using client_gets_NTF [OF wf(1,2) E ct] by blast
  obtain v where s2: "server_gets L (c_wire ct1) st1 =
      st1\<lparr>s_client_address := l_caddr L, s_cur_file_version := v, s_status := CHK\<rparr>"
    using server_gets_CHK [OF wf(4,3) s1(2)] by (auto simp: server_gets_def c1(3))
  define st2 where "st2 = st1\<lparr>s_client_address := l_caddr L, s_cur_file_version := v, s_status := CHK\<rparr>"
  define st3 where "st3 = st2\<lparr>s_status := INFO,
    s_wire := s_wire st2 @ [(s_client_address st2, server_image INFO ?m st2)]\<rparr>"
  have s3: "server_SendMessage (l_sock L) (l_senv L) INFO st2 = Inr st3" "s_status st3 = INFO"
    using server_SendMessage_ok [OF _ snd, of INFO] by (simp_all add: st3_def)
  have ck: "checked st2 ct1" and size: "unat (s_new_file_size st2) = length bs"
    using c1(2) p by (simp_all add: checked_def st2_def st1_def prepared_def)
  obtain ct2 x2 where c2: "client_OnReceive Transaction_Thread cb (l_env L)
      (recv_into (l_cj L) (server_image INFO ?m st2)) (recv_len (server_image INFO ?m st2)) (l_saddr L) ct1 = Inr ct2"
    "receiving bs st2 0 ct2" "c_wire ct2 = c_wire ct1 @ [(l_saddr L, client_image RDY ?e x2)]"
    using client_gets_INFO [OF wf(1,2) E ck size ne] by blast
  obtain g where s4: "server_gets L (c_wire ct2) st3 =
      st3\<lparr>s_client_address := l_caddr L, s_inter_packet_gap := g, s_status := RDY\<rparr>"
    using server_gets_RDY [OF wf(4,3) s3(2)] by (auto simp: server_gets_def c2(3))
  define st4 where "st4 = st3\<lparr>s_client_address := l_caddr L, s_inter_packet_gap := g, s_status := RDY\<rparr>"
  have inv4: "server_inv st4"
  proof -
    have "server_inv st3" using p by (simp add: st3_def st2_def st1_def prepared_def server_inv_def in_loop_def)
    then show ?thesis
      unfolding st4_def s4 [symmetric] server_gets_def by (rule server_OnReceive_inv)
  qed
  have thr: "s_thr st4 = Not_Started"
    using p by (simp add: st4_def st3_def st2_def st1_def prepared_def)
  have s5: "server_SendMessage (l_sock L) (l_senv L) DATA st4 = Inr (st4\<lparr>s_status := DATA, s_thr := Opening\<rparr>)"
    using thr by (simp add: server_SendMessage_def SendFileAsync_def)
  let ?st = "st4\<lparr>s_status := DATA, s_thr := Opening\<rparr>"
  have res: "session_handshake L cb st ct = Inr (?st, ct2)"
    using s1(1) c1(1) s2 s3(1) c2(1) s4 s5
    by (simp add: session_handshake_def client_gets_def expect_def st2_def [symmetric] st4_def [symmetric])
      (simp add: st1_def st2_def st3_def st4_def)
  have rec: "receiving bs ?st 0 ct2"
    using c2(2) by (simp add: receiving_def st4_def st3_def)
  have gap: "100 \<le> g" "g \<le> 300"
    using inv4 by (simp_all add: server_inv_def st4_def)
  have "?st = st\<lparr>s_client_address := l_caddr L, s_inter_packet_gap := g, s_wire := s_wire st3,
      s_cur_file_version := v, s_status := DATA, s_thr := Opening\<rparr>"
    by (simp add: st4_def st3_def st2_def st1_def)
  moreover have "sent_psns (s_wire st3) = sent_psns (s_wire st)"
    by (simp add: st3_def st2_def st1_def)
  ultimately have ex: "started st ?st"
    unfolding started_def using gap by (intro exI conjI)
  have req: "requested_psns (c_wire ct2) = requested_psns (c_wire ct)"
    by (simp add: c1(3) c2(3) requested_psns_image [OF wf(4)])
  show ?thesis
    by (rule exI [of _ ?st], rule exI [of _ ct2], intro conjI, rule res, rule rec, simp, simp, rule ex, rule req)
qed

text \<open>The packets: the sending thread runs to its end, and the client is fed what it sent.\<close>

lemma sent_deliveries:
  assumes "wf_message (senv_stack (l_senv L))"
  shows "delivered L (data_datagram (senv_stack (l_senv L)) bs st k) =
    packet_delivery (l_env L) (l_cj L) (senv_stack (l_senv L)) (l_saddr L) bs st k"
proof -
  have "recv_len (send_image (data_packet (senv_stack (l_senv L)) bs st k) (32 + slice_len (length bs) k))
      = 32 + slice_len (length bs) k"
    by (rule recv_len_send_image) (use assms slice_len_le [of "length bs" k] in \<open>simp_all add: data_packet_def\<close>)
  then show ?thesis
    by (simp add: delivered_def packet_delivery_def recv_packet_def data_datagram_def)
qed

text \<open>The sending thread opens the file.\<close>

lemma sender_opens:
  assumes st: "server_inv st" "s_thr st = Opening" "s_status st = DATA" "s_retransmit_psn st = no_rtx"
      "unat (s_new_file_size st) = length bs"
    and f: "senv_files E (s_file_path st) = Some f" "readable f" "content f = bs"
  shows "\<exists>st1. sender_step sock E st = Inr st1 \<and> server_inv st1 \<and> s_thr st1 = For_Test \<and>
    holds_file bs st1 \<and> s_status st1 \<noteq> CXL \<and> s_retransmit_psn st1 = no_rtx \<and>
    s_wire st1 = s_wire st \<and> s_packet_sequence_number st1 = 0 \<and>
    s_total_packet_number st1 = s_total_packet_number st \<and>
    (\<forall>k p i w. advance st1 k p i w = advance st k p i w)"
proof -
  let ?ifs = "\<lparr>in_data = bs, in_pos = 0, in_fail = False, in_gcount = 0\<rparr>"
  let ?st = "st\<lparr>s_ifs := ?ifs, s_packet_sequence_number := 0, s_thr := For_Test\<rparr>"
  have step: "sender_step sock E st = Inr ?st"
    using st(2) f by (simp add: sender_step_def ifstream_open_def)
  show ?thesis
    using step sender_step_inv [OF step st(1)] st(3-5)
    by (intro exI [of _ ?st]) (simp add: holds_file_def advance_def)
qed

text \<open>The packets have all been sent, stored and acknowledged.\<close>

definition data_done :: "byte list \<Rightarrow> link \<Rightarrow> ServerTransaction \<Rightarrow>
    ServerTransaction \<times> ClientTransaction \<Rightarrow> bool" where
  "data_done bs L st s \<longleftrightarrow>
     acknowledged bs st (snd s) \<and> s_thr (fst s) = Returned \<and> s_status (fst s) = s_status st \<and>
     s_packet_sequence_number (fst s) = s_total_packet_number (fst s) \<and> c_wire (snd s) \<noteq> [] \<and>
     (\<exists>x. last (c_wire (snd s)) = (l_saddr L, client_image DONE (env_stack (l_env L)) x) \<and>
       c_new_file_version x = s_new_file_version (fst s) \<and>
       c_new_file_size x = s_new_file_size (fst s) \<and> c_new_file_crc32 x = s_new_file_crc32 (fst s))"

text \<open>What the thread sends from packet \<open>k\<close> on completes a client that waits for packet \<open>k\<close>.\<close>

lemma session_data_ran:
  assumes L: "good_link L" and tr: "transferable bs"
    and run: "sender_run (l_sock L) (l_senv L) n st = Inr (advance st (s_total_packet_number st) Returned i
      (s_wire st @ map (data_datagram (senv_stack (l_senv L)) bs st) [k ..< packets_of bs]))"
    and ct: "receiving bs st k ct" "k < packets_of bs"
    and st: "unat (s_new_file_size st) = length bs" "s_new_file_crc32 st = CalculateCrc32 bs (length bs) 0"
  shows "\<exists>s. session_data L cb n (st, ct) = Inr s \<and> data_done bs L st s \<and>
    sent_psns (s_wire (fst s)) = sent_psns (s_wire st) @ [k ..< packets_of bs] \<and>
    requested_psns (c_wire (snd s)) = requested_psns (c_wire ct)"
proof -
  have wf: "wf_message (senv_stack (l_senv L))" "wf_message (l_cj L)" "wf_message (env_stack (l_env L))"
    and E: "good_env (l_env L)"
    using L by (simp_all add: good_link_def good_env_def)
  let ?m = "senv_stack (l_senv L)"
  obtain ct' x where fed: "client_feed cb (map (packet_delivery (l_env L) (l_cj L) ?m (l_saddr L) bs st)
        [k ..< packets_of bs]) ct = Inr ct'"
    and res: "acknowledged bs st ct'"
      "c_wire ct' = c_wire ct @ [(l_saddr L, client_image DONE (env_stack (l_env L)) x)]"
      "c_new_file_version x = s_new_file_version st" "c_new_file_size x = s_new_file_size st"
      "c_new_file_crc32 x = s_new_file_crc32 st"
    using client_feed_packets [OF ct refl E tr wf(1,2) st] by blast
  let ?st' = "advance st (s_total_packet_number st) Returned i
      (s_wire st @ map (data_datagram ?m bs st) [k ..< packets_of bs])"
  have "session_data L cb n (st, ct) = Inr (?st', ct')"
    using run fed by (simp add: session_data_def sent_deliveries [OF wf(1)] comp_def del: sender_run.simps)
  moreover have "data_done bs L st (?st', ct')"
    using res by (auto simp: data_done_def advance_def intro!: exI [of _ x])
  moreover have "sent_psns (s_wire ?st') = sent_psns (s_wire st) @ [k ..< packets_of bs]"
    by (simp add: advance_def sent_psns_data [OF order_refl st(1)])
  moreover have "requested_psns (c_wire ct') = requested_psns (c_wire ct)"
    by (simp add: res(2) requested_psns_image [OF wf(3)])
  ultimately show ?thesis
    by (intro exI [of _ "(?st', ct')"]) simp
qed

lemma session_data_result:
  assumes L: "good_link L" and tr: "transferable bs"
    and st: "server_inv st" "s_thr st = Opening" "s_status st = DATA" "s_retransmit_psn st = no_rtx"
      "unat (s_new_file_size st) = length bs" "unat (s_total_packet_number st) = packets_of bs"
      "s_new_file_crc32 st = CalculateCrc32 bs (length bs) 0"
    and file': "senv_files (l_senv L) (s_file_path st) = Some f" "readable f" "content f = bs"
    and ct: "receiving bs st 0 ct"
  shows "\<exists>n s. n \<le> 6 * packets_of bs + 2 \<and> session_data L cb n (st, ct) = Inr s \<and> data_done bs L st s"
proof -
  have snd: "sends (l_sock L) (l_senv L)"
    using L by (simp add: good_link_def)
  let ?m = "senv_stack (l_senv L)"
  obtain st1 where step: "sender_step (l_sock L) (l_senv L) st = Inr st1"
    and st1: "server_inv st1" "s_thr st1 = For_Test" "holds_file bs st1" "s_status st1 \<noteq> CXL"
      "s_retransmit_psn st1 = no_rtx" "s_wire st1 = s_wire st" "s_packet_sequence_number st1 = 0"
      "s_total_packet_number st1 = s_total_packet_number st"
    and adv: "\<And>k p i w. advance st1 k p i w = advance st k p i w"
    using sender_opens [OF st(1-5) file'] by blast
  have dg: "data_datagram ?m bs st1 = data_datagram ?m bs st"
    using arg_cong [OF adv, of "data_datagram ?m bs"] by simp
  obtain i n where n: "n \<le> 6 * packets_of bs + 1"
    and run: "sender_run (l_sock L) (l_senv L) n st1 = Inr (advance st1 (s_total_packet_number st) Returned i
      (s_wire st @ map (data_datagram ?m bs st) [0 ..< packets_of bs]))"
    using file_run [OF st1(1,2) snd st1(3,4,5) refl] st(6) st1(6-8) dg by auto
  have run': "sender_run (l_sock L) (l_senv L) (Suc n) st = Inr (advance st (s_total_packet_number st) Returned i
      (s_wire st @ map (data_datagram ?m bs st) [0 ..< packets_of bs]))"
    using step run by (simp add: adv)
  have pos: "0 < packets_of bs"
    using tr unfolding transferable_def packets_of_def by linarith
  show ?thesis
    using session_data_ran [OF L tr run' ct pos st(5,7), of cb] n by (intro exI [of _ "Suc n"]) auto
qed

text \<open>The acknowledgement of the whole file is answered by \<open>FIN\<close>.\<close>

lemma session_finish_result:
  assumes L: "good_link L" and d: "data_done bs L st0 (st, ct)" "s_status st0 = DATA"
  shows "\<exists>fin x. session_finish L (st, ct) = Inr (fin, ct) \<and> s_status fin = FIN \<and> s_thr fin = Returned \<and>
    s_wire fin = s_wire st @ [(l_caddr L, server_image FIN (senv_stack (l_senv L)) x)]"
proof -
  have wf: "wf_message (l_j L)" "wf_message (env_stack (l_env L))" and snd: "sends (l_sock L) (l_senv L)"
    using L by (simp_all add: good_link_def good_env_def)
  have st: "s_status st = DATA" "s_packet_sequence_number st = s_total_packet_number st" "s_thr st = Returned"
    using d by (simp_all add: data_done_def)
  obtain x where x: "last (c_wire ct) = (l_saddr L, client_image DONE (env_stack (l_env L)) x)"
    "c_new_file_version x = s_new_file_version st" "c_new_file_size x = s_new_file_size st"
    "c_new_file_crc32 x = s_new_file_crc32 st"
    using d(1) by (auto simp: data_done_def)
  have gets: "server_gets L (c_wire ct) st = st\<lparr>s_client_address := l_caddr L, s_status := DONE\<rparr>"
    using server_gets_DONE [OF wf(2,1) st(1) x(2-4)] st(2) by (simp add: server_gets_def x(1))
  let ?st = "st\<lparr>s_client_address := l_caddr L, s_status := DONE\<rparr>"
  let ?fin = "?st\<lparr>s_status := FIN,
      s_wire := s_wire ?st @ [(s_client_address ?st, server_image FIN (senv_stack (l_senv L)) ?st)]\<rparr>"
  have "session_finish L (st, ct) = Inr (?fin, ct)"
    using server_SendMessage_ok [OF _ snd, of FIN ?st] gets by (simp add: session_finish_def expect_def)
  then show ?thesis
    using st(3) by (intro exI [of _ ?fin] exI [of _ ?st]) simp
qed

text \<open>Handshake, packets, acknowledgement.\<close>

definition session :: "link \<Rightarrow> on_file_received \<Rightarrow> nat \<Rightarrow> ServerTransaction \<Rightarrow> ClientTransaction \<Rightarrow>
    (ServerTransaction \<times> ClientTransaction) result" where
  "session L cb fuel st ct =
     bind_result (session_handshake L cb st ct)
       (\<lambda>s. bind_result (session_data L cb fuel s) (session_finish L))"

lemma session_result:
  assumes L: "good_link L" and p: "prepared bs L st" and tr: "transferable bs"
    and ct: "0 \<le> fd (c_udp_socket ct)" "tmp_readable (temp_file (env_tmp (l_env L))) (c_files ct)"
  shows "\<exists>n st' ct'. n \<le> 6 * packets_of bs + 2 \<and> session L cb n st ct = Inr (st', ct') \<and>
    s_status st' = FIN \<and> s_thr st' = Returned \<and> acknowledged bs st ct' \<and>
    (\<exists>x. snd (last (s_wire st')) = server_image FIN (senv_stack (l_senv L)) x)"
proof -
  have ne: "bs \<noteq> []" using tr by (auto simp: transferable_def)
  obtain st1 ct1 where h: "session_handshake L cb st ct = Inr (st1, ct1)" "receiving bs st1 0 ct1"
    "s_status st1 = DATA" "s_thr st1 = Opening"
    and ex: "started st st1"
    using session_handshake_result [OF L p ne ct, of cb] by blast
  have st1: "server_inv st1" "s_retransmit_psn st1 = no_rtx" "unat (s_new_file_size st1) = length bs"
    "unat (s_total_packet_number st1) = packets_of bs"
    "s_new_file_crc32 st1 = CalculateCrc32 bs (length bs) 0" "s_file_path st1 = s_file_path st"
    "s_new_file_version st1 = s_new_file_version st"
    using started_same [OF ex] p by (simp_all add: prepared_def server_inv_def in_loop_def)
  obtain f where f: "senv_files (l_senv L) (s_file_path st1) = Some f" "readable f" "content f = bs"
    using p st1(6) by (auto simp: prepared_def)
  obtain n st2 ct2 where d: "n \<le> 6 * packets_of bs + 2" "session_data L cb n (st1, ct1) = Inr (st2, ct2)"
    "data_done bs L st1 (st2, ct2)"
    using session_data_result [OF L tr st1(1) h(4,3) st1(2-5) f h(2), of cb] by auto
  obtain fin y where fin: "session_finish L (st2, ct2) = Inr (fin, ct2)" "s_status fin = FIN"
    "s_thr fin = Returned" "s_wire fin = s_wire st2 @ [(l_caddr L, server_image FIN (senv_stack (l_senv L)) y)]"
    using session_finish_result [OF L d(3) h(3)] by auto
  have "session L cb n st ct = Inr (fin, ct2)" "acknowledged bs st ct2"
    using h(1) d(2,3) fin(1) st1(7) by (simp_all add: session_def data_done_def acknowledged_def)
  then show ?thesis
    using d(1) fin(2-4) by (intro exI [of _ n] exI [of _ fin] exI [of _ ct2] conjI exI [of _ y]) simp_all
qed

section \<open>The acknowledgement in the last second\<close>

text \<open>
  The sending thread sleeps for a second after the last packet before it counts it. An
  acknowledgement that arrives in this time, as one does when the client answers at once, is
  discarded; the client sends it once only.
\<close>

lemma early_DONE:
  assumes "wf_message m" "wf_message j" "s_status st = DATA" "server_inv st" "in_loop (s_thr st)"
  shows "server_OnReceive (recv_into j (client_image DONE m ct)) (recv_len (client_image DONE m ct)) addr st =
    st\<lparr>s_client_address := addr\<rparr>"
proof -
  have "s_packet_sequence_number st \<noteq> s_total_packet_number st"
    using assms(4,5) by (auto simp: server_inv_def)
  then show ?thesis
    using client_image_received(1,2) [OF assms(1,2), of DONE ct] assms(3)
    by (simp add: server_OnReceive_def recv_len_client_image [OF assms(1)] sizeof_payload_defs sizeof_defs)
qed

end
