(* ===== verification/Schedule.thy ===== *)
theory Schedule
  imports Lossless
begin

text \<open>
  Schedules of the whole client and the whole server: how the runs of the transactions are
  executions of \<^term>\<open>main_step\<close> and \<^term>\<open>sys_step\<close>, so that what is proved of reachable
  states is not proved of nothing, and a transfer that \<^verbatim>\<open>StartFileTransfer\<close> completes.
\<close>

section \<open>The client\<close>

text \<open>A delivery that comes out of the socket.\<close>

definition from_wire :: "delivery \<Rightarrow> bool" where
  "from_wire d \<longleftrightarrow>
     (\<exists>m bs. bs \<noteq> [] \<and> del_msg d = recv_into m bs \<and> del_len d = recv_len bs)"

lemma udp_Receive_datagram:
  "bs \<noteq> [] \<Longrightarrow> udp_Receive (Recv_Datagram addr bs) m a = Inr (recv_len bs, recv_into m bs, addr)"
  by (simp add: udp_Receive_def)

lemma recv_len_pos: "bs \<noteq> [] \<Longrightarrow> recv_len bs \<noteq> 0"
  by (simp add: recv_len_def sizeof_defs)

lemma client_SendMessage_active:
  "client_SendMessage E i ct = Inr ct' \<Longrightarrow> i \<in> {CHK, RDY, RTX, DONE, CXL} \<Longrightarrow>
   c_thread ct' = c_thread ct \<and> (c_is_active ct' \<longrightarrow> c_is_active ct)"
  by (drule (1) client_SendMessage_frame) (auto simp: client_sent_status_def split: if_splits)

text \<open>The transaction's own thread neither restarts itself nor sets \<^verbatim>\<open>is_active_\<close>.\<close>

lemma client_OnReceive_thread:
  assumes "client_OnReceive Transaction_Thread cb E msg len addr ct = Inr ct'" "c_thread ct \<noteq> No_Thread"
  shows "c_thread ct' = c_thread ct \<and> (c_is_active ct' \<longrightarrow> c_is_active ct)"
proof -
  define keeps where "keeps = (\<lambda>c :: ClientTransaction. c_thread ct' = c_thread c \<and> (c_is_active ct' \<longrightarrow> c_is_active c))"
  let ?c = "ct\<lparr>c_server_address := addr\<rparr>" and ?n = "len - sizeof_TrftpHeader"
  have send: "keeps c" if "client_SendMessage E i c = Inr ct'" "i \<in> {CHK, RDY, RTX, DONE, CXL}" for i c
    using client_SendMessage_active [OF that] by (simp add: keeps_def)
  have ntf: "keeps ?c" if "client_on_ntf Transaction_Thread E msg ?n ?c = Inr ct'"
    using that assms(2) send by (auto simp: client_on_ntf_def Let_def split: if_splits)
  have info: "keeps ?c" if "client_on_info E msg ?n ?c = Inr ct'"
    using that unfolding client_on_info_def Let_def keeps_def
    by (auto split: prod.splits if_splits dest!: client_SendMessage_frame)
  have complete: "keeps c" if "client_complete E c = Inr ct'" for c
    using that unfolding client_complete_def Let_def keeps_def
    by (auto simp: bind_result_eq_Inr split: prod.splits if_splits dest!: client_SendMessage_frame)
  have data: "keeps ?c" if "client_on_data E msg ?n ?c = Inr ct'"
    using that unfolding client_on_data_def Let_def keeps_def
    by (auto split: if_splits dest!: client_SendMessage_frame complete [unfolded keeps_def])
  have fin: "keeps ?c" if "client_on_fin cb E ?n ?c = Inr ct'"
    using that unfolding client_on_fin_def Let_def keeps_def
    by (auto simp: bind_result_eq_Inr split: option.splits if_splits dest!: client_SendMessage_frame)
  have cxl: "keeps ?c" if "client_on_cxl E ?c = Inr ct'"
    using that unfolding client_on_cxl_def Let_def keeps_def
    by (auto split: prod.splits if_splits dest!: client_SendMessage_frame)
  have same: "keeps ?c" if "ct' = ?c" using that by (simp add: keeps_def)
  have "keeps ?c"
  proof (cases "client_ValidateMessageIntegrity msg len")
    case False
    then show ?thesis using assms(1) same by (simp add: client_OnReceive_def)
  next
    case True
    note handled = assms(1) [unfolded client_OnReceive_def Let_def if_not_P [OF not_not [THEN iffD2, OF True]]]
    show ?thesis
    proof (cases "message_id (xid (header msg))")
      case NTF show ?thesis by (rule ntf) (use handled NTF in simp)
    next
      case INFO show ?thesis by (rule info) (use handled INFO in simp)
    next
      case DATA show ?thesis by (rule data) (use handled DATA in simp)
    next
      case FIN show ?thesis by (rule fin) (use handled FIN in simp)
    next
      case CXL show ?thesis by (rule cxl) (use handled CXL in simp)
    qed (rule same, use handled in simp)+
  qed
  then show ?thesis by (simp add: keeps_def)
qed

lemma OnFileReceived_frame [simp]:
  "OnFileReceived (cl\<lparr>cl_transaction := t\<rparr>) = OnFileReceived cl"
  "OnFileReceived (cl\<lparr>cl_thread := p\<rparr>) = OnFileReceived cl"
  by (simp_all add: OnFileReceived_def fun_eq_iff split: option.splits)

lemma client_feed_active:
  assumes "client_feed cb ds ct = Inr ct'" "c_thread ct \<noteq> No_Thread" "c_is_active ct'"
  shows "c_is_active ct"
  using assms
proof (induction ds arbitrary: ct)
  case (Cons d ds)
  then obtain ct1 where "client_OnReceive Transaction_Thread cb (del_env d) (del_msg d) (del_len d)
      (del_addr d) ct = Inr ct1" "client_feed cb ds ct1 = Inr ct'"
    by (auto simp: bind_result_eq_Inr)
  then show ?case
    using Cons client_OnReceive_thread by metis
qed simp

text \<open>Feeding the transaction is an execution of the client, and so is the start of a transfer.\<close>

context client_threads
begin

lemma main_delivery:
  assumes reach: "R cl" and thr: "c_thread (cl_transaction cl) = Receiving"
    and rec: "client_OnReceive Transaction_Thread (Some (OnFileReceived cl)) (del_env d) (del_msg d) (del_len d)
      (del_addr d) (cl_transaction cl) = Inr ct'"
    and act: "c_is_active ct'" and d: "from_wire d"
  shows "R (cl\<lparr>cl_transaction := ct'\<rparr>)" "c_thread ct' = Receiving"
proof -
  obtain m bs where bs: "bs \<noteq> []" "del_msg d = recv_into m bs" "del_len d = recv_len bs"
    using d by (auto simp: from_wire_def)
  show thr': "c_thread ct' = Receiving"
    using client_OnReceive_thread [OF rec] thr by simp
  have "client_loop_body (Some (OnFileReceived cl)) (del_env d) (Recv_Datagram (del_addr d) bs) m (del_addr d)
      (cl_transaction cl) = Inr (ct'\<lparr>c_thread := Loop_Test\<rparr>)"
    using rec bs recv_len_pos [OF bs(1)] by (simp add: client_loop_body_def udp_Receive_datagram)
  then have body: "main_step cl (cl\<lparr>cl_transaction := ct'\<lparr>c_thread := Loop_Test\<rparr>\<rparr>)"
    using thr by (intro main_step.tran_body)
  have "main_step (cl\<lparr>cl_transaction := ct'\<lparr>c_thread := Loop_Test\<rparr>\<rparr>)
      (cl\<lparr>cl_transaction := ct'\<lparr>c_thread := Loop_Test\<rparr>, cl_transaction :=
         client_loop_test (cl_transaction (cl\<lparr>cl_transaction := ct'\<lparr>c_thread := Loop_Test\<rparr>\<rparr>))\<rparr>)"
    by (rule main_step.tran_test) simp
  moreover have "ct'\<lparr>c_thread := Receiving\<rparr> = ct'" using thr' by simp
  ultimately have test: "main_step (cl\<lparr>cl_transaction := ct'\<lparr>c_thread := Loop_Test\<rparr>\<rparr>) (cl\<lparr>cl_transaction := ct'\<rparr>)"
    using act by (simp add: client_loop_test_def)
  show "R (cl\<lparr>cl_transaction := ct'\<rparr>)"
    using thread_stepI [OF thread_stepI [OF reach body] test] by simp
qed

lemma main_feed:
  assumes "R cl" "c_thread (cl_transaction cl) = Receiving"
    and "client_feed (Some (OnFileReceived cl)) ds (cl_transaction cl) = Inr ct'" "c_is_active ct'"
    and "\<And>d. d \<in> set ds \<Longrightarrow> from_wire d"
  shows "R (cl\<lparr>cl_transaction := ct'\<rparr>)" "c_thread ct' = Receiving"
proof -
  have "R (cl\<lparr>cl_transaction := ct'\<rparr>) \<and> c_thread ct' = Receiving"
    using assms
  proof (induction ds arbitrary: cl)
    case Nil
    then have eq: "cl\<lparr>cl_transaction := ct'\<rparr> = cl" by auto
    show ?case unfolding eq using Nil by simp
  next
    case (Cons d ds)
    then obtain ct1 where ct1: "client_OnReceive Transaction_Thread (Some (OnFileReceived cl)) (del_env d)
        (del_msg d) (del_len d) (del_addr d) (cl_transaction cl) = Inr ct1"
      "client_feed (Some (OnFileReceived cl)) ds ct1 = Inr ct'"
      by (auto simp: bind_result_eq_Inr)
    have thr1: "c_thread ct1 = Receiving"
      using client_OnReceive_thread [OF ct1(1)] Cons.prems(2) by simp
    have act: "c_is_active ct1"
      using client_feed_active [OF ct1(2) _ Cons.prems(4)] thr1 by simp
    have w: "from_wire d" using Cons.prems(5) by simp
    have reach: "R (cl\<lparr>cl_transaction := ct1\<rparr>)"
      by (rule main_delivery(1) [OF Cons.prems(1,2) ct1(1) act w])
    show ?case
      using Cons.IH [OF reach] thr1 ct1(2) Cons.prems(4,5) by simp
  qed
  then show "R (cl\<lparr>cl_transaction := ct'\<rparr>)" "c_thread ct' = Receiving"
    by simp_all
qed

lemma main_begin:
  assumes reach: "R cl" and cl: "cl_thread cl = Main_Test" "cl_is_running cl"
    and idle: "\<not> client_IsAlive (cl_transaction cl)" "join_returns (cl_transaction cl)"
    and beg: "client_Begin (Some (OnFileReceived cl)) E (recv_into m bs) (recv_len bs) addr (cl_transaction cl) = Inr ct'"
    and ntf: "bs \<noteq> []" "message_id (xid (header (recv_into m bs))) = NTF"
  shows "R (cl\<lparr>cl_transaction := ct', cl_thread := Main_Test\<rparr>)"
proof -
  let ?cl1 = "cl\<lparr>cl_thread := Main_Receiving\<rparr>"
  let ?reset = "Reset_fields E ((cl_transaction cl)\<lparr>c_is_active := True\<rparr>)"
  let ?cl2 = "cl\<lparr>cl_transaction := ?reset, cl_thread := Main_Joining (recv_into m bs) (recv_len bs) addr\<rparr>"
  have 1: "main_step cl ?cl1"
    using main_step.main_test [OF cl(1)] cl(2) by (simp add: client_main_test_def)
  have 2: "main_step ?cl1 ?cl2"
    by (rule main_step.main_body [where ev = "Recv_Datagram addr bs" and m = m and a = addr and E = E])
      (use idle(1) ntf recv_len_pos [OF ntf(1)] in \<open>simp_all add: client_main_body_def udp_Receive_datagram\<close>)
  have 3: "main_step ?cl2 (cl\<lparr>cl_transaction := ct', cl_thread := Main_Test\<rparr>)"
  proof (rule main_step.main_joined [where msg = "recv_into m bs" and len = "recv_len bs" and addr = addr and E = E])
    show "join_returns (cl_transaction ?cl2)"
      using idle(2) by (simp add: join_returns_def)
    show "client_main_joined E (recv_into m bs) (recv_len bs) addr ?cl2 =
        Inr (cl\<lparr>cl_transaction := ct', cl_thread := Main_Test\<rparr>)"
      using beg ntf(2) by (simp add: client_main_joined_def client_Begin_split)
  qed simp
  show ?thesis
    using thread_stepI [OF thread_stepI [OF thread_stepI [OF reach 1] 2] 3] by simp
qed

end

section \<open>The server\<close>

text \<open>A server that runs one transfer: \<open>st\<close> is its transaction, \<open>pc\<close> the position of the
  call.\<close>

definition one_transfer :: "UdpSocket \<Rightarrow> string \<Rightarrow> ServerTransaction \<Rightarrow> start_pc \<Rightarrow> server_sys" where
  "one_transfer sock ip st pc =
     (\<lparr>sv_udp_socket = sock, sv_is_running = True, sv_thread = Server_Test,
       sv_factory = DefaultServerTransactionFactory_CreateTransaction,
       sv_active_transactions = [ip \<mapsto> 0], sv_heap = [st]\<rparr>,
      [\<lparr>call_ip = ip, call_tran = 0, call_pc = pc\<rparr>])"

abbreviation runs :: "(string \<Rightarrow> u32) \<Rightarrow> UdpSocket \<Rightarrow> string \<Rightarrow> ServerTransaction \<Rightarrow> start_pc \<Rightarrow> bool" where
  "runs inet_addr sock ip st pc \<equiv>
     reachable (sys_init DefaultServerTransactionFactory_CreateTransaction) (sys_step inet_addr)
       (one_transfer sock ip st pc)"

lemma runs_start:
  assumes "parse_uri uri = Some (ip, port)" "length ip < INET_ADDRSTRLEN" "stoi port = Inr n"
    and "ServerTransaction_new \<lparr>sin_family = AF_INET, sin_port = htobe16 (word_of_int n),
        s_addr = inet_addr (c_str ip)\<rparr> p v (dev_id (d :: Device)) fs = Inr st"
  shows "runs inet_addr sock ip st (Sending NTF)"
proof -
  let ?f = "DefaultServerTransactionFactory_CreateTransaction"
  have "fs_exists p fs"
    using assms(4) by (auto simp: ServerTransaction_new_def fs_file_size_def fs_exists_def split: option.splits)
  then have "StartFileTransfer_enter inet_addr fs uri p v d (Server_new sock ?f) =
    Inr (\<lparr>call_ip = ip, call_tran = 0, call_pc = Sending NTF\<rparr>,
      (Server_new sock ?f)\<lparr>sv_heap := [st], sv_active_transactions := [ip \<mapsto> 0]\<rparr>)"
    using assms
    by (simp add: StartFileTransfer_enter_def Server_new_def DefaultServerTransactionFactory_CreateTransaction_def)
  then have "sys_step inet_addr (Server_new sock ?f, []) (one_transfer sock ip st (Sending NTF))"
    using sys_step.start [where cs = "[]"] by (fastforce simp: one_transfer_def Server_new_def)
  moreover have "sys_init ?f (Server_new sock ?f, [])"
    by (auto simp: sys_init_def)
  ultimately show ?thesis
    by (blast intro: reachable.intros)
qed

lemma runs_start_canonical:
  assumes "port < 65536" "inet_addr (inet_ntoa a) = a"
    and "ServerTransaction_new \<lparr>sin_family = AF_INET, sin_port = htobe16 (of_nat port), s_addr = a\<rparr>
      p v (dev_id (d :: Device)) fs = Inr st"
  shows "runs inet_addr sock (inet_ntoa a) st (Sending NTF)"
proof -
  have "stoi (decimal port) = Inr (int port)" using assms(1) by (simp add: stoi_decimal)
  then show ?thesis
    by (rule runs_start [OF parse_uri_inet_ntoa length_inet_ntoa, where d = d and p = p and v = v and fs = fs])
      (use assms in \<open>simp add: c_str_inet_ntoa\<close>)
qed

lemma runs_call:
  assumes "runs inet_addr sock ip st pc"
    and "StartFileTransfer_step E t \<lparr>call_ip = ip, call_tran = 0, call_pc = pc\<rparr> (fst (one_transfer sock ip st pc)) =
      Some (\<lparr>call_ip = ip, call_tran = 0, call_pc = pc'\<rparr>, fst (one_transfer sock ip st' pc'))"
  shows "runs inet_addr sock ip st' pc'"
proof -
  let ?sv = "fst (one_transfer sock ip st pc)" and ?cs = "[\<lparr>call_ip = ip, call_tran = 0, call_pc = pc\<rparr>]"
  have "sys_step inet_addr (?sv, ?cs)
      (fst (one_transfer sock ip st' pc'), ?cs[0 := \<lparr>call_ip = ip, call_tran = 0, call_pc = pc'\<rparr>])"
    by (rule sys_step.call [where E = E and timed_out = t]) (use assms(2) in simp_all)
  then have "sys_step inet_addr (one_transfer sock ip st pc) (one_transfer sock ip st' pc')"
    by (simp add: one_transfer_def)
  with assms(1) show ?thesis by (rule reachable.reachable_step)
qed

lemma runs_tran_inv:
  assumes "runs inet_addr sock ip st pc"
  shows "tran_inv st"
  using sys_invD(2) [OF default_factory.sys.reachable_inv
      [OF assms [unfolded one_transfer_def]], of 0] by simp

lemma runs_send:
  assumes "runs inet_addr sock ip st (Sending i)" "server_SendMessage sock E i st = Inr st'"
  shows "runs inet_addr sock ip st' (after_send i)"
  using assms(1)
  by (rule runs_call [where E = E and t = False])
    (use assms(2) in \<open>simp add: StartFileTransfer_step_def one_transfer_def send_keeping_def set_tran_def\<close>)

lemma runs_load:
  assumes "runs inet_addr sock ip st (Loading i)"
  shows "runs inet_addr sock ip st (Waiting i (s_status st))"
  using assms
  by (rule runs_call [where t = False])
    (simp add: StartFileTransfer_step_def one_transfer_def wait_load_def)

lemma runs_wait:
  assumes "runs inet_addr sock ip st (Waiting i old)" "s_status st \<noteq> old"
  shows "runs inet_addr sock ip st (after_wait i (Some (s_status st)))"
  using assms(1)
  by (rule runs_call [where t = False])
    (use assms(2) in \<open>simp add: StartFileTransfer_step_def one_transfer_def wait_poll_def\<close>)

lemma runs_receive:
  assumes "runs inet_addr sock (inet_ntoa (s_addr addr)) st pc" "bs \<noteq> []"
  shows "runs inet_addr sock (inet_ntoa (s_addr addr)) (server_OnReceive (recv_into m bs) (recv_len bs) addr st) pc"
proof -
  let ?ip = "inet_ntoa (s_addr addr)" and ?st = "server_OnReceive (recv_into m bs) (recv_len bs) addr st"
  obtain sv cs where s: "one_transfer sock ?ip st pc = (sv, cs)" by fastforce
  have sv: "sv_thread sv = Server_Test" "sv_is_running sv" "sv_active_transactions sv ?ip = Some 0" "sv_heap sv = [st]"
    using s by (auto simp: one_transfer_def)
  have 1: "sys_step inet_addr (sv, cs) (sv\<lparr>sv_thread := Server_Receiving\<rparr>, cs)"
    using sys_step.main_test [of sv inet_addr cs] sv(1,2) by (simp add: server_main_test_def)
  have "server_main_body (Recv_Datagram addr bs) m addr (sv\<lparr>sv_thread := Server_Receiving\<rparr>) =
      Inr ((set_tran 0 ?st sv)\<lparr>sv_thread := Server_Test\<rparr>)"
    using sv assms(2) recv_len_pos [OF assms(2)]
    by (simp add: server_main_body_def udp_Receive_datagram server_route_def set_tran_def)
  then have 2: "sys_step inet_addr (sv\<lparr>sv_thread := Server_Receiving\<rparr>, cs)
      ((set_tran 0 ?st sv)\<lparr>sv_thread := Server_Test\<rparr>, cs)"
    by (intro sys_step.main_body) simp_all
  have "((set_tran 0 ?st sv)\<lparr>sv_thread := Server_Test\<rparr>, cs) = one_transfer sock ?ip ?st pc"
    using s by (auto simp: one_transfer_def set_tran_def)
  then show ?thesis
    using assms(1) 1 2 s by (metis reachable.reachable_step)
qed

lemma runs_sender:
  assumes "runs inet_addr sock ip st pc" "sender_run sock E n st = Inr st'"
  shows "runs inet_addr sock ip st' pc"
  using assms
proof (induction n arbitrary: st)
  case 0
  then show ?case by simp
next
  case (Suc n)
  then obtain st1 where st1: "sender_step sock E st = Inr st1" "sender_run sock E n st1 = Inr st'"
    by (auto simp: bind_result_eq_Inr)
  obtain sv cs where s: "one_transfer sock ip st pc = (sv, cs)" by fastforce
  have sv: "sv_heap sv = [st]" "sv_udp_socket sv = sock"
    using s by (auto simp: one_transfer_def)
  have "sys_step inet_addr (sv, cs) (set_tran 0 st1 sv, cs)"
    by (rule sys_step.sender [where E = E]) (use sv st1(1) in simp_all)
  moreover have "(set_tran 0 st1 sv, cs) = one_transfer sock ip st1 pc"
    using s by (auto simp: one_transfer_def set_tran_def)
  ultimately have "runs inet_addr sock ip st1 pc"
    using Suc.prems(1) s by (metis reachable.reachable_step)
  then show ?case using Suc.IH st1(2) by blast
qed

text \<open>Erasing and destroying, once the sending thread is over.\<close>

lemma runs_finish:
  assumes "runs inet_addr sock ip st (Erasing s)" "ServerTransaction_delete_returns st"
  shows "\<exists>sv c. server_reachable inet_addr sv [c] \<and> call_pc c = Finished s \<and> call_ip c = ip \<and>
    call_tran c = 0 \<and> sv_heap sv = [st] \<and> sv_active_transactions sv = Map.empty"
proof -
  let ?c = "\<lambda>pc. \<lparr>call_ip = ip, call_tran = 0, call_pc = pc\<rparr>"
  let ?sv = "(fst (one_transfer sock ip st (Erasing s)))\<lparr>sv_active_transactions := Map.empty\<rparr>"
  have 1: "sys_step inet_addr (fst (one_transfer sock ip st (Erasing s)), [?c (Erasing s)])
      (?sv, [?c (Erasing s)][0 := ?c (Destroying s)])"
    by (rule sys_step.call) (simp_all add: StartFileTransfer_step_def one_transfer_def)
  have 2: "sys_step inet_addr (?sv, [?c (Destroying s)]) (?sv, [?c (Destroying s)][0 := ?c (Finished s)])"
    by (rule sys_step.call) (use assms(2) in \<open>simp_all add: StartFileTransfer_step_def one_transfer_def\<close>)
  have start: "server_reachable inet_addr (fst (one_transfer sock ip st (Erasing s))) [?c (Erasing s)]"
    using assms(1) by (simp add: one_transfer_def)
  have "server_reachable inet_addr ?sv [?c (Finished s)]"
    using reachable.reachable_step [OF reachable.reachable_step [OF start 1]] 2 by simp
  then show ?thesis
    by (intro exI [of _ ?sv] exI [of _ "?c (Finished s)"]) (simp add: one_transfer_def)
qed

text \<open>A call that an exception has left stays where it is.\<close>

lemma sys_step_threw:
  assumes "sys_step inet_addr (sv, cs) (sv', cs')" "c \<in> set cs" "call_pc c = Threw e"
  shows "c \<in> set cs'"
  using assms(1)
proof cases
  case (call k E timed_out c')
  then have "cs ! k \<noteq> c"
    using assms(3) by (auto simp: StartFileTransfer_step_def)
  then show ?thesis
    using assms(2) call(1,2) by (metis in_set_conv_nth length_list_update nth_list_update_neq)
qed (use assms(2) in auto)

lemma reachable_threw:
  assumes "reachable (\<lambda>s. s = (sv, cs)) (sys_step inet_addr) t" "c \<in> set cs" "call_pc c = Threw e"
  shows "c \<in> set (snd t)"
  using assms(1)
proof induction
  case (reachable_step s t)
  then show ?case using sys_step_threw [OF _ _ assms(3)] by (metis prod.collapse)
qed (use assms(2) in auto)

lemma reachable_trans:
  assumes "reachable (\<lambda>x. x = s) step t" "reachable init step s"
  shows "reachable init step t"
  using assms(1) by induction (use assms(2) reachable.reachable_step in auto)

section \<open>A session is a schedule\<close>

lemma server_gets_nonempty:
  assumes "s_status (server_gets L w st) \<noteq> s_status st"
  shows "snd (last w) \<noteq> []"
proof
  assume "snd (last w) = []"
  then have "recv_len (snd (last w)) = 0" by (simp add: recv_len_def)
  then have "\<not> server_ValidateMessageIntegrity (recv_into (l_j L) (snd (last w))) (recv_len (snd (last w)))"
    using server_check.validate_len by fastforce
  then have "server_gets L w st = st\<lparr>s_client_address := l_caddr L\<rparr>"
    by (simp add: server_gets_def server_OnReceive_def)
  with assms show False by simp
qed

lemma server_SendMessage_status:
  "server_SendMessage sock E i st = Inr st' \<Longrightarrow> i \<in> {NTF, INFO, DATA, FIN, CXL} \<Longrightarrow> s_status st' = i"
  by (auto simp: server_SendMessage_def SendFileAsync_def Let_def bind_result_eq_Inr split: if_splits)

lemma sender_run_status:
  "sender_run sock E n st = Inr st' \<Longrightarrow> server_inv st \<Longrightarrow> s_status st' = s_status st \<or> s_status st' = CXL"
proof (induction n arbitrary: st)
  case (Suc n)
  then obtain st1 where "sender_step sock E st = Inr st1" "sender_run sock E n st1 = Inr st'"
    by (auto simp: bind_result_eq_Inr)
  then show ?case
    using Suc.IH [of st1] Suc.prems(2) sender_step_status(1) [of sock E st st1] sender_step_inv by metis
qed simp

lemma runs_exchange:
  assumes "runs inet_addr sock (inet_ntoa (s_addr (l_caddr L))) st (Sending i)"
    and "server_SendMessage sock E i st = Inr st1" "i \<in> {NTF, INFO}"
    and "expect r (server_gets L w st1) = Inr st2" "r \<noteq> i"
  shows "runs inet_addr sock (inet_ntoa (s_addr (l_caddr L))) st2 (after_wait i (Some r))"
proof -
  have st1: "s_status st1 = i"
    using server_SendMessage_status [OF assms(2)] assms(3) by auto
  have st2: "st2 = server_gets L w st1" "s_status st2 = r"
    using assms(4) by (auto simp: expect_def split: if_splits)
  have ne: "snd (last w) \<noteq> []"
    using server_gets_nonempty [of L w st1] st1 st2 assms(5) by simp
  have "runs inet_addr sock (inet_ntoa (s_addr (l_caddr L))) st1 (Loading i)"
    using runs_send [OF assms(1,2)] assms(3) by (auto simp: after_send_def)
  from runs_load [OF this] have "runs inet_addr sock (inet_ntoa (s_addr (l_caddr L))) st1 (Waiting i i)"
    using st1 by simp
  from runs_receive [OF this ne] have "runs inet_addr sock (inet_ntoa (s_addr (l_caddr L))) st2 (Waiting i i)"
    by (simp add: st2(1) server_gets_def)
  from runs_wait [OF this] show ?thesis
    using st2(2) assms(5) by simp
qed

text \<open>The call after the handshake, and from the acknowledgement to its return.\<close>

lemma handshake_runs:
  assumes start: "runs inet_addr (l_sock L) (inet_ntoa (s_addr (l_caddr L))) st (Sending NTF)"
    and hs: "session_handshake L cb st ct = Inr (s4, c2)"
  shows "runs inet_addr (l_sock L) (inet_ntoa (s_addr (l_caddr L))) s4 (Waiting DATA DATA)" "s_status s4 = DATA"
proof -
  let ?ip = "inet_ntoa (s_addr (l_caddr L))" and ?S = "l_sock L" and ?E = "l_senv L"
  obtain s1 s2 s3 t3 and c1 :: ClientTransaction where h: "server_SendMessage ?S ?E NTF st = Inr s1"
    "expect CHK (server_gets L (c_wire c1) s1) = Inr s2" "server_SendMessage ?S ?E INFO s2 = Inr s3"
    "expect RDY (server_gets L (c_wire c2) s3) = Inr t3" "server_SendMessage ?S ?E DATA t3 = Inr s4"
    using hs by (auto simp: session_handshake_def bind_result_eq_Inr)
  have 1: "runs inet_addr ?S ?ip s2 (Sending INFO)"
    using runs_exchange [OF start h(1) _ h(2)] by (simp add: after_wait_def)
  have 2: "runs inet_addr ?S ?ip t3 (Sending DATA)"
    using runs_exchange [OF 1 h(3) _ h(4)] by (simp add: after_wait_def)
  show st: "s_status s4 = DATA"
    using server_SendMessage_status [OF h(5)] by simp
  show "runs inet_addr ?S ?ip s4 (Waiting DATA DATA)"
    using runs_load [OF runs_send [OF 2 h(5), unfolded after_send_def, simplified]] st by simp
qed

lemma finish_runs:
  assumes waiting: "runs inet_addr (l_sock L) (inet_ntoa (s_addr (l_caddr L))) st (Waiting DATA DATA)"
    and finish: "session_finish L (st, ct) = Inr (st', ct')"
    and st: "s_status st \<noteq> DONE" and over: "s_thr st' = Returned"
  shows "\<exists>sv c. server_reachable inet_addr sv [c] \<and> call_pc c = Finished FIN \<and>
    call_ip c = inet_ntoa (s_addr (l_caddr L)) \<and> sv_heap sv = [st'] \<and>
    call_tran c = 0 \<and> sv_active_transactions sv = Map.empty"
proof -
  let ?ip = "inet_ntoa (s_addr (l_caddr L))" and ?S = "l_sock L" and ?E = "l_senv L"
  obtain st1 where f: "expect DONE (server_gets L (c_wire ct) st) = Inr st1"
    "server_SendMessage ?S ?E FIN st1 = Inr st'"
    using finish by (auto simp: session_finish_def bind_result_eq_Inr)
  have st1: "st1 = server_gets L (c_wire ct) st" "s_status st1 = DONE"
    using f(1) by (auto simp: expect_def split: if_splits)
  have "snd (last (c_wire ct)) \<noteq> []"
    using server_gets_nonempty [of L _ st] st st1 by metis
  from runs_receive [OF waiting this] have "runs inet_addr ?S ?ip st1 (Waiting DATA DATA)"
    by (simp add: st1(1) server_gets_def)
  from runs_wait [OF this] have "runs inet_addr ?S ?ip st1 (Sending FIN)"
    using st1(2) by (simp add: after_wait_def)
  from runs_send [OF this f(2)] have "runs inet_addr ?S ?ip st' (Erasing FIN)"
    by (simp add: after_send_def)
  then show ?thesis
    using runs_finish over by (fastforce simp: ServerTransaction_delete_returns_def)
qed

text \<open>The call that runs a session to its end returns \<open>FIN\<close>.\<close>

lemma data_runs:
  assumes waiting: "runs inet_addr (l_sock L) (inet_ntoa (s_addr (l_caddr L))) st (Waiting DATA DATA)"
    and st: "s_status st = DATA"
    and run: "bind_result (session_data L cb n (st, ct)) (session_finish L) = Inr (st', ct')"
    and over: "s_thr st' = Returned"
  shows "\<exists>sv c. server_reachable inet_addr sv [c] \<and> call_pc c = Finished FIN \<and>
    call_ip c = inet_ntoa (s_addr (l_caddr L)) \<and> sv_heap sv = [st'] \<and>
    call_tran c = 0 \<and> sv_active_transactions sv = Map.empty"
proof -
  let ?ip = "inet_ntoa (s_addr (l_caddr L))"
  obtain st1 ct1 where d: "sender_run (l_sock L) (l_senv L) n st = Inr st1"
    "session_finish L (st1, ct1) = Inr (st', ct')"
    using run by (auto simp: session_data_def bind_result_eq_Inr)
  have "server_inv st"
    using runs_tran_inv [OF waiting] by (simp add: tran_inv_def)
  then have "s_status st1 \<noteq> DONE"
    using sender_run_status [OF d(1)] st by auto
  then show ?thesis
    by (rule finish_runs [OF runs_sender [OF waiting d(1)] d(2) _ over])
qed

lemma session_runs:
  assumes start: "runs inet_addr (l_sock L) (inet_ntoa (s_addr (l_caddr L))) st (Sending NTF)"
    and run: "session L cb n st ct = Inr (st', ct')" and over: "s_thr st' = Returned"
  shows "\<exists>sv c. server_reachable inet_addr sv [c] \<and> call_pc c = Finished FIN \<and>
    call_ip c = inet_ntoa (s_addr (l_caddr L)) \<and> sv_heap sv = [st'] \<and>
    call_tran c = 0 \<and> sv_active_transactions sv = Map.empty"
proof -
  obtain s4 c2 where hs: "session_handshake L cb st ct = Inr (s4, c2)"
    and rest: "bind_result (session_data L cb n (s4, c2)) (session_finish L) = Inr (st', ct')"
    using run by (auto simp: session_def bind_result_eq_Inr)
  show ?thesis
    by (rule data_runs [OF handshake_runs [OF start hs] rest over])
qed

end
