(* ===== verification/Samples.thy ===== *)
theory Samples
  imports Schedule
begin

text \<open>
  One concrete file, server, client and link, at which the properties with hypotheses are
  instantiated: a file of two packets, the second with one byte.
\<close>

definition junk :: TrftpMessage where
  "junk = \<lparr>header = \<lparr>magic = 0, spid = 0, dpid = 0, tpn = 0, tpl = 0, xid = 0, crc32 = 0, psn = 0, pl = 0\<rparr>,
           payload = replicate 1408 0\<rparr>"

definition sample_file :: "byte list" where
  "sample_file = replicate 1409 7"

definition sample_addr :: sockaddr_in where
  "sample_addr = \<lparr>sin_family = AF_INET, sin_port = htobe16 4000, s_addr = 0x0100007F\<rparr>"

definition sample_fs :: filesystem where
  "sample_fs = [''file'' \<mapsto> \<lparr>content = sample_file, readable = True\<rparr>]"

definition sample_sock :: UdpSocket where
  "sample_sock = \<lparr>fd = 3\<rparr>"

definition sample_env :: env where
  "sample_env = \<lparr>env_sendto = 0, env_open = True, env_write = True, env_flush = None,
     env_tmp = ''/tmp'', env_stack = junk\<rparr>"

definition sample_senv :: senv where
  "sample_senv = \<lparr>senv_sendto = 0, senv_stack = junk, senv_files = sample_fs\<rparr>"

definition sample_link :: link where
  "sample_link = \<lparr>l_sock = sample_sock, l_senv = sample_senv, l_env = sample_env, l_cj = junk, l_j = junk,
     l_caddr = sample_addr, l_saddr = sample_addr\<rparr>"

definition sample_client :: ClientTransaction where
  "sample_client = ClientTransaction_new ''/tmp'' sample_sock 0 Map.empty []"

definition sample_server :: ServerTransaction where
  "sample_server = projr (ServerTransaction_new sample_addr ''file'' 1 0 sample_fs)"

lemma wf_junk [simp]: "wf_message junk"
  by (simp add: wf_message_def junk_def)

lemma length_sample [simp]: "length sample_file = 1409"
  by (simp add: sample_file_def)

lemma packets_sample [simp]: "packets_of sample_file = 2"
  by (simp add: packets_of_def)

lemma transferable_sample [simp]: "transferable sample_file"
  by (simp add: transferable_def)

lemma good_sample_env [simp]: "good_env sample_env"
  by (simp add: good_env_def sample_env_def)

lemma sends_sample [simp]: "sends sample_sock sample_senv"
  by (simp add: sends_def sample_sock_def sample_senv_def)

lemma good_sample_link [simp]: "good_link sample_link"
  by (simp add: good_link_def sample_link_def) (simp add: sample_senv_def)

lemma sample_server_new:
  "ServerTransaction_new sample_addr ''file'' 1 0 sample_fs = Inr sample_server"
  by (simp add: sample_server_def ServerTransaction_new_def fs_file_size_def sample_fs_def)

lemma sample_server_fresh [simp]:
  "s_wire sample_server = []" "s_status sample_server = NTF" "s_thr sample_server = Not_Started"
  "s_packet_sequence_number sample_server = 0" "s_retransmit_psn sample_server = no_rtx"
  by (simp_all add: sample_server_def ServerTransaction_new_def fs_file_size_def sample_fs_def)

lemma sample_server_init [simp]: "server_init sample_server"
  using sample_server_new unfolding server_init_def by blast

lemma prepared_sample: "prepared sample_file sample_link sample_server"
  using prepared_new [OF sample_server_new, of "\<lparr>content = sample_file, readable = True\<rparr>" sample_link]
  by (simp add: sample_fs_def sample_link_def sample_senv_def)

lemma sample_client_ready:
  "0 \<le> fd (c_udp_socket sample_client)" "c_thread sample_client = No_Thread"
  "\<not> client_IsAlive sample_client" "c_wire sample_client = []"
  "tmp_readable (temp_file (env_tmp (l_env sample_link))) (c_files sample_client)"
  by (simp_all add: sample_client_def ClientTransaction_new_def sample_sock_def client_IsAlive_def
      tmp_readable_def)

lemma sample_session:
  "\<exists>n st' ct'. n \<le> 14 \<and> session sample_link cb n sample_server sample_client = Inr (st', ct') \<and>
    s_status st' = FIN \<and> s_thr st' = Returned \<and> acknowledged sample_file sample_server ct'"
  using session_result [OF good_sample_link prepared_sample transferable_sample sample_client_ready(1,5), of cb]
  by auto

text \<open>The same client, step by step.\<close>

abbreviation deliver_image :: "byte list \<Rightarrow> delivery" where
  "deliver_image bs \<equiv> \<lparr>del_env = sample_env, del_msg = recv_into junk bs, del_len = recv_len bs,
     del_addr = sample_addr\<rparr>"

definition sample_deliveries :: "ServerTransaction \<Rightarrow> delivery list" where
  "sample_deliveries st = deliver_image (server_image INFO junk st) #
     map (packet_delivery sample_env junk junk sample_addr sample_file st) [0 ..< packets_of sample_file]"

lemma sample_fields:
  "unat (s_new_file_size sample_server) = length sample_file"
  "s_new_file_crc32 sample_server = CalculateCrc32 sample_file (length sample_file) 0"
  using prepared_sample by (simp_all add: prepared_def)

lemma sample_begin:
  "\<exists>ct. client_Begin cb sample_env (recv_into junk (server_image NTF junk sample_server))
     (recv_len (server_image NTF junk sample_server)) sample_addr sample_client = Inr ct \<and>
   checked sample_server ct \<and> c_thread ct = Loop_Test"
  using client_gets_NTF [OF wf_junk wf_junk good_sample_env,
      where ct = sample_client and st = sample_server and cb = cb and addr = sample_addr]
    sample_client_ready
  by (auto simp: sample_link_def sample_env_def)

lemma sample_feed:
  assumes "checked sample_server ct"
  shows "\<exists>ct'. client_feed cb (sample_deliveries sample_server) ct = Inr ct' \<and>
    acknowledged sample_file sample_server ct'"
proof -
  obtain ct1 where ct1: "client_OnReceive Transaction_Thread cb sample_env
      (recv_into junk (server_image INFO junk sample_server))
      (recv_len (server_image INFO junk sample_server)) sample_addr ct = Inr ct1"
    "receiving sample_file sample_server 0 ct1"
    using client_gets_INFO [OF wf_junk wf_junk good_sample_env assms sample_fields(1),
        where cb = cb and addr = sample_addr]
    by (auto simp: sample_file_def)
  obtain ct2 where "client_feed cb (map (packet_delivery sample_env junk junk sample_addr sample_file sample_server)
      [0 ..< packets_of sample_file]) ct1 = Inr ct2" "acknowledged sample_file sample_server ct2"
    using client_feed_packets [OF ct1(2) _ refl good_sample_env transferable_sample wf_junk wf_junk sample_fields,
        where cb = cb and addr = sample_addr] by auto
  then show ?thesis
    using ct1(1) by (auto simp: sample_deliveries_def simp del: packets_sample)
qed

lemma sample_from_server:
  "d \<in> set (sample_deliveries sample_server) \<Longrightarrow> from_server sample_file (del_msg d) (del_len d)"
proof -
  assume "d \<in> set (sample_deliveries sample_server)"
  then consider "d = deliver_image (server_image INFO junk sample_server)"
    | k where "k < packets_of sample_file" "d = packet_delivery sample_env junk junk sample_addr sample_file sample_server k"
    by (auto simp: sample_deliveries_def simp del: packets_sample)
  then show ?thesis
    unfolding from_server_def
  proof cases
    case 1
    then show "\<exists>st j cj. wf_message j \<and> wf_message cj \<and> unat (s_new_file_size st) = length sample_file \<and>
       ((\<exists>k < packets_of sample_file. del_msg d = recv_packet cj j sample_file st k \<and>
           del_len d = 32 + slice_len (length sample_file) k) \<or>
        (\<exists>i \<in> {NTF, INFO, FIN, CXL}. del_msg d = recv_into cj (server_image i j st) \<and>
           del_len d = recv_len (server_image i j st)))"
      using sample_fields(1)
      by (intro exI [of _ sample_server] exI [of _ junk]) simp
  next
    case 2
    then show "\<exists>st j cj. wf_message j \<and> wf_message cj \<and> unat (s_new_file_size st) = length sample_file \<and>
       ((\<exists>k < packets_of sample_file. del_msg d = recv_packet cj j sample_file st k \<and>
           del_len d = 32 + slice_len (length sample_file) k) \<or>
        (\<exists>i \<in> {NTF, INFO, FIN, CXL}. del_msg d = recv_into cj (server_image i j st) \<and>
           del_len d = recv_len (server_image i j st)))"
      using sample_fields(1)
      by (intro exI [of _ sample_server] exI [of _ junk] conjI disjI1 exI [of _ k])
        (simp_all add: packet_delivery_def del: packets_sample)
  qed
qed

lemma server_image_nonempty: "wf_message m \<Longrightarrow> server_image i m st \<noteq> []"
  using recv_len_server_image [of m i st] by (auto simp: recv_len_def)

lemma sample_from_wire:
  "d \<in> set (sample_deliveries sample_server) \<Longrightarrow> from_wire d"
proof -
  assume d: "d \<in> set (sample_deliveries sample_server)"
  have pkt: "from_wire (packet_delivery sample_env junk junk sample_addr sample_file sample_server k)" for k
  proof -
    let ?m = "data_packet junk sample_file sample_server k" and ?l = "32 + slice_len (length sample_file) k"
    have wf: "wf_message ?m" and le: "?l \<le> 1440"
      using slice_len_le [of "length sample_file" k] by (simp_all add: data_packet_def)
    have "recv_len (send_image ?m ?l) = ?l" by (rule recv_len_send_image [OF wf le])
    moreover from this have "send_image ?m ?l \<noteq> []" by (auto simp: recv_len_def)
    ultimately show ?thesis
      unfolding from_wire_def
      by (intro exI [of _ junk] exI [of _ "send_image ?m ?l"])
        (simp add: packet_delivery_def recv_packet_def data_datagram_def)
  qed
  have "from_wire (deliver_image (server_image INFO junk sample_server))"
    unfolding from_wire_def delivery.select_convs using server_image_nonempty [OF wf_junk] by blast
  with d pkt show ?thesis
    by (auto simp: sample_deliveries_def simp del: packets_sample)
qed

text \<open>The whole client, with a file handler that throws, when the sample file is complete.\<close>

definition throwing_handler :: file_handler where
  "throwing_handler p v fs = Inl Handler_Error"

text \<open>The sample client receives the sample file.\<close>

context client_threads
begin

lemma sample_run:
  assumes "R cl1" "cl_transaction cl1 = sample_client" "cl_thread cl1 = Main_Test" "cl_is_running cl1"
  shows "\<exists>cl. R cl \<and> c_thread (cl_transaction cl) = Receiving \<and> cl_file_handler cl = cl_file_handler cl1 \<and>
     acknowledged sample_file sample_server (cl_transaction cl)"
proof -
  note cl1 = assms(2-4)
  let ?ntf = "server_image NTF junk sample_server" and ?cb = "Some (OnFileReceived cl1)"
  obtain ct where ct: "client_Begin ?cb sample_env (recv_into junk ?ntf) (recv_len ?ntf) sample_addr
      (cl_transaction cl1) = Inr ct" "checked sample_server ct" "c_thread ct = Loop_Test"
    unfolding cl1(1) using sample_begin by blast
  have idle: "\<not> client_IsAlive (cl_transaction cl1)" "join_returns (cl_transaction cl1)"
    using sample_client_ready(2,3) by (simp_all add: cl1(1) join_returns_def)
  have ntf: "message_id (xid (header (recv_into junk ?ntf))) = NTF"
    by (rule server_image_received(2)) simp_all
  let ?cl2 = "cl1\<lparr>cl_transaction := ct, cl_thread := Main_Test\<rparr>"
  have 2: "R ?cl2"
    by (rule main_begin [OF assms(1) cl1(2,3) idle ct(1) server_image_nonempty [OF wf_junk] ntf])
  let ?ct = "ct\<lparr>c_thread := Receiving\<rparr>"
  let ?cl3 = "?cl2\<lparr>cl_transaction := ?ct\<rparr>"
  have "main_step ?cl2 ?cl3"
    using main_step.tran_test [of ?cl2] ct(2,3) by (simp add: client_loop_test_def checked_def)
  then have 3: "R ?cl3"
    by (rule thread_stepI [OF 2]) simp_all
  obtain ct' where ct': "client_feed ?cb (sample_deliveries sample_server) ?ct = Inr ct'"
    "acknowledged sample_file sample_server ct'"
    using sample_feed [of ?ct ?cb] ct(2) by auto
  have "R (?cl3\<lparr>cl_transaction := ct'\<rparr>)" "c_thread ct' = Receiving"
    using main_feed [OF 3, of "sample_deliveries sample_server" ct'] ct' sample_from_wire
    by (auto simp: acknowledged_def)
  then show ?thesis
    using ct'(2) by (intro exI [of _ "?cl3\<lparr>cl_transaction := ct'\<rparr>"]) simp
qed

end

lemma sample_client_done:
  "\<exists>cl. reachable main_init main_step cl \<and> c_thread (cl_transaction cl) = Receiving \<and>
     cl_file_handler cl = Some throwing_handler \<and>
     acknowledged sample_file sample_server (cl_transaction cl)"
proof -
  define cl0 where "cl0 = Client_new ''/tmp'' sample_sock sample_sock 0 Map.empty []"
  define cl1 where "cl1 = AttachFileHandler throwing_handler cl0"
  have "main_init cl0" unfolding main_init_def cl0_def by blast
  then have "reachable main_init main_step cl0" by (rule reachable.reachable_init)
  moreover have "main_step cl0 cl1" unfolding cl1_def by (rule main_step.attach)
  ultimately have "reachable main_init main_step cl1" by (rule reachable.reachable_step)
  moreover have "cl_transaction cl1 = sample_client" "cl_thread cl1 = Main_Test" "cl_is_running cl1"
    "cl_file_handler cl1 = Some throwing_handler"
    by (simp_all add: cl1_def cl0_def Client_new_def AttachFileHandler_def sample_client_def)
  ultimately show ?thesis using client_alone.sample_run [of cl1] by metis
qed

section \<open>The sample server\<close>

definition sample_inet_addr :: "string \<Rightarrow> u32" where
  "sample_inet_addr cs = 0x0100007F"

lemma sample_runs: "runs sample_inet_addr sample_sock (inet_ntoa 0x0100007F) sample_server (Sending NTF)"
  by (rule runs_start_canonical [where port = 4000 and d = "\<lparr>dev_id = 0\<rparr>" and p = "''file''" and v = 1
        and fs = sample_fs])
    (use sample_server_new in \<open>simp_all add: sample_inet_addr_def sample_addr_def\<close>)

lemma sample_call_done:
  "\<exists>sv c. server_reachable sample_inet_addr sv [c] \<and> call_pc c = Finished FIN \<and>
     s_status (sv_heap sv ! call_tran c) = FIN"
proof -
  obtain n st' ct' where s: "session sample_link None n sample_server sample_client = Inr (st', ct')"
    "s_thr st' = Returned" "s_status st' = FIN"
    using sample_session by blast
  have start: "runs sample_inet_addr (l_sock sample_link) (inet_ntoa (s_addr (l_caddr sample_link)))
      sample_server (Sending NTF)"
    using sample_runs by (simp add: sample_link_def sample_addr_def)
  obtain sv c where "server_reachable sample_inet_addr sv [c]" "call_pc c = Finished FIN"
    "sv_heap sv = [st']" "call_tran c = 0"
    using session_runs [OF start s(1,2)] by blast
  then show ?thesis
    using s(3) by (intro exI [of _ sv] exI [of _ c]) simp
qed

text \<open>The sending thread in its loop: the file is open and packet \<open>k\<close> is next.\<close>

definition sample_ifs :: ifstream where
  "sample_ifs = \<lparr>in_data = sample_file, in_pos = 0, in_fail = False, in_gcount = 0\<rparr>"

definition sample_sending :: "sender \<Rightarrow> u32 \<Rightarrow> u32 \<Rightarrow> ServerTransaction" where
  "sample_sending pc k rtx = sample_server\<lparr>s_status := DATA, s_ifs := sample_ifs, s_thr := pc,
     s_packet_sequence_number := k, s_retransmit_psn := rtx\<rparr>"

lemma sample_total: "unat (s_total_packet_number sample_server) = 2"
  using prepared_sample by (simp add: prepared_def)

lemma sample_sending_inv:
  assumes "pc \<notin> {Not_Started, Opening}" "unat k < 2" "rtx = no_rtx \<or> rtx \<le> k"
  shows "server_inv (sample_sending pc k rtx)" "holds_file sample_file (sample_sending pc k rtx)"
proof -
  have "k < s_total_packet_number sample_server"
    using assms(2) sample_total by (simp add: word_less_nat_alt)
  then show "server_inv (sample_sending pc k rtx)"
    using prepared_sample assms(1,3)
    by (auto simp: sample_sending_def server_inv_def prepared_def sample_ifs_def in_loop_def)
  show "holds_file sample_file (sample_sending pc k rtx)"
    using sample_fields(1) by (simp add: sample_sending_def holds_file_def sample_ifs_def)
qed

text \<open>A state of the loop that is reached.\<close>

lemma server_sends_reachable:
  assumes "reachable server_init (server_step sock) st" "sender_run sock E n st = Inr st'"
  shows "reachable server_init (server_step sock) st'"
  using assms
proof (induction n arbitrary: st)
  case (Suc n)
  then obtain st1 where "sender_step sock E st = Inr st1" "sender_run sock E n st1 = Inr st'"
    by (auto simp: bind_result_eq_Inr)
  then show ?case
    using Suc.IH reachable.reachable_step [OF Suc.prems(1) server_step.sender_runs] by blast
qed simp

lemma sample_in_loop:
  "\<exists>st. reachable server_init (server_step sample_sock) st \<and> in_loop (s_thr st) \<and>
     s_new_file_size st = s_new_file_size sample_server \<and> s_status st = DATA"
proof -
  have p: "s_thr sample_server = Not_Started"
    "\<exists>f. sample_fs (s_file_path sample_server) = Some f \<and> readable f \<and> content f = sample_file"
    using prepared_sample by (auto simp: prepared_def sample_link_def sample_senv_def)
  then obtain f where f: "sample_fs (s_file_path sample_server) = Some f" "readable f" "content f = sample_file"
    by blast
  let ?o = "sample_server\<lparr>s_status := DATA, s_thr := Opening\<rparr>"
  have "server_SendMessage sample_sock sample_senv DATA sample_server = Inr ?o"
    using p(1) by (simp add: server_SendMessage_def SendFileAsync_def)
  then have "server_step sample_sock sample_server ?o" by (rule server_step.caller_sends)
  with sample_server_init have 1: "reachable server_init (server_step sample_sock) ?o"
    by (blast intro: reachable.intros)
  have "0 < s_total_packet_number sample_server"
    using sample_total by (simp add: word_less_nat_alt)
  then have "sender_run sample_sock sample_senv 2 ?o =
      Inr (?o\<lparr>s_ifs := sample_ifs, s_packet_sequence_number := 0, s_thr := Check_Cxl\<rparr>)"
    using f by (simp add: sender_step_def numeral_2_eq_2 sample_senv_def ifstream_open_def sample_ifs_def)
  from server_sends_reachable [OF 1 this] show ?thesis
    by (intro exI conjI) (assumption, simp_all add: in_loop_def)
qed

end
