(* ===== verification/Client_Properties.thy ===== *)
theory Client_Properties
  imports Replies Samples
begin

text \<open>
  The properties of the receiving side: what reaches the file handler, the stages of a
  transfer, damaged datagrams, the ways a transfer ends, and the states it does not leave.
\<close>

section \<open>Delivery\<close>

text \<open>C8: Whatever a client has received, in whatever order its threads ran, a message makes a
  difference to the file handler (the result with the handler differs from the result
  without one) only if it is a valid \<open>FIN\<close> in status \<open>DONE\<close>; at that moment the file at the
  path handed over has the announced size and the announced checksum, and what happens is
  one call of the handler with that path and the announced version.\<close>

theorem delivered_file_is_verified:
  assumes "reachable main_init main_step cl" "c_thread (cl_transaction cl) = Receiving"
    and "client_OnReceive Transaction_Thread (Some (OnFileReceived cl)) E msg len addr (cl_transaction cl) \<noteq>
         client_OnReceive Transaction_Thread None E msg len addr (cl_transaction cl)"
  shows "client_ValidateMessageIntegrity msg len \<and> message_id (xid (header msg)) = FIN \<and>
    c_status (cl_transaction cl) = DONE \<and>
    fs_file_size (c_new_file_path (cl_transaction cl)) (c_files (cl_transaction cl)) =
      Inr (unat (c_new_file_size (cl_transaction cl))) \<and>
    CalculateFileCrc32 (c_new_file_path (cl_transaction cl)) (c_files (cl_transaction cl)) =
      c_new_file_crc32 (cl_transaction cl) \<and>
    client_OnReceive Transaction_Thread (Some (OnFileReceived cl)) E msg len addr (cl_transaction cl) =
      bind_result (OnFileReceived cl (c_new_file_path (cl_transaction cl))
          (c_new_file_version (cl_transaction cl)) (c_files (cl_transaction cl)))
        (\<lambda>fs. Inr ((cl_transaction cl)\<lparr>c_server_address := addr, c_status := FIN, c_is_active := False,
           c_files := fs\<rparr>))"
proof -
  note path = client_delivery_path [OF assms(3)]
  have "client_inv (cl_transaction cl)"
    using client_main.reachable_inv [OF assms(1)] by (rule main_inv_transaction)
  then have "client_file_complete (cl_transaction cl)"
    using path(4) by (simp add: client_inv_def)
  then show ?thesis
    using path(1,2,4,5) by (simp add: client_file_complete_def)
qed

theorem delivered_file_is_verified_witness:
  "\<exists>cl. reachable main_init main_step cl \<and> c_status (cl_transaction cl) = DONE \<and>
     fs_file_size (c_new_file_path (cl_transaction cl)) (c_files (cl_transaction cl)) =
       Inr (unat (c_new_file_size (cl_transaction cl)))"
proof -
  obtain cl where cl: "reachable main_init main_step cl" "c_thread (cl_transaction cl) = Receiving"
    "cl_file_handler cl = Some throwing_handler" "acknowledged sample_file sample_server (cl_transaction cl)"
    using sample_client_done by blast
  let ?fin = "server_image FIN junk sample_server"
  have "OnFileReceived cl p v fs = Inl Handler_Error" for p v fs
    using cl(3) by (simp add: OnFileReceived_def throwing_handler_def)
  then have "client_OnReceive Transaction_Thread (Some (OnFileReceived cl)) sample_env (recv_into junk ?fin)
      (recv_len ?fin) sample_addr (cl_transaction cl) \<noteq>
    client_OnReceive Transaction_Thread None sample_env (recv_into junk ?fin) (recv_len ?fin) sample_addr
      (cl_transaction cl)"
    by (simp add: client_gets_FIN [OF wf_junk wf_junk cl(4)])
  from delivered_file_is_verified [OF cl(1,2) this] show ?thesis
    using cl(1) by blast
qed

section \<open>Stages\<close>

text \<open>C30: In every reachable state of the client the status tells how far the transfer is: in
  \<open>RDY\<close> the stream is open, and nothing has been stored in it unless it has failed; in \<open>DATA\<close> the
  next sequence number is strictly between 0 and the packet count of the announced size and the
  open stream has not failed; in \<open>DONE\<close> the file is complete on disk; in all three the
  transaction is alive and its thread runs.\<close>

theorem client_stages:
  assumes "reachable main_init main_step cl"
  shows "(c_status (cl_transaction cl) = RDY \<longrightarrow>
       out_open (c_new_file_stream (cl_transaction cl)) \<and>
       (out_fail (c_new_file_stream (cl_transaction cl)) \<or> out_data (c_new_file_stream (cl_transaction cl)) = [])) \<and>
    (c_status (cl_transaction cl) = DATA \<longrightarrow>
       out_open (c_new_file_stream (cl_transaction cl)) \<and>
       \<not> out_fail (c_new_file_stream (cl_transaction cl)) \<and>
       0 < c_packet_sequence_number (cl_transaction cl) \<and>
       unat (c_packet_sequence_number (cl_transaction cl)) <
         (unat (c_new_file_size (cl_transaction cl)) + 1407) div 1408) \<and>
    (c_status (cl_transaction cl) = DONE \<longrightarrow> client_file_complete (cl_transaction cl)) \<and>
    (c_status (cl_transaction cl) \<in> {RDY, DATA, DONE} \<longrightarrow>
       client_IsAlive (cl_transaction cl) \<and> c_thread (cl_transaction cl) \<in> {Loop_Test, Receiving})"
proof -
  let ?ct = "cl_transaction cl"
  have inv: "client_inv ?ct"
    using client_main.reachable_inv [OF assms] by (rule main_inv_transaction)
  have "unat (c_packet_sequence_number ?ct) < (unat (c_new_file_size ?ct) + 1407) div 1408"
    if "c_status ?ct = DATA"
  proof -
    have "c_packet_sequence_number ?ct < client_packets (c_new_file_size ?ct)"
      using inv that unfolding client_inv_def client_receiving_def by metis
    then show ?thesis by (simp add: word_less_nat_alt unat_client_packets)
  qed
  moreover have "client_receiving ?ct" if "c_status ?ct \<in> {RDY, DATA}"
    using inv that by (auto simp: client_inv_def)
  ultimately show ?thesis
    using inv unfolding client_inv_def client_receiving_def client_IsAlive_def by blast
qed

theorem client_stages_witness:
  "\<exists>cl. reachable main_init main_step cl \<and> c_status (cl_transaction cl) = DONE \<and>
     client_file_complete (cl_transaction cl) \<and> client_IsAlive (cl_transaction cl)"
proof -
  obtain cl where cl: "reachable main_init main_step cl"
    "acknowledged sample_file sample_server (cl_transaction cl)"
    using sample_client_done by blast
  then have d: "c_status (cl_transaction cl) = DONE" by (simp add: acknowledged_def)
  then show ?thesis using client_stages [OF cl(1)] cl(1) by (intro exI [of _ cl]) simp
qed

section \<open>Refinement\<close>

text \<open>The whole client refines its transaction: every step of the receiver thread, of the
  transaction's thread or of a caller either leaves the transaction and the pending call of
  \<^verbatim>\<open>Begin\<close> alone or is a step of the transaction system, with the handler attached at
  that moment.\<close>

lemma client_refines_transaction:
  assumes "main_step cl cl'"
  shows "sys_of cl' = sys_of cl \<or> client_step (Some (OnFileReceived cl)) (sys_of cl) (sys_of cl')"
  by (rule main_step_refines [OF assms])

section \<open>Damaged datagrams\<close>

text \<open>C17: The client's transaction discards a valid datagram in which up to four consecutive
  bytes have been changed (before, inside or after the checksum field): all that changes is
  the address it will answer to.\<close>

theorem client_discards_bursts:
  assumes "wf_message j" "wf_message j'" "length w = length w'" "length w \<le> 4" "w \<noteq> w'"
    and "length (pre @ w @ post) \<le> 1440"
    and "clear_of_crc (length pre) (length w) \<or> within_crc (length pre) (length w)"
    and "client_ValidateMessageIntegrity (recv_into j (pre @ w @ post)) (recv_len (pre @ w @ post))"
  shows "client_OnReceive by_thread cb E (recv_into j' (pre @ w' @ post)) (recv_len (pre @ w' @ post)) addr ct =
    Inr (ct\<lparr>c_server_address := addr\<rparr>)"
  using client_check.validate_burst [OF assms(1-4,6,5,7,8)] by (simp add: client_OnReceive_def)

lemma increment_bytes: "bs \<noteq> [] \<Longrightarrow> map (\<lambda>b. b + 1 :: byte) bs \<noteq> bs"
  by (cases bs) simp_all

lemma split_first_word:
  assumes "32 \<le> length bs" "length bs \<le> 1440"
  shows "length (take 4 bs) = 4" "length ([] @ take 4 bs @ drop 4 bs) \<le> 1440"
    "take 4 bs \<noteq> map (\<lambda>b. b + 1 :: byte) (take 4 bs)"
    "clear_of_crc (length ([] :: byte list)) (length (take 4 bs))"
proof -
  show l: "length (take 4 bs) = 4" "length ([] @ take 4 bs @ drop 4 bs) \<le> 1440"
    using assms by simp_all
  from l(1) have "take 4 bs \<noteq> []" by auto
  then show "take 4 bs \<noteq> map (\<lambda>b. b + 1 :: byte) (take 4 bs)"
    using increment_bytes by metis
  show "clear_of_crc (length ([] :: byte list)) (length (take 4 bs))"
    by (simp add: clear_of_crc_def l(1))
qed

lemma length_server_image:
  "wf_message m \<Longrightarrow> length (server_image i m st) = 32 + fst (server_payload i st)"
  using wf_server_control [of m i st] server_payload_length [of i st]
  by (simp add: server_image_def send_image_def)

theorem client_discards_bursts_witness:
  "let bs = server_image NTF junk sample_server;
       damaged = map (\<lambda>b. b + 1) (take 4 bs) @ drop 4 bs
   in client_OnReceive Client_Thread None sample_env (recv_into junk damaged) (recv_len damaged) sample_addr
        sample_client = Inr (sample_client\<lparr>c_server_address := sample_addr\<rparr>)"
proof -
  define bs where "bs = server_image NTF junk sample_server"
  have len: "length bs = 36"
    by (simp add: bs_def length_server_image sizeof_payload_defs)
  have ok: "client_ValidateMessageIntegrity (recv_into junk bs) (recv_len bs)"
    using server_image_received(1) [OF wf_junk wf_junk, of NTF sample_server]
      recv_len_server_image [OF wf_junk, of NTF sample_server] by (simp add: bs_def)
  have "32 \<le> length bs" "length bs \<le> 1440" using len by simp_all
  note first = split_first_word [OF this]
  have "client_OnReceive Client_Thread None sample_env
      (recv_into junk ([] @ map (\<lambda>b. b + 1) (take 4 bs) @ drop 4 bs))
      (recv_len ([] @ map (\<lambda>b. b + 1) (take 4 bs) @ drop 4 bs)) sample_addr sample_client =
    Inr (sample_client\<lparr>c_server_address := sample_addr\<rparr>)"
    by (rule client_discards_bursts [OF wf_junk wf_junk _ _ first(3,2) disjI1 [OF first(4)]])
      (use first(1) ok in simp_all)
  then show ?thesis by (simp add: bs_def)
qed

section \<open>States that are not left\<close>

text \<open>C31: An \<open>NTF\<close> that fails its integrity check wedges a client that is idle. The receiver
  thread's \<^verbatim>\<open>Begin\<close> marks the transaction as alive before the message is checked, and the check
  then drops the message without a thread having been started. From there on, in every state
  the client can reach, the transaction is alive, without a thread and unchanged, and whatever
  the receiver thread gets next, the next \<open>NTF\<close> included, it discards.\<close>

theorem corrupt_NTF_wedges_client:
  assumes "cl_thread cl = Main_Receiving" "\<not> client_IsAlive (cl_transaction cl)" "join_returns (cl_transaction cl)"
    and "bs \<noteq> []" "message_id (xid (header (recv_into m bs))) = NTF"
    and "\<not> client_ValidateMessageIntegrity (recv_into m bs) (recv_len bs)"
  shows "\<exists>cl1 cl2. client_main_body E (Recv_Datagram addr bs) m a cl = Inr cl1 \<and> main_step cl cl1 \<and>
    client_IsAlive (cl_transaction cl1) \<and>
    client_main_joined E (recv_into m bs) (recv_len bs) addr cl1 = Inr cl2 \<and> main_step cl1 cl2 \<and>
    (\<forall>cl3. reachable (\<lambda>s. s = cl2) main_step cl3 \<longrightarrow>
       client_IsAlive (cl_transaction cl3) \<and> c_thread (cl_transaction cl3) = No_Thread \<and>
       cl_transaction cl3 = cl_transaction cl2 \<and>
       (\<forall>E ev m a cl4. client_main_body E ev m a cl3 = Inr cl4 \<longrightarrow> cl4 = cl3\<lparr>cl_thread := Main_Test\<rparr>))"
proof -
  let ?cl1 = "cl\<lparr>cl_transaction := Reset_fields E ((cl_transaction cl)\<lparr>c_is_active := True\<rparr>),
      cl_thread := Main_Joining (recv_into m bs) (recv_len bs) addr\<rparr>"
  have body: "client_main_body E (Recv_Datagram addr bs) m a cl = Inr ?cl1"
    using assms(2,4,5) recv_len_pos [OF assms(4)] by (simp add: client_main_body_def udp_Receive_datagram)
  then have 1: "main_step cl ?cl1" by (rule main_step.main_body [OF assms(1)])
  have active: "c_is_active (cl_transaction ?cl1)" "join_returns (cl_transaction ?cl1)"
    using assms(3) by (simp_all add: Reset_fields_def join_returns_def split: prod.splits)
  obtain cl2 where cl2: "client_main_joined E (recv_into m bs) (recv_len bs) addr ?cl1 = Inr cl2" "wedged cl2"
    using client_main_joined_corrupt [OF assms(6) active(1)] by blast
  have 2: "main_step ?cl1 cl2"
    by (rule main_step.main_joined [OF _ active(2) cl2(1)]) simp
  have stays: "wedged cl3" "cl_transaction cl3 = cl_transaction cl2" if "reachable (\<lambda>s. s = cl2) main_step cl3" for cl3
    using wedged_stays [OF that cl2(2)] by blast+
  have drops: "cl4 = cl3\<lparr>cl_thread := Main_Test\<rparr>"
    if "client_IsAlive (cl_transaction cl3)" "client_main_body E ev m a cl3 = Inr cl4" for cl3 cl4 E ev m a
    using that by (auto simp: client_main_body_def bind_result_eq_Inr split: if_splits)
  show ?thesis
    using body 1 cl2(1) 2 active(1) stays drops
    by (intro exI [of _ ?cl1] exI [of _ cl2]) (simp add: client_IsAlive_def wedged_def)
qed

lemma header_recv_into:
  assumes "32 \<le> length bs" "length bs \<le> 1440"
  shows "header (recv_into m bs) = header_of_bytes (take 32 bs)"
proof -
  have h: "take 32 bs = header_bytes (header_of_bytes bs)"
    using header.enc_dec [OF assms(1)] by simp
  have "header (recv_into m bs) = header_of_bytes (take 32 bs @ drop 32 bs @ drop (length bs) (message_bytes m))"
    using assms(2) by (simp add: recv_into_def message_of_bytes_def sizeof_defs append_assoc [symmetric] del: append_assoc)
  then show ?thesis
    unfolding h header.dec_enc using header.dec_enc [of _ "[]"] by simp
qed

text \<open>The last byte of the sample's \<open>NTF\<close> damaged.\<close>

definition damaged_NTF :: "byte list" where
  "damaged_NTF = butlast (server_image NTF junk sample_server) @ [last (server_image NTF junk sample_server) + 1]"

lemma damaged_NTF_received:
  "damaged_NTF \<noteq> []" "message_id (xid (header (recv_into junk damaged_NTF))) = NTF"
  "\<not> client_ValidateMessageIntegrity (recv_into junk damaged_NTF) (recv_len damaged_NTF)"
proof -
  define bs where "bs = server_image NTF junk sample_server"
  have len: "length bs = 36" by (simp add: bs_def length_server_image sizeof_payload_defs)
  then have bs: "bs = butlast bs @ [last bs] @ []" by (cases bs rule: rev_cases) auto
  have ok: "client_ValidateMessageIntegrity (recv_into junk (butlast bs @ [last bs] @ []))
      (recv_len (butlast bs @ [last bs] @ []))"
    using server_image_received(1) [OF wf_junk wf_junk, of NTF sample_server]
      recv_len_server_image [OF wf_junk, of NTF sample_server] unfolding bs [symmetric] by (simp add: bs_def)
  show "damaged_NTF \<noteq> []" by (simp add: damaged_NTF_def)
  have "\<not> client_ValidateMessageIntegrity (recv_into junk (butlast bs @ [last bs + 1] @ []))
      (recv_len (butlast bs @ [last bs + 1] @ []))"
    by (rule client_check.validate_burst [OF wf_junk wf_junk _ _ _ _ _ ok]) (simp_all add: len clear_of_crc_def)
  then show "\<not> client_ValidateMessageIntegrity (recv_into junk damaged_NTF) (recv_len damaged_NTF)"
    by (simp add: damaged_NTF_def bs_def)
  have "header (recv_into junk damaged_NTF) = header (recv_into junk bs)"
    using len header_recv_into [of damaged_NTF junk] header_recv_into [of bs junk]
    by (simp add: damaged_NTF_def bs_def take_butlast)
  then show "message_id (xid (header (recv_into junk damaged_NTF))) = NTF"
    using server_image_received(2) [OF wf_junk wf_junk, of NTF sample_server] by (simp add: bs_def)
qed

theorem corrupt_NTF_wedges_client_witness:
  "\<exists>cl cl1 cl2. reachable main_init main_step cl \<and>
     client_main_body sample_env (Recv_Datagram sample_addr damaged_NTF) junk sample_addr cl = Inr cl1 \<and>
     main_step cl cl1 \<and> main_step cl1 cl2 \<and>
     (\<forall>cl3. reachable (\<lambda>s. s = cl2) main_step cl3 \<longrightarrow> client_IsAlive (cl_transaction cl3))"
proof -
  let ?cl0 = "Client_new ''/tmp'' sample_sock sample_sock 0 Map.empty []"
  have "main_init ?cl0" unfolding main_init_def by blast
  then have 0: "reachable main_init main_step ?cl0" by (rule reachable.reachable_init)
  have "main_step ?cl0 (client_main_test ?cl0)"
    by (rule main_step.main_test) (simp add: Client_new_def)
  with 0 have reach: "reachable main_init main_step (client_main_test ?cl0)"
    by (rule reachable.reachable_step)
  have idle: "cl_thread (client_main_test ?cl0) = Main_Receiving" "\<not> client_IsAlive (cl_transaction (client_main_test ?cl0))"
    "join_returns (cl_transaction (client_main_test ?cl0))"
    by (simp_all add: client_main_test_def Client_new_def ClientTransaction_new_def client_IsAlive_def join_returns_def)
  show ?thesis
    using corrupt_NTF_wedges_client [OF idle damaged_NTF_received, of sample_env sample_addr sample_addr] reach
    by blast
qed

section \<open>Answers\<close>

text \<open>The client answers every datagram by at most one message, one of its five kinds, and sends
  it to the address the datagram came from: whatever is fed to the transaction, it sends no
  more datagrams than it gets, and none to anybody else.\<close>

lemma client_answers_only_senders:
  assumes "client_feed cb ds ct = Inr ct'"
  shows "\<exists>ws. c_wire ct' = c_wire ct @ ws \<and> length ws \<le> length ds \<and>
    (\<forall>w \<in> set ws. \<exists>d \<in> set ds. fst w = del_addr d \<and>
      (\<exists>i \<in> {CHK, RDY, RTX, DONE, CXL}. \<exists>x. snd w = client_image i (env_stack (del_env d)) x))"
proof -
  obtain wss where "c_wire ct' = c_wire ct @ concat wss"
    "list_all2 (\<lambda>d ws. replies (env_stack (del_env d)) (del_addr d) ws) ds wss"
    using client_feed_answers [OF assms] by blast
  then show ?thesis
    using answers_at_most_one answers_to_sender by (intro exI [of _ "concat wss"]) blast
qed

end
