(* ===== verification/Long_Sample.thy ===== *)
theory Long_Sample
  imports Samples
begin

text \<open>
  A second concrete file, of four packets, in which packets can be lost.
\<close>

definition long_file :: "byte list" where
  "long_file = replicate 4225 7"

definition long_fs :: filesystem where
  "long_fs = [''long'' \<mapsto> \<lparr>content = long_file, readable = True\<rparr>]"

definition long_link :: link where
  "long_link = sample_link\<lparr>l_senv := sample_senv\<lparr>senv_files := long_fs\<rparr>\<rparr>"

definition long_server :: ServerTransaction where
  "long_server = projr (ServerTransaction_new sample_addr ''long'' 1 0 long_fs)"

lemma long_simps [simp]: "length long_file = 4225" "packets_of long_file = 4" "transferable long_file"
  by (simp_all add: long_file_def packets_of_def transferable_def)

text \<open>Packet 1 lost once, and lost twice.\<close>

lemma long_losses [simp]:
  "psns_with_losses 4 0 [(Suc 0, 3)] = [0, 1, 2, 1, 2, 3]"
  "psns_with_losses 4 0 [(Suc 0, 3), (Suc 0, 3)] = [0, 1, 2, 1, 2, 1, 2, 3]"
  "requests_for [(Suc 0, 3)] = [1]" "requests_for [(Suc 0, 3), (Suc 0, 3)] = [1, 1]"
  by (simp_all add: upt_conv_Cons numeral_2_eq_2 numeral_3_eq_3)

lemma good_long_link [simp]: "good_link long_link"
  using good_sample_link by (simp add: good_link_def long_link_def sample_link_def sends_def sample_senv_def)

lemma prepared_long: "prepared long_file long_link long_server"
proof -
  have "ServerTransaction_new sample_addr ''long'' 1 0 long_fs = Inr long_server"
    by (simp add: long_server_def ServerTransaction_new_def fs_file_size_def long_fs_def)
  from prepared_new [OF this, of "\<lparr>content = long_file, readable = True\<rparr>" long_link] show ?thesis
    by (simp add: long_fs_def long_link_def)
qed

lemma long_wires [simp]: "s_wire long_server = []" "c_wire sample_client = []"
  by (simp_all add: long_server_def ServerTransaction_new_def fs_file_size_def long_fs_def sample_client_ready)

lemma long_client_ready:
  "0 \<le> fd (c_udp_socket sample_client)"
  "tmp_readable (temp_file (env_tmp (l_env long_link))) (c_files sample_client)"
  using sample_client_ready(1,5) by (simp_all add: long_link_def)

text \<open>The URI of the sample client, and the call for it.\<close>

lemma long_call:
  "sample_inet_addr (inet_ntoa (s_addr (l_caddr long_link))) = s_addr (l_caddr long_link)"
  "ServerTransaction_new
      \<lparr>sin_family = AF_INET, sin_port = htobe16 (of_nat 4000), s_addr = s_addr (l_caddr long_link)\<rparr>
      ''long'' 1 (dev_id (\<lparr>dev_id = 0\<rparr> :: Device)) (senv_files (l_senv long_link)) = Inr long_server"
  "senv_files (l_senv long_link) ''long'' = Some \<lparr>content = long_file, readable = True\<rparr>"
  by (simp_all add: sample_inet_addr_def long_link_def sample_link_def sample_addr_def long_fs_def long_server_def
      ServerTransaction_new_def fs_file_size_def)

end
