(* ===== verification/Rtx_Race.thy ===== *)
theory Rtx_Race
  imports Server_Invariant
begin

text \<open>
  The retransmission request at the granularity of its two atomics. The handler of \<^verbatim>\<open>RTX\<close>
  compares the request with \<^verbatim>\<open>packet_sequence_number_\<close> and stores it in \<^verbatim>\<open>retransmit_psn_\<close> later;
  the sending thread can take an earlier request in between. So \<^term>\<open>server_OnReceive\<close> is two
  steps here, of the receiver's thread alone, which handles one datagram at a time. The sending
  thread's test, \<^verbatim>\<open>exchange\<close> and store stay one step: a store of the handler that falls between
  them has the effect of one before, a comparison between them that of one before.
\<close>

section \<open>The handler in two steps\<close>

text \<open>Up to the comparison: a request that passes it is pending. Every other message is handled
  completely.\<close>

definition server_OnReceive_load ::
  "TrftpMessage \<Rightarrow> nat \<Rightarrow> sockaddr_in \<Rightarrow> ServerTransaction \<Rightarrow> ServerTransaction \<times> u32 option" where
  "server_OnReceive_load msg len addr st =
     (if server_ValidateMessageIntegrity msg len \<and> message_id (xid (header msg)) = RTX \<and> s_status st = DATA \<and>
         ValidateMessage_rtx (msg_rtx msg) (len - sizeof_TrftpHeader)
           \<lparr>rtx_retransmit_psn = s_packet_sequence_number st\<rparr>
      then (st\<lparr>s_client_address := addr\<rparr>, Some (rtx_retransmit_psn (msg_rtx msg)))
      else (server_OnReceive msg len addr st, None))"

definition server_OnReceive_store :: "u32 \<Rightarrow> ServerTransaction \<Rightarrow> ServerTransaction" where
  "server_OnReceive_store k st = st\<lparr>s_retransmit_psn := k\<rparr>"

text \<open>Without a step of another thread in between, the two are the handler.\<close>

lemma server_OnReceive_split:
  "server_OnReceive msg len addr st =
     (case server_OnReceive_load msg len addr st of
        (st', None) \<Rightarrow> st'
      | (st', Some k) \<Rightarrow> server_OnReceive_store k st')"
  by (simp add: server_OnReceive_load_def server_OnReceive_store_def server_OnReceive_def Let_def)

inductive race_step ::
  "UdpSocket \<Rightarrow> ServerTransaction \<times> u32 option \<Rightarrow> ServerTransaction \<times> u32 option \<Rightarrow> bool"
  for sock :: UdpSocket where
  race_caller: "server_SendMessage sock E i st = Inr st' \<Longrightarrow> race_step sock (st, p) (st', p)"
| race_loads: "race_step sock (st, None) (server_OnReceive_load msg len addr st)"
| race_stores: "race_step sock (st, Some k) (server_OnReceive_store k st, None)"
| race_sender: "sender_step sock E st = Inr st' \<Longrightarrow> race_step sock (st, p) (st', p)"

inductive_cases race_stepE: "race_step sock (st, p) s"

definition race_init :: "ServerTransaction \<times> u32 option \<Rightarrow> bool" where
  "race_init s \<longleftrightarrow> server_init (fst s) \<and> snd s = None"

abbreviation race_reachable :: "UdpSocket \<Rightarrow> ServerTransaction \<times> u32 option \<Rightarrow> bool" where
  "race_reachable sock \<equiv> reachable race_init (race_step sock)"

text \<open>Whatever the transaction does with the handler in one step, it does here.\<close>

lemma race_receives:
  assumes "race_reachable sock (st, None)"
  shows "race_reachable sock (server_OnReceive msg len addr st, None)"
proof -
  obtain st' p where load: "server_OnReceive_load msg len addr st = (st', p)" by fastforce
  then have 1: "race_reachable sock (st', p)"
    using reachable.reachable_step [OF assms race_loads] by metis
  show ?thesis
  proof (cases p)
    case None
    then show ?thesis using 1 load by (simp add: server_OnReceive_split)
  next
    case (Some k)
    then show ?thesis
      using reachable.reachable_step [OF 1 [unfolded Some] race_stores] load by (simp add: server_OnReceive_split)
  qed
qed

lemma server_reachable_race:
  assumes "reachable server_init (server_step sock) st"
  shows "race_reachable sock (st, None)"
  using assms
proof induction
  case (reachable_init st)
  then show ?case by (intro reachable.reachable_init) (simp add: race_init_def)
next
  case (reachable_step st st')
  from reachable_step(2) show ?case
  proof cases
    case (caller_sends E i)
    from reachable.reachable_step [OF reachable_step.IH race_caller [OF this]] show ?thesis .
  next
    case (receives msg len addr)
    then show ?thesis using race_receives [OF reachable_step.IH] by simp
  next
    case (sender_runs E)
    from reachable.reachable_step [OF reachable_step.IH race_sender [OF this]] show ?thesis .
  qed
qed

section \<open>What the requests leave alone\<close>

text \<open>The sending thread reads the request where it takes it, and nowhere else.\<close>

abbreviation requesting :: "u32 \<Rightarrow> ServerTransaction \<Rightarrow> ServerTransaction" where
  "requesting k st \<equiv> st\<lparr>s_retransmit_psn := k\<rparr>"

lemma requesting_fields:
  "server_payload i (requesting k st) = server_payload i st"
  "CompleteHeader (requesting k st) = CompleteHeader st"
  "server_control i m (requesting k st) = server_control i m st"
  "data_offset (requesting k st) = data_offset st" "data_len (requesting k st) = data_len st"
  by (cases i; simp add: server_control_def CompleteHeader_def data_offset_def data_len_def fun_eq_iff)+

lemma requesting_swap:
  "requesting k st\<lparr>s_status := i\<rparr> = requesting k (st\<lparr>s_status := i\<rparr>)"
  "requesting k st\<lparr>s_wire := w\<rparr> = requesting k (st\<lparr>s_wire := w\<rparr>)"
  "requesting k st\<lparr>s_ifs := f\<rparr> = requesting k (st\<lparr>s_ifs := f\<rparr>)"
  "requesting k st\<lparr>s_thr := t\<rparr> = requesting k (st\<lparr>s_thr := t\<rparr>)"
  by simp_all

lemma SendMessage_requesting:
  assumes "server_SendMessage sock E i st = Inr st'"
  shows "server_SendMessage sock E i (requesting k st) = Inr (requesting k st')"
proof -
  let ?st = "st\<lparr>s_status := i\<rparr>"
  consider (ignored) "i \<noteq> NTF \<and> i \<noteq> INFO \<and> i \<noteq> DATA \<and> i \<noteq> FIN \<and> i \<noteq> CXL" | (start) "i = DATA"
    | (send) "i = NTF \<or> i = INFO \<or> i = FIN \<or> i = CXL" "i \<noteq> DATA" by blast
  then show ?thesis
  proof cases
    case ignored
    then show ?thesis using assms by (simp add: server_SendMessage_def)
  next
    case start
    then show ?thesis using assms by (auto simp: server_SendMessage_def SendFileAsync_def split: if_splits)
  next
    case send
    then have not: "\<not> (i \<noteq> NTF \<and> i \<noteq> INFO \<and> i \<noteq> DATA \<and> i \<noteq> FIN \<and> i \<noteq> CXL)" by blast
    note unfolded = server_SendMessage_def [of sock E i, unfolded if_not_P [OF not] if_not_P [OF send(2)] Let_def]
    obtain n w where "udp_Send (senv_sendto E) (server_control i (senv_stack E) ?st)
        (sizeof_TrftpHeader + fst (server_payload i ?st)) (s_client_address ?st) sock (s_wire ?st) = Inr (n, w)"
      "st' = ?st\<lparr>s_wire := w\<rparr>"
      using assms unfolding unfolded bind_result_eq_Inr by auto
    then show ?thesis
      unfolding unfolded requesting_swap(1) requesting_fields by (simp del: server_payload.simps)
  qed
qed

lemma send_data_requesting:
  assumes "send_data sock E st = Inr st'"
  shows "send_data sock E (requesting k st) = Inr (requesting k st')"
proof -
  obtain ifs bytes where rd: "ifstream_read (unat (data_len st))
      (ifstream_seekg (unat (data_offset st)) (s_ifs st)) = (ifs, bytes)" by fastforce
  let ?st = "st\<lparr>s_ifs := ifs\<rparr>"
  note unfolded = send_data_def [of sock E, unfolded Let_def]
  show ?thesis
  proof (cases "in_fail ifs")
    case True
    then obtain st1 where st1: "server_SendMessage sock E CXL ?st = Inr st1" "st' = st1\<lparr>s_thr := Returned\<rparr>"
      using assms rd by (auto simp: send_data_def bind_result_eq_Inr)
    have "send_data sock E (requesting k st) =
        bind_result (server_SendMessage sock E CXL (requesting k ?st)) (\<lambda>st. Inr (st\<lparr>s_thr := Returned\<rparr>))"
      using rd True by (simp add: send_data_def requesting_fields)
        (simp only: requesting_swap)
    then show ?thesis
      using SendMessage_requesting [OF st1(1), of k] st1(2) by simp
  next
    case False
    let ?msg = "CompleteHeader ?st (put_payload bytes (senv_stack E)) DATA (s_new_file_size ?st) (s_packet_sequence_number ?st)"
    obtain n w where w: "udp_Send (senv_sendto E) ?msg (sizeof_TrftpHeader + unat (data_len ?st))
        (s_client_address ?st) sock (s_wire ?st) = Inr (n, w)"
      "st' = ?st\<lparr>s_wire := w, s_thr := (if s_packet_sequence_number ?st = s_total_packet_number ?st - 1
                                 then Tail_Wait else For_Incr)\<rparr>"
      using assms rd False by (simp add: send_data_def bind_result_def Let_def split: sum.splits prod.splits)
    have "CompleteHeader (requesting k st\<lparr>s_ifs := ifs\<rparr>) = CompleteHeader ?st"
      "data_len (requesting k st\<lparr>s_ifs := ifs\<rparr>) = data_len ?st"
      unfolding requesting_swap by (rule requesting_fields)+
    then show ?thesis
      using rd False w by (simp add: send_data_def requesting_fields)
  qed
qed

lemma SendMessage_keeps:
  "server_SendMessage sock E i st = Inr st' \<Longrightarrow> s_retransmit_psn st' = s_retransmit_psn st \<and>
     s_total_packet_number st' = s_total_packet_number st \<and> s_packet_sequence_number st' = s_packet_sequence_number st \<and>
     (s_thr st' = s_thr st \<or> s_thr st = Not_Started \<and> s_thr st' = Opening)"
  by (erule server_SendMessage_Inr) auto

lemma send_data_keeps:
  assumes "send_data sock E st = Inr st'"
  shows "s_retransmit_psn st' = s_retransmit_psn st" "s_total_packet_number st' = s_total_packet_number st"
    "s_packet_sequence_number st' = s_packet_sequence_number st" "s_thr st' \<in> {Returned, Tail_Wait, For_Incr}"
  using assms by (auto simp: send_data_def bind_result_eq_Inr Let_def dest!: SendMessage_keeps
      split: prod.splits if_splits)

section \<open>The invariant\<close>

text \<open>The thread takes no request any more: it has counted every packet, or returned.\<close>

definition past_requests :: "ServerTransaction \<Rightarrow> bool" where
  "past_requests st \<longleftrightarrow> \<not> in_loop (s_thr st) \<and>
     (s_packet_sequence_number st = s_total_packet_number st \<or> s_thr st = Returned)"

definition request_ok :: "ServerTransaction \<Rightarrow> u32 \<Rightarrow> bool" where
  "request_ok st k \<longleftrightarrow> k < s_total_packet_number st \<or> k \<le> s_total_packet_number st \<and> past_requests st"

definition race_inv :: "ServerTransaction \<times> u32 option \<Rightarrow> bool" where
  "race_inv s \<longleftrightarrow> server_inv (requesting no_rtx (fst s)) \<and>
     (s_retransmit_psn (fst s) = no_rtx \<or> request_ok (fst s) (s_retransmit_psn (fst s))) \<and>
     (\<forall>k. snd s = Some k \<longrightarrow> request_ok (fst s) k)"

lemma race_inv_keep:
  assumes "race_inv (st, p)" "server_inv (requesting no_rtx st')"
    and "s_retransmit_psn st' = no_rtx \<or> s_retransmit_psn st' = s_retransmit_psn st"
    and "\<And>k. request_ok st k \<Longrightarrow> request_ok st' k"
  shows "race_inv (st', p)"
  using assms by (auto simp: race_inv_def)

lemma race_inv_new: "server_init st \<Longrightarrow> race_inv (st, None)"
  using server_tran.inv_init [of st]
  by (auto simp: server_init_def race_inv_def ServerTransaction_new_def bind_result_eq_Inr server_inv_def)

lemma race_inv_SendMessage:
  assumes "server_SendMessage sock E i st = Inr st'" "race_inv (st, p)"
  shows "race_inv (st', p)"
proof (rule race_inv_keep [OF assms(2)])
  show "server_inv (requesting no_rtx st')"
    using server_SendMessage_inv [OF SendMessage_requesting [OF assms(1)]] assms(2) by (simp add: race_inv_def)
  show "s_retransmit_psn st' = no_rtx \<or> s_retransmit_psn st' = s_retransmit_psn st"
    using SendMessage_keeps [OF assms(1)] by simp
  show "request_ok st k \<Longrightarrow> request_ok st' k" for k
    using SendMessage_keeps [OF assms(1)] by (auto simp: request_ok_def past_requests_def in_loop_def)
qed

text \<open>A request that passes the comparison.\<close>

lemma validated_request_ok:
  assumes "server_inv (requesting no_rtx st)" "k \<le> s_packet_sequence_number st"
  shows "request_ok st k"
proof -
  have st: "s_packet_sequence_number st \<le> s_total_packet_number st"
    "in_loop (s_thr st) \<Longrightarrow> s_packet_sequence_number st < s_total_packet_number st"
    using assms(1) by (simp_all add: server_inv_def)
  show ?thesis
  proof (cases "k < s_total_packet_number st")
    case False
    then have "s_packet_sequence_number st = s_total_packet_number st" "k \<le> s_total_packet_number st"
      using st(1) assms(2) by auto
    then show ?thesis using st(2) by (auto simp: request_ok_def past_requests_def)
  qed (simp add: request_ok_def)
qed

lemma race_inv_load:
  assumes "race_inv (st, None)"
  shows "race_inv (server_OnReceive_load msg len addr st)"
proof -
  note inv = assms [unfolded race_inv_def fst_conv snd_conv]
  have frame: "race_inv (st', None)" if "server_inv (requesting no_rtx st')" "s_thr st' = s_thr st"
    "s_packet_sequence_number st' = s_packet_sequence_number st"
    "s_total_packet_number st' = s_total_packet_number st" "s_retransmit_psn st' = s_retransmit_psn st" for st'
    by (rule race_inv_keep [OF assms]) (use that in \<open>simp_all add: request_ok_def past_requests_def\<close>)
  have pending: "race_inv (st\<lparr>s_client_address := addr\<rparr>, Some k)" if "k \<le> s_packet_sequence_number st" for k
    using frame [of "st\<lparr>s_client_address := addr\<rparr>"] validated_request_ok [of st k] that inv
    by (simp add: race_inv_def server_inv_def request_ok_def past_requests_def)
  let ?acc = "server_ValidateMessageIntegrity msg len \<and> message_id (xid (header msg)) = RTX \<and> s_status st = DATA \<and>
    ValidateMessage_rtx (msg_rtx msg) (len - sizeof_TrftpHeader) \<lparr>rtx_retransmit_psn = s_packet_sequence_number st\<rparr>"
  show ?thesis
  proof (cases ?acc)
    case True
    then have "rtx_retransmit_psn (msg_rtx msg) \<le> s_packet_sequence_number st"
      by (auto simp: ValidateMessage_rtx_def split: if_splits)
    then show ?thesis using True pending by (simp add: server_OnReceive_load_def)
  next
    case False
    have "race_inv (server_OnReceive msg len addr st, None)"
    proof (cases rule: server_OnReceive_cases [of msg len addr st])
      case rdy
      show ?thesis unfolding rdy(3) by (rule frame) (use inv clamp_ipg in \<open>simp_all add: server_inv_def\<close>)
    next
      case rtx
      show ?thesis unfolding rtx(4) using pending [OF rtx(3)] by (simp add: race_inv_def request_ok_def past_requests_def)
    qed (simp_all, (rule frame, use inv in \<open>simp_all add: server_inv_def\<close>)+)
    then show ?thesis using False by (simp only: server_OnReceive_load_def if_False)
  qed
qed

lemma race_inv_store: "race_inv (st, Some k) \<Longrightarrow> race_inv (server_OnReceive_store k st, None)"
  by (simp add: race_inv_def server_OnReceive_store_def request_ok_def past_requests_def)

lemma take_rtx_race_inv:
  assumes "race_inv (st, p)" "in_loop (s_thr st)" "in_loop t"
  shows "race_inv ((take_rtx st)\<lparr>s_thr := t\<rparr>, p)"
proof -
  note inv = assms(1) [unfolded race_inv_def fst_conv snd_conv]
  have live: "\<not> past_requests st" using assms(2) by (simp add: past_requests_def)
  then have ok: "request_ok st k \<Longrightarrow> k < s_total_packet_number st" for k
    by (simp add: request_ok_def)
  have "s_packet_sequence_number (take_rtx st) < s_total_packet_number st"
    using inv ok assms(2) by (auto simp: take_rtx_def server_inv_def)
  then have "server_inv (requesting no_rtx ((take_rtx st)\<lparr>s_thr := t\<rparr>))"
    using inv assms(2,3) in_loop_not [OF assms(3)] by (auto simp: server_inv_def)
  then show ?thesis
    using inv ok by (auto simp: race_inv_def request_ok_def)
qed

lemma race_inv_sender:
  assumes "sender_step sock E st = Inr st'" "race_inv (st, p)"
  shows "race_inv (st', p)"
proof -
  note inv = assms(2) [unfolded race_inv_def fst_conv snd_conv]
  have keep: "race_inv (st', p)" if "sender_step sock E (requesting no_rtx st) = Inr (requesting no_rtx st')"
    "s_retransmit_psn st' = s_retransmit_psn st" "s_total_packet_number st' = s_total_packet_number st"
    "past_requests st \<Longrightarrow> past_requests st'"
    by (rule race_inv_keep [OF assms(2)])
      (use sender_step_inv [OF that(1)] that(2-4) inv in \<open>auto simp: request_ok_def\<close>)
  show ?thesis
  proof (cases "s_thr st")
    case Opening
    show ?thesis
    proof (cases "ifstream_open (s_file_path st) (senv_files E)")
      case None
      then obtain st1 where st1: "server_SendMessage sock E CXL st = Inr st1" "st' = st1\<lparr>s_thr := Returned\<rparr>"
        using assms(1) Opening by (auto simp: sender_step_def bind_result_eq_Inr)
      show ?thesis
        by (rule keep)
          (use SendMessage_requesting [OF st1(1), of no_rtx] SendMessage_keeps [OF st1(1)] st1(2) Opening None
            in \<open>simp_all add: sender_step_def past_requests_def in_loop_def\<close>)
    next
      case (Some ifs)
      then have st': "st' = st\<lparr>s_ifs := ifs, s_packet_sequence_number := 0, s_thr := For_Test\<rparr>"
        using assms(1) Opening by (simp add: sender_step_def)
      have "s_packet_sequence_number st = 0" using inv Opening by (simp add: server_inv_def)
      then show ?thesis
        by (intro keep) (use Some Opening in \<open>simp_all add: st' sender_step_def past_requests_def in_loop_def\<close>)
    qed
  next
    case Check_Rtx
    then show ?thesis
      using assms take_rtx_race_inv [of st p Send_Data] by (auto simp: sender_step_def in_loop_def)
  next
    case Tail_Wait
    then show ?thesis
      using assms take_rtx_race_inv [of st p For_Incr] by (auto simp: sender_step_def in_loop_def)
  next
    case Send_Data
    then have send: "send_data sock E st = Inr st'" using assms(1) by (simp add: sender_step_def)
    show ?thesis
      by (rule keep) (use send_data_requesting [OF send, of no_rtx] send_data_keeps [OF send] Send_Data
          in \<open>simp_all add: sender_step_def past_requests_def in_loop_def\<close>)
  qed (intro keep; use assms(1) in \<open>auto simp: sender_step_def past_requests_def in_loop_def split: if_splits\<close>)+
qed

interpretation race: invariant_system race_init "race_step sock" race_inv for sock
proof unfold_locales
  show "race_inv s" if "race_init s" for s
    using that race_inv_new [of "fst s"] by (cases s) (simp add: race_init_def)
  show "race_inv t" if "race_inv s" "race_step sock s t" for s t
    using that(2,1) by cases (blast intro: race_inv_SendMessage race_inv_load race_inv_store race_inv_sender)+
qed

section \<open>What holds at this granularity\<close>

lemma race_bounds:
  assumes "race_reachable sock (st, p)"
  shows "s_packet_sequence_number st \<le> s_total_packet_number st"
    and "in_loop (s_thr st) \<Longrightarrow> s_packet_sequence_number st < s_total_packet_number st"
    and "in_loop (s_thr st) \<Longrightarrow> unat (data_offset st) = unat (s_packet_sequence_number st) * 1408 \<and>
      unat (data_offset st) + unat (data_len st) \<le> unat (s_new_file_size st) \<and> 0 < unat (data_len st)"
    and "s_retransmit_psn st = k \<and> k \<noteq> no_rtx \<or> p = Some k \<Longrightarrow> k \<le> s_total_packet_number st"
    and "s_retransmit_psn st = k \<and> k \<noteq> no_rtx \<or> p = Some k \<Longrightarrow> in_loop (s_thr st) \<Longrightarrow> k < s_total_packet_number st"
    and "100 \<le> s_inter_packet_gap st" "s_inter_packet_gap st \<le> 300"
    and "unat (s_total_packet_number st) =
      (if unat (s_new_file_size st) + 1407 < 2 ^ 32 then (unat (s_new_file_size st) + 1407) div 1408 else 0)"
proof -
  have "race_inv (st, p)" by (rule race.reachable_inv [OF assms])
  note inv = this [unfolded race_inv_def fst_conv snd_conv]
  show "s_packet_sequence_number st \<le> s_total_packet_number st"
    "in_loop (s_thr st) \<Longrightarrow> s_packet_sequence_number st < s_total_packet_number st"
    "100 \<le> s_inter_packet_gap st" "s_inter_packet_gap st \<le> 300"
    using inv by (simp_all add: server_inv_def)
  show "unat (data_offset st) = unat (s_packet_sequence_number st) * 1408 \<and>
      unat (data_offset st) + unat (data_len st) \<le> unat (s_new_file_size st) \<and> 0 < unat (data_len st)"
    if "in_loop (s_thr st)"
    using data_offset_len [of "requesting no_rtx st"] inv that by (simp add: requesting_fields)
  show "k \<le> s_total_packet_number st" if "s_retransmit_psn st = k \<and> k \<noteq> no_rtx \<or> p = Some k"
    using inv that by (auto simp: request_ok_def)
  show "k < s_total_packet_number st" if "s_retransmit_psn st = k \<and> k \<noteq> no_rtx \<or> p = Some k" "in_loop (s_thr st)"
    using inv that by (auto simp: request_ok_def past_requests_def)
  have "server_packets (s_new_file_size st) = s_total_packet_number st"
    using inv by (simp add: server_inv_def)
  then show "unat (s_total_packet_number st) =
      (if unat (s_new_file_size st) + 1407 < 2 ^ 32 then (unat (s_new_file_size st) + 1407) div 1408 else 0)"
    using server_packets_no_wrap [of "s_new_file_size st"] server_packets_wrap [of "s_new_file_size st"]
    by (auto simp: no_wrap_def)
qed

end
