(* ===== verification/Recovery.thy ===== *)
theory Recovery
  imports Lossless
begin

text \<open>
  A packet lost in the middle of a file: the client asks for it when the next one arrives, the
  sending thread goes back to it, and the transfer completes. The first packet is another
  matter: the client cancels when the second one comes first.
\<close>

section \<open>The client\<close>

lemma client_gets_next:
  assumes "receiving bs st k ct" "Suc k < packets_of bs"
    and "good_env E" "transferable bs" "wf_message j" "wf_message cj" "unat (s_new_file_size st) = length bs"
  shows "\<exists>ct'. client_OnReceive Transaction_Thread cb E (recv_packet cj j bs st k)
      (32 + slice_len (length bs) k) addr ct = Inr ct' \<and>
    receiving bs st (Suc k) ct' \<and> c_wire ct' = c_wire ct"
proof -
  let ?msg = "recv_packet cj j bs st k" and ?n = "slice_len (length bs) k"
  let ?ct = "ct\<lparr>c_server_address := addr\<rparr>"
  have k: "k < packets_of bs" using assms(2) by simp
  have rec: "receiving bs st k ?ct" using assms(1) by simp
  note hd = recv_packet_header [OF assms(5-7) k]
  note stored = client_stores_packet [OF rec assms(3) k recv_packet_fields(2) [OF assms(5,6)] hd(4,2)
      packet_admissible [OF rec assms(4-7) k]]
  have "c_wire (client_data_state E ?msg ?n ?ct) = c_wire ct"
    by (simp add: client_data_state_def)
  then show ?thesis
    using stored(1,3) client_gets_packet [OF assms(1,3-7) k] assms(2) by auto
qed

lemma client_feed_prefix:
  assumes "receiving bs st k ct" "k \<le> m" "m < packets_of bs"
    and "good_env E" "transferable bs" "wf_message j" "wf_message cj" "unat (s_new_file_size st) = length bs"
  shows "\<exists>ct'. client_feed cb (map (packet_delivery E cj j addr bs st) [k ..< m]) ct = Inr ct' \<and>
    receiving bs st m ct' \<and> c_wire ct' = c_wire ct"
  using assms(1-3)
proof (induction "m - k" arbitrary: k ct)
  case 0
  then show ?case by simp
next
  case (Suc d)
  then have k: "k < m" "Suc k < packets_of bs" by simp_all
  obtain ct1 where ct1: "client_OnReceive Transaction_Thread cb E (recv_packet cj j bs st k)
      (32 + slice_len (length bs) k) addr ct = Inr ct1" "receiving bs st (Suc k) ct1" "c_wire ct1 = c_wire ct"
    using client_gets_next [OF Suc.prems(1) k(2) assms(4-8)] by blast
  have "d = m - Suc k" "Suc k \<le> m" using Suc.hyps(2) k(1) by simp_all
  from Suc.hyps(1) [OF this(1) ct1(2) this(2) Suc.prems(3)] show ?case
    using ct1(1,3) k(1) by (auto simp: upt_conv_Cons packet_delivery_def)
qed

text \<open>Past the first packet, every packet of the file is admissible.\<close>

lemma later_packet_admissible:
  assumes rec: "receiving bs st k ct" and k: "0 < k" "0 < i" "i < packets_of bs"
    and ok: "transferable bs" "wf_message j" "wf_message cj" "unat (s_new_file_size st) = length bs"
  shows "client_data_admissible (recv_packet cj j bs st i) (slice_len (length bs) i) ct"
proof -
  let ?s = "(c_new_file_stream ct)\<lparr>out_data := take (i * 1408) bs\<rparr>"
  let ?ct = "ct\<lparr>c_packet_sequence_number := of_nat i, c_new_file_stream := ?s\<rparr>"
  have "unat (of_nat i :: u32) = i"
    using of_nat_packet_less(2) [of i "s_new_file_size st"] k(3) ok(4) by (simp add: packets_of_def)
  then have "receiving bs st i ?ct"
    using rec k(1,2) ok(1,4) by (auto simp: receiving_def holds_prefix_def client_receiving_def transferable_def)
  from packet_admissible [OF this ok k(3)] show ?thesis
    by (auto simp: client_data_admissible_def split: if_splits)
qed

lemma client_asks_again:
  assumes rec: "receiving bs st k ct" and k: "0 < k" "k < i" "i < packets_of bs"
    and E: "good_env E" and ok: "transferable bs" "wf_message j" "wf_message cj"
      "unat (s_new_file_size st) = length bs"
  shows "\<exists>ct' x. client_OnReceive Transaction_Thread cb E (recv_packet cj j bs st i)
      (32 + slice_len (length bs) i) addr ct = Inr ct' \<and> receiving bs st k ct' \<and>
    c_wire ct' = c_wire ct @ [(addr, client_image RTX (env_stack E) x)] \<and>
    unat (c_packet_sequence_number x) = k"
proof -
  let ?msg = "recv_packet cj j bs st i" and ?n = "slice_len (length bs) i"
  let ?ct = "ct\<lparr>c_server_address := addr\<rparr>"
  have i: "0 < i" using k(2) by simp
  have ri: "receiving bs st k ?ct" using rec by simp
  have adm: "client_data_admissible ?msg ?n ?ct"
    by (rule later_packet_admissible [OF ri k(1) i k(3) ok])
  have psn: "unat (c_packet_sequence_number ct) = k" and fd: "0 \<le> fd (c_udp_socket ct)"
    using rec by (simp_all add: receiving_def holds_prefix_def)
  have ne: "psn (header ?msg) \<noteq> c_packet_sequence_number ct"
    using recv_packet_header(2) [OF ok(2-4) k(3)] psn k(2) by auto
  have valid: "client_ValidateMessageIntegrity ?msg (32 + ?n)"
    using data_packet_accepted [OF ok(2-4)] k(3) ok(1) by (simp add: packets_of_def transferable_def)
  let ?ct' = "?ct\<lparr>c_wire := c_wire ct @ [(addr, client_image RTX (env_stack E) ?ct)]\<rparr>"
  have "client_OnReceive Transaction_Thread cb E ?msg (32 + ?n) addr ct = client_SendMessage E RTX ?ct"
    using valid recv_packet_header(1) [OF ok(2-4) k(3)] adm ne
    by (simp add: client_OnReceive_def client_on_data_def sizeof_defs)
  also have "\<dots> = Inr ?ct'"
    using client_SendMessage_ok [of RTX E ?ct] E fd by (simp add: good_env_def client_sent_status_def)
  finally show ?thesis
    using rec psn by (intro exI [of _ ?ct'] exI [of _ ?ct]) (simp add: receiving_def)
qed

text \<open>A later packet in place of the first one cancels.\<close>

lemma first_packet_lost:
  assumes rec: "receiving bs st 0 ct" and i: "0 < i" "i < packets_of bs"
    and E: "good_env E" and ok: "transferable bs" "wf_message j" "wf_message cj"
      "unat (s_new_file_size st) = length bs"
  shows "\<exists>ct' x. client_OnReceive Transaction_Thread cb E (recv_packet cj j bs st i)
      (32 + slice_len (length bs) i) addr ct = Inr ct' \<and> c_status ct' = CXL \<and> \<not> client_IsAlive ct' \<and>
    c_wire ct' = c_wire ct @ [(addr, client_image CXL (env_stack E) x)]"
proof -
  let ?msg = "recv_packet cj j bs st i" and ?n = "slice_len (length bs) i"
  let ?ct = "ct\<lparr>c_server_address := addr\<rparr>"
  note hd = recv_packet_header [OF ok(2-4) i(2)]
  have "psn (header ?msg) \<noteq> 0" using hd(2) i(1) by auto
  moreover have "c_status ct = RDY" "0 \<le> fd (c_udp_socket ct)"
    using rec by (simp_all add: receiving_def holds_prefix_def)
  ultimately have adm: "\<not> client_data_admissible ?msg ?n ?ct" "0 \<le> fd (c_udp_socket ?ct)"
    by (simp_all add: client_data_admissible_def)
  have "client_ValidateMessageIntegrity ?msg (32 + ?n)"
    using data_packet_accepted [OF ok(2-4)] i(2) ok(1) by (simp add: packets_of_def transferable_def)
  then have "client_OnReceive Transaction_Thread cb E ?msg (32 + ?n) addr ct = client_SendMessage E CXL ?ct"
    using hd(1) adm(1) by (simp add: client_OnReceive_def client_on_data_def sizeof_defs)
  then show ?thesis
    using client_SendMessage_ok [of CXL E ?ct] E adm(2)
    by (auto simp: good_env_def client_sent_status_def client_IsAlive_def)
qed

section \<open>The sending thread\<close>

lemma packets_run:
  assumes "server_inv st" "s_thr st = For_Test" "sends sock E" "holds_file bs st"
    "s_status st \<noteq> CXL" "s_retransmit_psn st = no_rtx"
    and "unat (s_packet_sequence_number st) + m \<le> unat (s_total_packet_number st)"
  shows "\<exists>i n. n \<le> 6 * m \<and> sender_run sock E n st =
      Inr (advance st (s_packet_sequence_number st + of_nat m) For_Test i
        (s_wire st @ map (data_datagram (senv_stack E) bs st)
          [unat (s_packet_sequence_number st) ..< unat (s_packet_sequence_number st) + m])) \<and>
    \<not> in_fail i \<and> in_data i = bs"
  using assms
proof (induction m)
  case 0
  have "sender_run sock E 0 st = Inr (advance st (s_packet_sequence_number st) For_Test (s_ifs st) (s_wire st))"
    using "0.prems"(2,6) by (simp add: advance_def)
  then show ?case
    using "0.prems"(4) by (intro exI [of _ "s_ifs st"] exI [of _ "0 :: nat"]) (simp add: holds_file_def)
next
  case (Suc m)
  let ?k = "s_packet_sequence_number st" and ?dg = "data_datagram (senv_stack E) bs st"
  obtain i n where n: "n \<le> 6 * m" and run: "sender_run sock E n st = Inr (advance st (?k + of_nat m) For_Test i
      (s_wire st @ map ?dg [unat ?k ..< unat ?k + m]))" (is "_ = Inr ?st") and i: "\<not> in_fail i" "in_data i = bs"
    using Suc.IH Suc.prems by auto
  have fits: "unat ?k + m < 2 ^ 32"
    using Suc.prems(7) unat_lt_32 [of "s_total_packet_number st"] by simp
  then have km: "unat (?k + of_nat m) = unat ?k + m"
    by (simp add: unat_word_ariths unsigned_of_nat take_bit_nat_eq_self)
  have less: "s_packet_sequence_number ?st < s_total_packet_number ?st"
    using Suc.prems(7) km by (simp add: word_less_nat_alt)
  have f: "holds_file bs ?st" using i Suc.prems(4) by (simp add: holds_file_def)
  obtain i' n' where n': "n' \<le> 6" and run': "sender_run sock E n' ?st = Inr (advance ?st (?k + of_nat m + 1)
      For_Test i' (s_wire ?st @ [?dg (unat ?k + m)]))" and i': "\<not> in_fail i'" "in_data i' = bs"
    using packet_run [OF sender_run_inv [OF run Suc.prems(1)] _ Suc.prems(3) f _ _ less] Suc.prems(5) km
    by auto
  have "sender_run sock E (n + n') st = Inr (advance st (?k + of_nat m + 1) For_Test i'
      ((s_wire st @ map ?dg [unat ?k ..< unat ?k + m]) @ [?dg (unat ?k + m)]))"
    using run run' by (simp add: sender_run_add)
  also have "?k + of_nat m + 1 = ?k + of_nat (Suc m)"
    by simp
  also have "(s_wire st @ map ?dg [unat ?k ..< unat ?k + m]) @ [?dg (unat ?k + m)] =
      s_wire st @ map ?dg [unat ?k ..< unat ?k + Suc m]"
    by simp
  finally have "sender_run sock E (n + n') st = Inr (advance st (?k + of_nat (Suc m)) For_Test i'
      (s_wire st @ map ?dg [unat ?k ..< unat ?k + Suc m]))" .
  then show ?case
    using n n' i' by (intro exI [of _ i'] exI [of _ "n + n'"]) simp
qed

text \<open>The thread at the test of its loop with packet \<open>a\<close> next: counted, or requested.\<close>

definition waits_at :: "byte list \<Rightarrow> nat \<Rightarrow> ServerTransaction \<Rightarrow> bool" where
  "waits_at bs a st \<longleftrightarrow>
     server_inv st \<and> s_thr st = For_Test \<and> holds_file bs st \<and> s_status st = DATA \<and>
     unat (s_total_packet_number st) = packets_of bs \<and> a < packets_of bs \<and>
     (if s_retransmit_psn st = no_rtx then unat (s_packet_sequence_number st) = a
      else unat (s_retransmit_psn st) = a \<and> a < unat (s_packet_sequence_number st) \<and>
        unat (s_packet_sequence_number st) < packets_of bs)"

lemma requested_packet:
  assumes inv: "server_inv st" "s_thr st = For_Test" and env: "sends sock E" and f: "holds_file bs st"
    and live: "s_status st \<noteq> CXL" and k: "s_retransmit_psn st = k" "k \<noteq> no_rtx"
    and less: "s_packet_sequence_number st < s_total_packet_number st" "k < s_packet_sequence_number st"
  shows "\<exists>i. sender_run sock E 5 st = Inr (advance st (k + 1) For_Test i
      (s_wire st @ [data_datagram (senv_stack E) bs st (unat k)])) \<and> \<not> in_fail i \<and> in_data i = bs"
proof -
  let ?t = "s_total_packet_number st" and ?dg = "data_datagram (senv_stack E) bs st"
  let ?st = "st\<lparr>s_packet_sequence_number := k, s_retransmit_psn := no_rtx, s_thr := Send_Data\<rparr>"
  have to_send: "sender_run sock E 3 st = Inr ?st"
    using inv(2) live less k by (simp add: sender_step_def take_rtx_def numeral_3_eq_3)
  have inv': "server_inv ?st"
    by (rule sender_run_inv [OF to_send inv(1)])
  have f': "holds_file bs ?st" and dg: "data_datagram j bs ?st = data_datagram j bs st" for j
    using f by (simp_all add: holds_file_def data_datagram_def data_packet_def CompleteHeader_def fun_eq_iff)
  have "k \<noteq> ?t - 1"
  proof
    assume eq: "k = ?t - 1"
    have "?t \<noteq> 0" using less by auto
    then have "unat (?t - 1) = unat ?t - 1" by (rule unat_minus_one)
    then show False using eq less by (simp add: word_less_nat_alt)
  qed
  then obtain i where send: "send_data sock E ?st = Inr (?st\<lparr>s_ifs := i, s_wire := s_wire st @ [?dg (unat k)],
      s_thr := For_Incr\<rparr>)" and i: "\<not> in_fail i" "in_data i = bs"
    using send_data_run [OF inv' _ env f'] by (auto simp: dg)
  let ?next = "advance st (k + 1) For_Test i (s_wire st @ [?dg (unat k)])"
  have "sender_run sock E 2 ?st = Inr ?next"
    using send by (simp add: sender_step_def numeral_2_eq_2 advance_def)
  then have "sender_run sock E 5 st = Inr ?next"
    using sender_run_add [of sock E 3 2 st] to_send by simp
  then show ?thesis using i by blast
qed

lemma unat_of_nat_32: "k < 2 ^ 32 \<Longrightarrow> unat (of_nat k :: u32) = k"
  by (simp add: unsigned_of_nat take_bit_nat_eq_self)

lemma next_packet:
  assumes w: "waits_at bs a st" and env: "sends sock E"
  shows "\<exists>i n. n \<le> 6 \<and> sender_run sock E n st = Inr (advance st (of_nat (Suc a)) For_Test i
      (s_wire st @ [data_datagram (senv_stack E) bs st a])) \<and> \<not> in_fail i \<and> in_data i = bs"
proof -
  note w' = w [unfolded waits_at_def]
  have live: "s_status st \<noteq> CXL" using w' by simp
  have small: "packets_of bs < 2 ^ 32"
    using w' unat_lt_32 [of "s_total_packet_number st"] by simp
  show ?thesis
  proof (cases "s_retransmit_psn st = no_rtx")
    case True
    have "s_packet_sequence_number st = of_nat a" "s_packet_sequence_number st < s_total_packet_number st"
      using w' True small by (simp_all add: word_unat_eq_iff unat_of_nat_32 word_less_nat_alt)
    then show ?thesis
      using packet_run [of st sock E bs] w' env live True by (simp add: unat_of_nat_32 add.commute)
  next
    case False
    have "s_retransmit_psn st = of_nat a" "s_packet_sequence_number st < s_total_packet_number st"
      "s_retransmit_psn st < s_packet_sequence_number st"
      using w' False small by (simp_all add: word_unat_eq_iff unat_of_nat_32 word_less_nat_alt)
    then obtain i where "sender_run sock E 5 st = Inr (advance st (of_nat (Suc a)) For_Test i
        (s_wire st @ [data_datagram (senv_stack E) bs st a]))" "\<not> in_fail i" "in_data i = bs"
      using requested_packet [of st sock E bs, OF _ _ env _ live refl False] w' False
      by (auto simp: add.commute)
    then show ?thesis by (intro exI [of _ i] exI [of _ "5 :: nat"]) simp
  qed
qed

lemma waits_packets:
  assumes w: "waits_at bs a st" and env: "sends sock E" and m: "a < m" "m \<le> packets_of bs"
  shows "\<exists>i n. n \<le> 6 * (m - a) \<and> sender_run sock E n st = Inr (advance st (of_nat m) For_Test i
      (s_wire st @ map (data_datagram (senv_stack E) bs st) [a ..< m])) \<and> \<not> in_fail i \<and> in_data i = bs"
proof -
  let ?dg = "data_datagram (senv_stack E) bs st"
  note w' = w [unfolded waits_at_def]
  obtain i n where n: "n \<le> 6" and run: "sender_run sock E n st = Inr (advance st (of_nat (Suc a)) For_Test i
      (s_wire st @ [?dg a]))" (is "_ = Inr ?st") and i: "\<not> in_fail i" "in_data i = bs"
    using next_packet [OF w env] by blast
  have psn: "unat (s_packet_sequence_number ?st) = Suc a"
    using w' unat_lt_32 [of "s_total_packet_number st"] by (simp add: unat_of_nat_32 del: of_nat_Suc)
  have f: "holds_file bs ?st" using i w' by (simp add: holds_file_def)
  have upto: "Suc a + (m - Suc a) = m" using m(1) by simp
  have sum: "of_nat (Suc a) + of_nat (m - Suc a) = (of_nat m :: u32)"
    by (simp only: of_nat_add [symmetric] upto)
  obtain i' n' where n': "n' \<le> 6 * (m - Suc a)" and run': "sender_run sock E n' ?st =
      Inr (advance ?st (of_nat m) For_Test i' (s_wire ?st @ map ?dg [Suc a ..< m]))"
    and i': "\<not> in_fail i'" "in_data i' = bs"
    using packets_run [OF sender_run_inv [OF run] _ env f, of "m - Suc a", unfolded psn upto] w' m(2)
      sum by (auto simp del: of_nat_Suc)
  have "[a ..< m] = a # [Suc a ..< m]" using m(1) by (rule upt_conv_Cons)
  then have "sender_run sock E (n + n') st = Inr (advance st (of_nat m) For_Test i'
      (s_wire st @ map ?dg [a ..< m]))"
    using run run' by (simp add: sender_run_add)
  then show ?thesis
    using n n' i' m(1) by (intro exI [of _ i'] exI [of _ "n + n'"]) simp
qed

lemma waits_rest:
  assumes w: "waits_at bs a st" and env: "sends sock E"
  shows "\<exists>i n. n \<le> 6 * (packets_of bs - a) + 1 \<and> sender_run sock E n st =
      Inr (advance st (s_total_packet_number st) Returned i
        (s_wire st @ map (data_datagram (senv_stack E) bs st) [a ..< packets_of bs]))"
proof -
  note w' = w [unfolded waits_at_def]
  have total: "of_nat (packets_of bs) = s_total_packet_number st"
    using w' unat_lt_32 [of "s_total_packet_number st"] by (simp add: word_unat_eq_iff unat_of_nat_32)
  obtain i n where n: "n \<le> 6 * (packets_of bs - a)" and run: "sender_run sock E n st =
      Inr (advance st (s_total_packet_number st) For_Test i
        (s_wire st @ map (data_datagram (senv_stack E) bs st) [a ..< packets_of bs]))"
    using waits_packets [OF w env, of "packets_of bs"] w' total by auto
  have "sender_run sock E (n + 1) st = Inr (advance st (s_total_packet_number st) Returned i
        (s_wire st @ map (data_datagram (senv_stack E) bs st) [a ..< packets_of bs]))"
    using run by (simp only: sender_run_add) (simp add: sender_step_def advance_def)
  then show ?thesis using n by (intro exI [of _ i] exI [of _ "n + 1"]) simp
qed

section \<open>A transfer that loses packets\<close>

text \<open>
  The later packets of a burst, one request each; the server takes them all before the sending
  thread looks at the request again.
\<close>

lemma client_asks_for_each:
  assumes "receiving bs st k ct" "0 < k" "k < i" "m \<le> packets_of bs"
    and ok: "good_env E" "transferable bs" "wf_message j" "wf_message cj"
      "unat (s_new_file_size st) = length bs"
  shows "\<exists>ct' xs. client_feed cb (map (packet_delivery E cj j addr bs st) [i ..< m]) ct = Inr ct' \<and>
    receiving bs st k ct' \<and> length xs = m - i \<and>
    c_wire ct' = c_wire ct @ map (\<lambda>x. (addr, client_image RTX (env_stack E) x)) xs \<and>
    (\<forall>x \<in> set xs. unat (c_packet_sequence_number x) = k)"
  using assms(1-4)
proof (induction "m - i" arbitrary: i ct)
  case 0
  then show ?case by (intro exI [of _ ct] exI [of _ "[]"]) simp
next
  case (Suc d)
  then have i: "i < m" "i < packets_of bs" by simp_all
  obtain ct1 x where ct1: "client_OnReceive Transaction_Thread cb E (recv_packet cj j bs st i)
      (32 + slice_len (length bs) i) addr ct = Inr ct1" "receiving bs st k ct1"
    "c_wire ct1 = c_wire ct @ [(addr, client_image RTX (env_stack E) x)]"
    "unat (c_packet_sequence_number x) = k"
    using client_asks_again [OF Suc.prems(1-3) i(2) ok] by blast
  have "d = m - Suc i" "k < Suc i" using Suc.hyps(2) Suc.prems(3) by simp_all
  from Suc.hyps(1) [OF this(1) ct1(2) Suc.prems(2) this(2) Suc.prems(4)]
  obtain ct2 xs where "client_feed cb (map (packet_delivery E cj j addr bs st) [Suc i ..< m]) ct1 = Inr ct2"
    "receiving bs st k ct2" "length xs = m - Suc i"
    "c_wire ct2 = c_wire ct1 @ map (\<lambda>x. (addr, client_image RTX (env_stack E) x)) xs"
    "\<forall>x \<in> set xs. unat (c_packet_sequence_number x) = k" by blast
  then show ?case
    using ct1 i(1) by (intro exI [of _ ct2] exI [of _ "x # xs"])
      (simp add: upt_conv_Cons packet_delivery_def Suc_diff_Suc)
qed

definition server_gets_each :: "link \<Rightarrow> datagram list \<Rightarrow> ServerTransaction \<Rightarrow> ServerTransaction" where
  "server_gets_each L wire = fold (\<lambda>d. server_gets L [d]) wire"

lemma server_gets_requests:
  assumes "good_link L" "s_status st = DATA" "xs \<noteq> []" "k < 2 ^ 32"
    and "k \<le> unat (s_packet_sequence_number st)" "\<forall>x \<in> set xs. unat (c_packet_sequence_number x) = k"
  shows "server_gets_each L (map (\<lambda>x. (l_saddr L, client_image RTX (env_stack (l_env L)) x)) xs) st =
    st\<lparr>s_client_address := l_caddr L, s_retransmit_psn := of_nat k\<rparr>"
  using assms
proof (induction xs arbitrary: st)
  case (Cons x xs)
  have wf: "wf_message (env_stack (l_env L))" "wf_message (l_j L)"
    using Cons.prems(1) by (simp_all add: good_link_def good_env_def)
  have x: "c_packet_sequence_number x = of_nat k"
    using Cons.prems(6) by (auto simp: word_unat_eq_iff)
  have "server_gets L [(l_saddr L, client_image RTX (env_stack (l_env L)) x)] st =
      st\<lparr>s_client_address := l_caddr L, s_retransmit_psn := of_nat k\<rparr>"
    using server_gets_RTX [OF wf Cons.prems(2), of x] Cons.prems(5,6) x
    by (simp add: server_gets_def word_le_nat_alt)
  then show ?case
    using Cons.IH [of "st\<lparr>s_client_address := l_caddr L, s_retransmit_psn := of_nat k\<rparr>"] Cons.prems
    by (cases "xs = []") (simp_all add: server_gets_each_def)
qed simp

lemma server_gets_each_inv: "server_inv st \<Longrightarrow> server_inv (server_gets_each L ds st)"
  by (induction ds arbitrary: st) (simp_all add: server_gets_each_def server_gets_def server_OnReceive_inv)

text \<open>
  A round in which the packets of \<open>K\<close> are lost: the thread takes \<open>n\<close> steps, the client gets what
  it sent in these but for the packets of \<open>K\<close>, and the server what the client answers.
\<close>

definition losing :: "nat set \<Rightarrow> delivery list \<Rightarrow> delivery list" where
  "losing K = filter (\<lambda>d. unat (psn (header (del_msg d))) \<notin> K)"

definition lossy_round ::
  "link \<Rightarrow> on_file_received \<Rightarrow> nat \<times> nat set \<Rightarrow> ServerTransaction \<times> ClientTransaction \<Rightarrow>
   (ServerTransaction \<times> ClientTransaction) result" where
  "lossy_round L cb r s =
     bind_result (sender_run (l_sock L) (l_senv L) (fst r) (fst s)) (\<lambda>st.
     bind_result
       (client_feed cb (losing (snd r)
          (map (delivered L) (drop (length (s_wire (fst s))) (s_wire st)))) (snd s)) (\<lambda>ct.
     Inr (server_gets_each L (drop (length (c_wire (snd s))) (c_wire ct)) st, ct)))"

fun lossy_rounds ::
  "link \<Rightarrow> on_file_received \<Rightarrow> (nat \<times> nat set) list \<Rightarrow> ServerTransaction \<times> ClientTransaction \<Rightarrow>
   (ServerTransaction \<times> ClientTransaction) result" where
  "lossy_rounds L cb [] s = Inr s"
| "lossy_rounds L cb (r # rs) s = bind_result (lossy_round L cb r s) (lossy_rounds L cb rs)"

text \<open>Between two rounds both sides are at packet \<open>a\<close>.\<close>

definition at_packet :: "byte list \<Rightarrow> ServerTransaction \<Rightarrow> nat \<Rightarrow> ServerTransaction \<times> ClientTransaction \<Rightarrow> bool" where
  "at_packet bs st0 a s \<longleftrightarrow>
     waits_at bs a (fst s) \<and> receiving bs (fst s) a (snd s) \<and>
     s_new_file_crc32 (fst s) = CalculateCrc32 bs (length bs) 0 \<and>
     s_new_file_version (fst s) = s_new_file_version st0"

lemma losing_packets:
  assumes "wf_message j" "wf_message cj" "unat (s_new_file_size st) = length bs" "m \<le> packets_of bs"
  shows "losing K (map (packet_delivery E cj j addr bs st) [a ..< m]) =
    map (packet_delivery E cj j addr bs st) (filter (\<lambda>i. i \<notin> K) [a ..< m])"
proof -
  have "unat (psn (header (del_msg (packet_delivery E cj j addr bs st i)))) = i" if "i < m" for i
  proof -
    have "i < packets_of bs" using that assms(4) by simp
    then show ?thesis
      using recv_packet_header(2) [OF assms(1-3)] by (simp add: packet_delivery_def)
  qed
  then show ?thesis
    by (auto simp: losing_def filter_map comp_def intro!: arg_cong [of _ _ "map _"] filter_cong)
qed

lemma filter_gap:
  assumes "a \<le> k" "k < m"
  shows "filter (\<lambda>i. i \<notin> {k}) [a ..< m] = [a ..< k] @ [Suc k ..< m]"
proof -
  have "[a ..< m] = [a ..< k] @ k # [Suc k ..< m]"
    using assms upt_add_eq_append [of a k "m - k"] by (simp add: upt_conv_Cons)
  moreover have "filter (\<lambda>i. i \<noteq> k) [a ..< k] = [a ..< k]" "filter (\<lambda>i. i \<noteq> k) [Suc k ..< m] = [Suc k ..< m]"
    by (simp_all add: filter_id_conv)
  ultimately show ?thesis by simp
qed

text \<open>A burst of which the client gets the packets up to \<open>k\<close> and some after it.\<close>

lemma round_with_gap:
  assumes L: "good_link L" and tr: "transferable bs" and rec: "receiving bs st a ct"
    and st: "s_status st = DATA" "unat (s_new_file_size st) = length bs" "unat (s_total_packet_number st) = packets_of bs"
    and run: "sender_run (l_sock L) (l_senv L) n st = Inr (advance st (of_nat q) pc ifs
      (s_wire st @ map (data_datagram (senv_stack (l_senv L)) bs st) [b ..< m]))" (is "_ = Inr ?st2")
    and gap: "filter (\<lambda>i. i \<notin> K) [b ..< m] = [a ..< k] @ [i ..< m]"
    and k: "a \<le> k" "0 < k" "k < i" "i < m" "m \<le> packets_of bs" "k \<le> q" "q \<le> packets_of bs"
  shows "\<exists>ct2. lossy_round L cb (n, K) (st, ct) =
      Inr (?st2\<lparr>s_client_address := l_caddr L, s_retransmit_psn := of_nat k\<rparr>, ct2) \<and> receiving bs st k ct2 \<and>
    requested_psns (c_wire ct2) = requested_psns (c_wire ct) @ replicate (m - i) k"
proof -
  have wf: "wf_message (senv_stack (l_senv L))" "wf_message (l_cj L)" and E: "good_env (l_env L)"
    and wfe: "wf_message (env_stack (l_env L))"
    using L by (simp_all add: good_link_def good_env_def)
  let ?m = "senv_stack (l_senv L)"
  let ?pd = "packet_delivery (l_env L) (l_cj L) ?m (l_saddr L) bs st"
  have dels: "delivered L \<circ> data_datagram ?m bs st = ?pd"
    by (simp add: sent_deliveries [OF wf(1)] fun_eq_iff)
  have kp: "k < packets_of bs" using k(3-5) by simp
  obtain ct1 where ct1: "client_feed cb (map ?pd [a ..< k]) ct = Inr ct1" "receiving bs st k ct1" "c_wire ct1 = c_wire ct"
    using client_feed_prefix [OF rec k(1) kp E tr wf st(2)] by blast
  obtain ct2 xs where ct2: "client_feed cb (map ?pd [i ..< m]) ct1 = Inr ct2" "receiving bs st k ct2"
    and xs: "length xs = m - i" "\<forall>x \<in> set xs. unat (c_packet_sequence_number x) = k"
      "c_wire ct2 = c_wire ct1 @ map (\<lambda>x. (l_saddr L, client_image RTX (env_stack (l_env L)) x)) xs"
    using client_asks_for_each [OF ct1(2) k(2,3,5) E tr wf st(2)] by blast
  have small: "k < 2 ^ 32" "unat (of_nat q :: u32) = q"
    using kp k(7) st(3) unat_lt_32 [of "s_total_packet_number st"] by (simp_all add: unat_of_nat_32)
  have "xs \<noteq> []" using xs(1) k(4) by auto
  then have "server_gets_each L (drop (length (c_wire ct)) (c_wire ct2)) ?st2 =
      ?st2\<lparr>s_client_address := l_caddr L, s_retransmit_psn := of_nat k\<rparr>"
    using server_gets_requests [OF L, of ?st2 xs k] xs(2,3) k(6) small st(1) ct1(3) by simp
  moreover have "requested_psns (c_wire ct2) = requested_psns (c_wire ct) @ replicate (m - i) k"
    by (simp add: xs(3) ct1(3) requested_psns_requests [OF wfe xs(2)] xs(1))
  ultimately show ?thesis
    using run dels losing_packets [OF wf st(2) k(5), of K] gap ct1(1) ct2
    by (intro exI [of _ ct2]) (simp add: lossy_round_def client_feed_append del: sender_run.simps)
qed

lemma lossy_round_inv:
  assumes "lossy_round L cb r (st, ct) = Inr (st', ct')" "server_inv st"
  shows "server_inv st'"
  using assms by (auto simp: lossy_round_def bind_result_eq_Inr intro: server_gets_each_inv sender_run_inv)

lemma lossy_round_result:
  assumes L: "good_link L" and tr: "transferable bs" and at: "at_packet bs st0 a (st, ct)"
    and k: "a \<le> k" "0 < k" "Suc k < m" "m < packets_of bs"
  shows "\<exists>n s. n \<le> 6 * m \<and> lossy_round L cb (n, {k}) (st, ct) = Inr s \<and> at_packet bs st0 k s \<and>
    sent_psns (s_wire (fst s)) = sent_psns (s_wire st) @ [a ..< m] \<and>
    requested_psns (c_wire (snd s)) = requested_psns (c_wire ct) @ replicate (m - Suc k) k"
proof -
  have snd: "sends (l_sock L) (l_senv L)"
    using L by (simp add: good_link_def)
  have w: "waits_at bs a st" and rec: "receiving bs st a ct"
    and same: "s_new_file_crc32 st = CalculateCrc32 bs (length bs) 0" "s_new_file_version st = s_new_file_version st0"
    using at by (simp_all add: at_packet_def)
  have st: "s_status st = DATA" "unat (s_new_file_size st) = length bs"
    "unat (s_total_packet_number st) = packets_of bs" "server_inv st"
    using w by (auto simp: waits_at_def holds_file_def)
  have am: "a < m" "m \<le> packets_of bs" "k < m" "k < Suc k" using k by simp_all
  obtain i n where n: "n \<le> 6 * (m - a)" and run: "sender_run (l_sock L) (l_senv L) n st =
      Inr (advance st (of_nat m) For_Test i (s_wire st @ map (data_datagram (senv_stack (l_senv L)) bs st) [a ..< m]))"
      (is "_ = Inr ?st2") and i: "\<not> in_fail i" "in_data i = bs"
    using waits_packets [OF w snd am(1,2)] by blast
  let ?st3 = "?st2\<lparr>s_client_address := l_caddr L, s_retransmit_psn := of_nat k\<rparr>"
  obtain ct2 where round: "lossy_round L cb (n, {k}) (st, ct) = Inr (?st3, ct2)" and ct2: "receiving bs st k ct2"
    and req: "requested_psns (c_wire ct2) = requested_psns (c_wire ct) @ replicate (m - Suc k) k"
    using round_with_gap [OF L tr rec st(1-3) run filter_gap [OF k(1) am(3)] k(1,2) am(4) k(3) am(2)
        less_imp_le [OF am(3)] am(2)] by blast
  have k32: "unat (of_nat m :: u32) = m" "unat (of_nat k :: u32) = k" "k \<noteq> 4294967295"
    using k st(3) unat_lt_32 [of "s_total_packet_number st"] by (simp_all add: unat_of_nat_32)
  then have "(of_nat k :: u32) \<noteq> no_rtx"
    by (auto simp: no_rtx_def unsigned_minus_1_eq_mask mask_eq_exp_minus_1)
  then have "waits_at bs k ?st3"
    using i st k k32 lossy_round_inv [OF round st(4)] by (simp add: waits_at_def holds_file_def)
  then have "at_packet bs st0 k (?st3, ct2)"
    using ct2 same by (simp add: at_packet_def receiving_def advance_def)
  moreover have "sent_psns (s_wire ?st3) = sent_psns (s_wire st) @ [a ..< m]"
    by (simp add: advance_def sent_psns_data [OF am(2) st(2)])
  ultimately show ?thesis
    using n round req by (intro exI [of _ n] exI [of _ "(?st3, ct2)"]) simp
qed

text \<open>
  Losses that the protocol notices: not of the first packet, and followed in the same burst by
  a packet that arrives, before the last one.
\<close>

fun noticed :: "nat \<Rightarrow> nat \<Rightarrow> (nat \<times> nat) list \<Rightarrow> bool" where
  "noticed p a [] \<longleftrightarrow> True"
| "noticed p a ((k, m) # ls) \<longleftrightarrow> a \<le> k \<and> 0 < k \<and> Suc k < m \<and> m < p \<and> noticed p k ls"

lemma lossy_rounds_result:
  assumes L: "good_link L" and tr: "transferable bs" and at: "at_packet bs st0 a s"
    and ls: "noticed (packets_of bs) a ls"
  shows "\<exists>rs s' a'. map snd rs = map (\<lambda>l. {fst l}) ls \<and> (\<forall>r \<in> set rs. fst r \<le> 6 * packets_of bs) \<and>
    lossy_rounds L cb rs s = Inr s' \<and> at_packet bs st0 a' s' \<and>
    sent_psns (s_wire (fst s')) @ [a' ..< packets_of bs] =
      sent_psns (s_wire (fst s)) @ psns_with_losses (packets_of bs) a ls \<and>
    requested_psns (c_wire (snd s')) = requested_psns (c_wire (snd s)) @ requests_for ls"
  using at ls
proof (induction ls arbitrary: a s)
  case Nil
  then show ?case by (intro exI [of _ "[]"] exI [of _ s] exI [of _ a]) simp
next
  case (Cons l ls)
  obtain k m where l: "l = (k, m)" by (cases l)
  have k: "a \<le> k" "0 < k" "Suc k < m" "m < packets_of bs" and ls: "noticed (packets_of bs) k ls"
    using Cons.prems(2) by (simp_all add: l)
  obtain n s1 where n: "n \<le> 6 * m" "lossy_round L cb (n, {k}) s = Inr s1" "at_packet bs st0 k s1"
    "sent_psns (s_wire (fst s1)) = sent_psns (s_wire (fst s)) @ [a ..< m]"
    "requested_psns (c_wire (snd s1)) = requested_psns (c_wire (snd s)) @ replicate (m - Suc k) k"
    using lossy_round_result [OF L tr _ k, of st0 "fst s" "snd s" cb] Cons.prems(1) by auto
  obtain rs s' a' where "map snd rs = map (\<lambda>l. {fst l}) ls" "\<forall>r \<in> set rs. fst r \<le> 6 * packets_of bs"
    "lossy_rounds L cb rs s1 = Inr s'" "at_packet bs st0 a' s'"
    "sent_psns (s_wire (fst s')) @ [a' ..< packets_of bs] =
      sent_psns (s_wire (fst s1)) @ psns_with_losses (packets_of bs) k ls"
    "requested_psns (c_wire (snd s')) = requested_psns (c_wire (snd s1)) @ requests_for ls"
    using Cons.IH [OF n(3) ls] by blast
  then show ?case
    using n k(4) by (intro exI [of _ "(n, {k}) # rs"] exI [of _ s'] exI [of _ a']) (simp add: l)
qed

text \<open>The transfer: the handshake, the file opened, the rounds; and one round that loses nothing, \<open>FIN\<close>.\<close>

definition lossy_transfer ::
  "link \<Rightarrow> on_file_received \<Rightarrow> (nat \<times> nat set) list \<Rightarrow> ServerTransaction \<Rightarrow> ClientTransaction \<Rightarrow>
   (ServerTransaction \<times> ClientTransaction) result" where
  "lossy_transfer L cb rs st ct =
     bind_result (session_handshake L cb st ct) (\<lambda>s.
     bind_result (sender_step (l_sock L) (l_senv L) (fst s)) (\<lambda>st.
     lossy_rounds L cb rs (st, snd s)))"

definition lossy_session ::
  "link \<Rightarrow> on_file_received \<Rightarrow> (nat \<times> nat set) list \<Rightarrow> nat \<Rightarrow> ServerTransaction \<Rightarrow> ClientTransaction \<Rightarrow>
   (ServerTransaction \<times> ClientTransaction) result" where
  "lossy_session L cb rs n st ct =
     bind_result (lossy_transfer L cb rs st ct) (\<lambda>s.
     bind_result (session_data L cb n s) (session_finish L))"

lemma opened_at:
  assumes st: "server_inv st" "s_thr st = Opening" "s_status st = DATA" "s_retransmit_psn st = no_rtx"
      "unat (s_new_file_size st) = length bs" "unat (s_total_packet_number st) = packets_of bs"
      "s_new_file_crc32 st = CalculateCrc32 bs (length bs) 0"
    and f: "senv_files E (s_file_path st) = Some f" "readable f" "content f = bs"
    and pos: "0 < packets_of bs" and ct: "receiving bs st 0 ct"
  shows "\<exists>st1. sender_step sock E st = Inr st1 \<and> at_packet bs st 0 (st1, ct) \<and> s_wire st1 = s_wire st"
proof -
  obtain st1 where st1: "sender_step sock E st = Inr st1" "server_inv st1" "s_thr st1 = For_Test"
    "holds_file bs st1" "s_retransmit_psn st1 = no_rtx" "s_packet_sequence_number st1 = 0" "s_wire st1 = s_wire st"
    and adv: "\<And>k p i w. advance st1 k p i w = advance st k p i w"
    using sender_opens [OF st(1-5) f] by blast
  have "s_new_file_crc32 st1 = s_new_file_crc32 st" "s_new_file_version st1 = s_new_file_version st"
    "s_status st1 = s_status st" "s_total_packet_number st1 = s_total_packet_number st"
    "s_new_file_size st1 = s_new_file_size st"
    using arg_cong [OF adv, of s_new_file_crc32] arg_cong [OF adv, of s_new_file_version]
      arg_cong [OF adv, of s_status] arg_cong [OF adv, of s_total_packet_number]
      arg_cong [OF adv, of s_new_file_size]
    by (simp_all add: advance_def)
  then show ?thesis
    using st1 st pos ct by (intro exI [of _ st1]) (simp add: at_packet_def waits_at_def receiving_def)
qed

text \<open>The beginning of a transfer.\<close>

lemma transfer_begins:
  assumes L: "good_link L" and p: "prepared bs L st" and tr: "transferable bs"
    and ct: "0 \<le> fd (c_udp_socket ct)" "tmp_readable (temp_file (env_tmp (l_env L))) (c_files ct)"
  shows "\<exists>st1 ct1. (\<forall>rs. lossy_transfer L cb rs st ct = lossy_rounds L cb rs (st1, ct1)) \<and>
    at_packet bs st 0 (st1, ct1) \<and> sent_psns (s_wire st1) = sent_psns (s_wire st) \<and>
    requested_psns (c_wire ct1) = requested_psns (c_wire ct)"
proof -
  have ne: "bs \<noteq> []" using tr by (auto simp: transferable_def)
  have pos: "0 < packets_of bs"
    using tr unfolding transferable_def packets_of_def by linarith
  obtain st1 ct1 where h: "session_handshake L cb st ct = Inr (st1, ct1)" "receiving bs st1 0 ct1"
    "s_status st1 = DATA" "s_thr st1 = Opening" and ex: "started st st1"
    and req: "requested_psns (c_wire ct1) = requested_psns (c_wire ct)"
    using session_handshake_result [OF L p ne ct, of cb] by blast
  have st1: "server_inv st1" "s_retransmit_psn st1 = no_rtx" "unat (s_new_file_size st1) = length bs"
    "unat (s_total_packet_number st1) = packets_of bs"
    "s_new_file_crc32 st1 = CalculateCrc32 bs (length bs) 0" "s_file_path st1 = s_file_path st"
    "s_new_file_version st1 = s_new_file_version st"
    using started_same [OF ex] p by (simp_all add: prepared_def server_inv_def in_loop_def)
  obtain f where f: "senv_files (l_senv L) (s_file_path st1) = Some f" "readable f" "content f = bs"
    using p st1(6) by (auto simp: prepared_def)
  obtain st2 where "sender_step (l_sock L) (l_senv L) st1 = Inr st2" "at_packet bs st1 0 (st2, ct1)"
    "s_wire st2 = s_wire st1"
    using opened_at [OF st1(1) h(4,3) st1(2-5) f pos h(2)] by blast
  then show ?thesis
    using h(1) st1(7) req started_same(11) [OF ex]
    by (intro exI [of _ st2] exI [of _ ct1]) (simp add: lossy_transfer_def at_packet_def)
qed

lemma lossy_session_result:
  assumes L: "good_link L" and p: "prepared bs L st" and tr: "transferable bs"
    and ct: "0 \<le> fd (c_udp_socket ct)" "tmp_readable (temp_file (env_tmp (l_env L))) (c_files ct)"
    and ls: "noticed (packets_of bs) 0 ls"
  shows "\<exists>rs n st' ct'. map snd rs = map (\<lambda>l. {fst l}) ls \<and>
    (\<forall>r \<in> set rs. fst r \<le> 6 * packets_of bs) \<and> n \<le> 6 * packets_of bs + 1 \<and>
    lossy_session L cb rs n st ct = Inr (st', ct') \<and>
    s_status st' = FIN \<and> s_thr st' = Returned \<and> acknowledged bs st ct' \<and>
    sent_psns (s_wire st') = sent_psns (s_wire st) @ psns_with_losses (packets_of bs) 0 ls \<and>
    requested_psns (c_wire ct') = requested_psns (c_wire ct) @ requests_for ls"
proof -
  obtain st2 ct1 where starts: "\<And>rs. lossy_transfer L cb rs st ct = lossy_rounds L cb rs (st2, ct1)"
    and at: "at_packet bs st 0 (st2, ct1)"
    and before: "sent_psns (s_wire st2) = sent_psns (s_wire st)" "requested_psns (c_wire ct1) = requested_psns (c_wire ct)"
    using transfer_begins [OF L p tr ct, of cb] by blast
  obtain rs s3 a where r: "map snd rs = map (\<lambda>l. {fst l}) ls" "\<forall>r \<in> set rs. fst r \<le> 6 * packets_of bs"
    "lossy_rounds L cb rs (st2, ct1) = Inr s3" "at_packet bs st a s3"
    "sent_psns (s_wire (fst s3)) @ [a ..< packets_of bs] =
      sent_psns (s_wire st) @ psns_with_losses (packets_of bs) 0 ls"
    "requested_psns (c_wire (snd s3)) = requested_psns (c_wire ct) @ requests_for ls"
    using lossy_rounds_result [OF L tr at ls, of cb] before by auto
  obtain st3 ct3 where s3: "s3 = (st3, ct3)" by (cases s3)
  have w: "waits_at bs a st3" "receiving bs st3 a ct3" "s_new_file_crc32 st3 = CalculateCrc32 bs (length bs) 0"
    "s_new_file_version st3 = s_new_file_version st"
    using r(4) by (simp_all add: s3 at_packet_def)
  have st3: "unat (s_new_file_size st3) = length bs" "a < packets_of bs" "s_status st3 = DATA"
    using w(1) by (simp_all add: waits_at_def holds_file_def)
  obtain i n where n: "n \<le> 6 * (packets_of bs - a) + 1" and run: "sender_run (l_sock L) (l_senv L) n st3 =
      Inr (advance st3 (s_total_packet_number st3) Returned i
        (s_wire st3 @ map (data_datagram (senv_stack (l_senv L)) bs st3) [a ..< packets_of bs]))"
    using waits_rest [OF w(1)] L unfolding good_link_def by blast
  obtain st4 ct4 where d: "session_data L cb n (st3, ct3) = Inr (st4, ct4)" "data_done bs L st3 (st4, ct4)"
    and psns: "sent_psns (s_wire st4) = sent_psns (s_wire st) @ psns_with_losses (packets_of bs) 0 ls"
      "requested_psns (c_wire ct4) = requested_psns (c_wire ct) @ requests_for ls"
    using session_data_ran [OF L tr run w(2) st3(2,1) w(3), of cb] r(5,6) s3 by auto
  obtain fin x where fin: "session_finish L (st4, ct4) = Inr (fin, ct4)" "s_status fin = FIN" "s_thr fin = Returned"
    "s_wire fin = s_wire st4 @ [(l_caddr L, server_image FIN (senv_stack (l_senv L)) x)]"
    using session_finish_result [OF L d(2) st3(3)] by auto
  have "lossy_session L cb rs n st ct = Inr (fin, ct4)" "acknowledged bs st ct4"
    using starts r(3) d fin(1) w(4) by (simp_all add: s3 lossy_session_def data_done_def acknowledged_def)
  then show ?thesis
    using n r(1,2) fin(2-4) psns by (intro exI [of _ rs] exI [of _ n] exI [of _ fin] exI [of _ ct4]) simp
qed

section \<open>Losses that are not recovered\<close>

text \<open>The first packet: the client answers the second one by \<open>CXL\<close>.\<close>

lemma first_loss_result:
  assumes L: "good_link L" and tr: "transferable bs" and at: "at_packet bs st0 0 (st, ct)"
  shows "\<exists>n st' ct'. n \<le> 12 \<and> lossy_round L cb (n, {0}) (st, ct) = Inr (st', ct') \<and>
    c_status ct' = CXL \<and> \<not> client_IsAlive ct' \<and> s_status st' = CXL"
proof -
  have wf: "wf_message (senv_stack (l_senv L))" "wf_message (l_cj L)" "wf_message (env_stack (l_env L))"
    "wf_message (l_j L)" and E: "good_env (l_env L)" and snd: "sends (l_sock L) (l_senv L)"
    using L by (simp_all add: good_link_def good_env_def)
  let ?m = "senv_stack (l_senv L)"
  let ?pd = "packet_delivery (l_env L) (l_cj L) ?m (l_saddr L) bs st"
  have w: "waits_at bs 0 st" and rec: "receiving bs st 0 ct"
    using at by (simp_all add: at_packet_def)
  have size: "unat (s_new_file_size st) = length bs"
    using w by (auto simp: waits_at_def holds_file_def)
  have two: "2 \<le> packets_of bs" "1 < packets_of bs"
    using tr unfolding transferable_def packets_of_def by linarith+
  obtain i n where n: "n \<le> 12" and run: "sender_run (l_sock L) (l_senv L) n st =
      Inr (advance st (of_nat 2) For_Test i (s_wire st @ map (data_datagram ?m bs st) [0 ..< 2]))" (is "_ = Inr ?st2")
    using waits_packets [OF w snd _ two(1)] by auto
  obtain ct1 x where ct1: "client_OnReceive Transaction_Thread cb (l_env L) (recv_packet (l_cj L) ?m bs st 1)
      (32 + slice_len (length bs) 1) (l_saddr L) ct = Inr ct1" "c_status ct1 = CXL" "\<not> client_IsAlive ct1"
    "c_wire ct1 = c_wire ct @ [(l_saddr L, client_image CXL (env_stack (l_env L)) x)]"
    using first_packet_lost [OF rec zero_less_one two(2) E tr wf(1,2) size] by blast
  have dels: "delivered L \<circ> data_datagram ?m bs st = ?pd"
    by (simp add: sent_deliveries [OF wf(1)] fun_eq_iff)
  have "losing {0} (map ?pd [0 ..< 2]) = [?pd 1]"
    using losing_packets [OF wf(1,2) size two(1), where K = "{0}" and a = 0 and E = "l_env L" and addr = "l_saddr L"]
    by (simp add: upt_conv_Cons numeral_2_eq_2)
  moreover have "server_gets_each L [(l_saddr L, client_image CXL (env_stack (l_env L)) x)] ?st2 =
      ?st2\<lparr>s_client_address := l_caddr L, s_status := CXL\<rparr>"
    using server_gets_CXL [OF wf(3,4)] by (simp add: server_gets_each_def server_gets_def)
  ultimately have "lossy_round L cb (n, {0}) (st, ct) =
      Inr (?st2\<lparr>s_client_address := l_caddr L, s_status := CXL\<rparr>, ct1)"
    using run dels ct1(1,4) by (simp add: lossy_round_def packet_delivery_def del: sender_run.simps upt.simps)
  then show ?thesis
    using n ct1(2,3) by (intro exI [of _ n] exI) (rule conjI, assumption, rule conjI, assumption, simp)
qed

text \<open>
  The last packet but one: the request is taken in the second after the last packet, so the
  last packet is sent again, and the client asks again.
\<close>

definition tail_stuck :: "byte list \<Rightarrow> ServerTransaction \<times> ClientTransaction \<Rightarrow> bool" where
  "tail_stuck bs s \<longleftrightarrow>
     server_inv (fst s) \<and> s_thr (fst s) = Tail_Wait \<and> holds_file bs (fst s) \<and> s_status (fst s) = DATA \<and>
     unat (s_total_packet_number (fst s)) = packets_of bs \<and> 2 < packets_of bs \<and>
     unat (s_packet_sequence_number (fst s)) = packets_of bs - 1 \<and>
     unat (s_retransmit_psn (fst s)) = packets_of bs - 2 \<and>
     receiving bs (fst s) (packets_of bs - 2) (snd s)"

lemma tail_packet:
  assumes w: "waits_at bs (packets_of bs - 1) st" "s_retransmit_psn st = no_rtx" and env: "sends sock E"
  shows "\<exists>i. sender_run sock E 4 st = Inr (advance st (of_nat (packets_of bs - 1)) Tail_Wait i
      (s_wire st @ [data_datagram (senv_stack E) bs st (packets_of bs - 1)])) \<and> \<not> in_fail i \<and> in_data i = bs"
proof -
  note w' = w [unfolded waits_at_def]
  let ?st = "st\<lparr>s_thr := Send_Data\<rparr>" and ?k = "s_packet_sequence_number st"
  have k: "unat ?k = packets_of bs - 1" "0 < packets_of bs" and less: "?k < s_total_packet_number st"
    using w' by (auto simp: word_less_nat_alt)
  have last: "?k = s_total_packet_number st - 1" "?k = of_nat (packets_of bs - 1)"
  proof -
    have "s_total_packet_number st \<noteq> 0" using less by auto
    then have "unat (s_total_packet_number st - 1) = unat (s_total_packet_number st) - 1"
      by (rule unat_minus_one)
    then show "?k = s_total_packet_number st - 1" using k w'(1) by (simp add: word_unat_eq_iff)
    show "?k = of_nat (packets_of bs - 1)"
      unfolding k(1) [symmetric] by simp
  qed
  have to_send: "sender_run sock E 3 st = Inr ?st"
    using w' less take_rtx_none [of "st\<lparr>s_thr := Check_Rtx\<rparr>"]
    by (simp add: sender_step_def numeral_3_eq_3)
  have f': "holds_file bs ?st" and dg: "data_datagram j bs ?st = data_datagram j bs st" for j
    using w' by (simp_all add: holds_file_def data_datagram_def data_packet_def CompleteHeader_def fun_eq_iff)
  obtain i where send: "send_data sock E ?st = Inr (?st\<lparr>s_ifs := i,
      s_wire := s_wire st @ [data_datagram (senv_stack E) bs st (packets_of bs - 1)], s_thr := Tail_Wait\<rparr>)"
    and i: "\<not> in_fail i" "in_data i = bs"
    using send_data_run [OF sender_run_inv [OF to_send] _ env f'] w'(1) last(1) k(1) by (auto simp: dg)
  have "sender_run sock E (3 + 1) st = Inr (advance st (of_nat (packets_of bs - 1)) Tail_Wait i
      (s_wire st @ [data_datagram (senv_stack E) bs st (packets_of bs - 1)]))"
    using send w(2) last(2)
    by (simp only: sender_run_add to_send) (simp add: sender_step_def advance_def)
  then show ?thesis using i by auto
qed

lemma waits_tail:
  assumes w: "waits_at bs a st" and env: "sends sock E" and a: "Suc a < packets_of bs"
  shows "\<exists>i n. n \<le> 6 * packets_of bs \<and> sender_run sock E n st =
      Inr (advance st (of_nat (packets_of bs - 1)) Tail_Wait i
        (s_wire st @ map (data_datagram (senv_stack E) bs st) [a ..< packets_of bs])) \<and>
    \<not> in_fail i \<and> in_data i = bs"
proof -
  let ?p = "packets_of bs" and ?dg = "data_datagram (senv_stack E) bs st"
  have st: "s_status st = DATA" "unat (s_new_file_size st) = length bs"
    "unat (s_total_packet_number st) = ?p" "server_inv st"
    using w by (auto simp: waits_at_def holds_file_def)
  have ap: "a < ?p - 1" "?p - 1 \<le> ?p" using a by simp_all
  obtain i n where n: "n \<le> 6 * (?p - 1 - a)" and run: "sender_run sock E n st =
      Inr (advance st (of_nat (?p - 1)) For_Test i (s_wire st @ map ?dg [a ..< ?p - 1]))"
      (is "_ = Inr ?st2") and i: "\<not> in_fail i" "in_data i = bs"
    using waits_packets [OF w env ap] by blast
  have "unat (of_nat (?p - 1) :: u32) = ?p - 1"
    using st(3) unat_lt_32 [of "s_total_packet_number st"] by (simp add: unat_of_nat_32)
  then have "waits_at bs (?p - 1) ?st2"
    using sender_run_inv [OF run st(4)] i st a by (simp add: waits_at_def holds_file_def)
  then obtain i' where run': "sender_run sock E 4 ?st2 = Inr (advance st (of_nat (?p - 1)) Tail_Wait i'
      (s_wire ?st2 @ [?dg (?p - 1)]))" and i': "\<not> in_fail i'" "in_data i' = bs"
    using tail_packet [OF _ _ env, of bs ?st2] by auto
  have "[a ..< ?p] = [a ..< ?p - 1] @ [?p - 1]"
    using upt_Suc_append [of a "?p - 1"] a by simp
  then have "sender_run sock E (n + 4) st =
      Inr (advance st (of_nat (?p - 1)) Tail_Wait i' (s_wire st @ map ?dg [a ..< ?p]))"
    using run run' by (simp only: sender_run_add) simp
  then show ?thesis
    using n a i' by (intro exI [of _ i'] exI [of _ "n + 4"]) auto
qed

lemma tail_loss_result:
  assumes L: "good_link L" and tr: "transferable bs" and at: "at_packet bs st0 a (st, ct)"
    and a: "a \<le> packets_of bs - 2" "2 < packets_of bs"
  shows "\<exists>n s. n \<le> 6 * packets_of bs \<and> lossy_round L cb (n, {packets_of bs - 2}) (st, ct) = Inr s \<and> tail_stuck bs s"
proof -
  let ?p = "packets_of bs" and ?dg = "data_datagram (senv_stack (l_senv L)) bs st"
  have snd: "sends (l_sock L) (l_senv L)"
    using L by (simp add: good_link_def)
  have w: "waits_at bs a st" and rec: "receiving bs st a ct"
    using at by (simp_all add: at_packet_def)
  have st: "s_status st = DATA" "unat (s_new_file_size st) = length bs"
    "unat (s_total_packet_number st) = ?p" "server_inv st"
    using w by (auto simp: waits_at_def holds_file_def)
  have ap: "Suc a < ?p" "?p - 2 < ?p" "?p - 1 \<le> ?p" using a by simp_all
  have p32: "unat (of_nat (?p - 1) :: u32) = ?p - 1" "unat (of_nat (?p - 2) :: u32) = ?p - 2"
    using st(3) unat_lt_32 [of "s_total_packet_number st"] by (simp_all add: unat_of_nat_32)
  obtain i n where n: "n \<le> 6 * ?p" and run: "sender_run (l_sock L) (l_senv L) n st =
      Inr (advance st (of_nat (?p - 1)) Tail_Wait i (s_wire st @ map ?dg [a ..< ?p]))" (is "_ = Inr ?st3")
    and i: "\<not> in_fail i" "in_data i = bs"
    using waits_tail [OF w snd ap(1)] by blast
  have "0 < ?p - 2" "?p - 2 < Suc (?p - 2)" "Suc (?p - 2) < ?p" "?p \<le> ?p" "?p - 2 \<le> ?p - 1"
    using a(2) by simp_all
  then obtain ct2 where round: "lossy_round L cb (n, {?p - 2}) (st, ct) =
      Inr (?st3\<lparr>s_client_address := l_caddr L, s_retransmit_psn := of_nat (?p - 2)\<rparr>, ct2)"
    and ct2: "receiving bs st (?p - 2) ct2"
    using round_with_gap [OF L tr rec st(1-3) run filter_gap [OF a(1) ap(2)] a(1) _ _ _ _ _ ap(3)] by blast
  have "tail_stuck bs (?st3\<lparr>s_client_address := l_caddr L, s_retransmit_psn := of_nat (?p - 2)\<rparr>, ct2)"
    using lossy_round_inv [OF round st(4)] st a(2) i p32 ct2
    by (simp add: tail_stuck_def holds_file_def receiving_def advance_def)
  then show ?thesis
    using round n by blast
qed

lemma tail_repeats:
  assumes L: "good_link L" and tr: "transferable bs" and t: "tail_stuck bs (st, ct)"
  shows "\<exists>s. lossy_round L cb (6, {}) (st, ct) = Inr s \<and> tail_stuck bs s"
proof -
  let ?p = "packets_of bs" and ?dg = "data_datagram (senv_stack (l_senv L)) bs st"
  have snd: "sends (l_sock L) (l_senv L)"
    using L by (simp add: good_link_def)
  note t' = t [unfolded tail_stuck_def fst_conv snd_conv]
  have st: "s_status st = DATA" "unat (s_new_file_size st) = length bs"
    "unat (s_total_packet_number st) = ?p" "server_inv st" and p: "2 < ?p" and rec: "receiving bs st (?p - 2) ct"
    using t' by (auto simp: holds_file_def)
  have p32: "unat (of_nat (?p - 1) :: u32) = ?p - 1" "unat (of_nat (?p - 2) :: u32) = ?p - 2" "?p < 2 ^ 32"
    using st(3) unat_lt_32 [of "s_total_packet_number st"] by (simp_all add: unat_of_nat_32)
  have rtx: "s_retransmit_psn st = of_nat (?p - 2)"
    using t' p32(2) by (simp add: word_unat_eq_iff)
  then have ne: "s_retransmit_psn st \<noteq> no_rtx"
    using p32 p by (auto simp: no_rtx_def unsigned_minus_1_eq_mask mask_eq_exp_minus_1)
  have "of_nat (?p - 2) + 1 = (of_nat (Suc (?p - 2)) :: u32)" by (simp add: add.commute)
  then have inc: "of_nat (?p - 2) + 1 = (of_nat (?p - 1) :: u32)"
    using p by (simp add: Suc_diff_le [symmetric] del: of_nat_Suc)
  let ?st1 = "advance st (of_nat (?p - 1)) For_Test (s_ifs st) (s_wire st)"
  have run: "sender_run (l_sock L) (l_senv L) 2 st = Inr ?st1"
    using t' ne rtx inc by (simp add: sender_step_def take_rtx_def advance_def numeral_2_eq_2)
  have "waits_at bs (?p - 1) ?st1"
    using sender_run_inv [OF run st(4)] t' p32(1) by (simp add: waits_at_def holds_file_def)
  then obtain i where run': "sender_run (l_sock L) (l_senv L) 4 ?st1 = Inr (advance st (of_nat (?p - 1)) Tail_Wait i
      (s_wire st @ [?dg (?p - 1)]))" and i: "\<not> in_fail i" "in_data i = bs"
    using tail_packet [OF _ _ snd, of bs ?st1] by auto
  have one: "[?p - 1 ..< ?p] = [?p - 1]"
    using p upt_conv_Cons [of "?p - 1" ?p] by simp
  have run6: "sender_run (l_sock L) (l_senv L) 6 st = Inr (advance st (of_nat (?p - 1)) Tail_Wait i
      (s_wire st @ map ?dg [?p - 1 ..< ?p]))" (is "_ = Inr ?st3")
    using run' sender_run_add [of "l_sock L" "l_senv L" 2 4 st] run one by simp
  have gap: "filter (\<lambda>i. i \<notin> {}) [?p - 1 ..< ?p] = [?p - 2 ..< ?p - 2] @ [?p - 1 ..< ?p]"
    by simp
  have "?p - 2 \<le> ?p - 2" "0 < ?p - 2" "?p - 2 < ?p - 1" "?p - 1 < ?p" "?p \<le> ?p" "?p - 2 \<le> ?p - 1" "?p - 1 \<le> ?p"
    using p by simp_all
  from round_with_gap [OF L tr rec st(1-3) run6 gap this]
  obtain ct2 where round: "lossy_round L cb (6, {}) (st, ct) =
      Inr (?st3\<lparr>s_client_address := l_caddr L, s_retransmit_psn := of_nat (?p - 2)\<rparr>, ct2)"
    and ct2: "receiving bs st (?p - 2) ct2"
    by blast
  have "tail_stuck bs (?st3\<lparr>s_client_address := l_caddr L, s_retransmit_psn := of_nat (?p - 2)\<rparr>, ct2)"
    using lossy_round_inv [OF round st(4)] st p i p32 ct2
    by (simp add: tail_stuck_def holds_file_def receiving_def advance_def)
  then show ?thesis using round by blast
qed

lemma tail_forever:
  assumes "good_link L" "transferable bs" "tail_stuck bs s"
  shows "\<exists>s'. lossy_rounds L cb (replicate N (6, {})) s = Inr s' \<and> tail_stuck bs s'"
  using assms(3)
proof (induction N arbitrary: s)
  case (Suc N)
  obtain s1 where "lossy_round L cb (6, {}) s = Inr s1" "tail_stuck bs s1"
    using tail_repeats [OF assms(1,2), of "fst s" "snd s" cb] Suc.prems by auto
  then show ?case using Suc.IH by auto
qed simp

lemma tail_stuck_fields:
  assumes "tail_stuck bs (st, ct)"
  shows "s_status st = DATA" "s_thr st = Tail_Wait" "c_status ct = DATA"
    "unat (c_packet_sequence_number ct) = packets_of bs - 2"
  using assms by (auto simp: tail_stuck_def receiving_def holds_prefix_def)

section \<open>The acknowledgement\<close>

text \<open>Past the last packet and without a request, the thread only returns.\<close>

definition finishing :: "ServerTransaction \<Rightarrow> bool" where
  "finishing st \<longleftrightarrow> s_status st = DATA \<and> s_retransmit_psn st = no_rtx \<and>
     (s_thr st \<in> {Tail_Wait, For_Incr} \<and> s_packet_sequence_number st + 1 = s_total_packet_number st \<or>
      s_thr st = For_Test \<and> s_packet_sequence_number st = s_total_packet_number st \<or>
      s_thr st = Returned)"

lemma finishing_run:
  assumes "finishing st" "sender_run sock E n st = Inr st'"
  shows "finishing st' \<and> s_wire st' = s_wire st"
  using assms
proof (induction n arbitrary: st)
  case (Suc n)
  have "\<exists>st1. sender_step sock E st = Inr st1 \<and> finishing st1 \<and> s_wire st1 = s_wire st"
    using Suc.prems(1) by (auto simp: finishing_def sender_step_def take_rtx_def)
  then show ?case using Suc by auto
qed simp

lemma finishing_returns:
  assumes "finishing st" "s_thr st = Tail_Wait"
  shows "\<exists>st'. sender_run sock E 3 st = Inr st' \<and> s_thr st' = Returned"
  using assms by (simp add: finishing_def sender_step_def take_rtx_def numeral_3_eq_3)

text \<open>A client that answers before the thread has counted the last packet.\<close>

lemma prompt_round:
  assumes L: "good_link L" and tr: "transferable bs" and at: "at_packet bs st0 0 (st, ct)"
  shows "\<exists>n st' ct'. n \<le> 6 * packets_of bs \<and> lossy_round L cb (n, {}) (st, ct) = Inr (st', ct') \<and>
    acknowledged bs st0 ct' \<and> finishing st' \<and> s_thr st' = Tail_Wait \<and>
    sent_psns (s_wire st') = sent_psns (s_wire st) @ [0 ..< packets_of bs] \<and>
    (\<exists>x. c_wire ct' = c_wire ct @ [(l_saddr L, client_image DONE (env_stack (l_env L)) x)])"
proof -
  have wf: "wf_message (senv_stack (l_senv L))" "wf_message (l_cj L)" "wf_message (env_stack (l_env L))"
    "wf_message (l_j L)" and E: "good_env (l_env L)" and snd: "sends (l_sock L) (l_senv L)"
    using L by (simp_all add: good_link_def good_env_def)
  let ?p = "packets_of bs" and ?m = "senv_stack (l_senv L)"
  let ?pd = "packet_delivery (l_env L) (l_cj L) ?m (l_saddr L) bs st"
  have w: "waits_at bs 0 st" and rec: "receiving bs st 0 ct"
    and same: "s_new_file_crc32 st = CalculateCrc32 bs (length bs) 0" "s_new_file_version st = s_new_file_version st0"
    using at by (simp_all add: at_packet_def)
  have st: "s_status st = DATA" "unat (s_new_file_size st) = length bs"
    "unat (s_total_packet_number st) = ?p" "server_inv st"
    using w by (auto simp: waits_at_def holds_file_def)
  have two: "Suc 0 < ?p" "0 < ?p" "?p \<le> ?p"
    using tr unfolding transferable_def packets_of_def by linarith+
  obtain i n where n: "n \<le> 6 * ?p" and run: "sender_run (l_sock L) (l_senv L) n st =
      Inr (advance st (of_nat (?p - 1)) Tail_Wait i (s_wire st @ map (data_datagram ?m bs st) [0 ..< ?p]))"
      (is "_ = Inr ?st2")
    using waits_tail [OF w snd two(1)] by blast
  obtain ct' x where fed: "client_feed cb (map ?pd [0 ..< ?p]) ct = Inr ct'" and ack: "acknowledged bs st ct'"
    and wire: "c_wire ct' = c_wire ct @ [(l_saddr L, client_image DONE (env_stack (l_env L)) x)]"
    using client_feed_packets [OF rec two(2) refl E tr wf(1,2) st(2) same(1), of cb "l_saddr L"] by blast
  have dels: "delivered L \<circ> data_datagram ?m bs st = ?pd"
    by (simp add: sent_deliveries [OF wf(1)] fun_eq_iff)
  have "server_gets_each L [(l_saddr L, client_image DONE (env_stack (l_env L)) x)] ?st2 =
      ?st2\<lparr>s_client_address := l_caddr L\<rparr>"
    using early_DONE [OF wf(3,4) _ sender_run_inv [OF run st(4)]] st(1)
    by (simp add: server_gets_each_def server_gets_def in_loop_def)
  then have "lossy_round L cb (n, {}) (st, ct) = Inr (?st2\<lparr>s_client_address := l_caddr L\<rparr>, ct')"
    using run dels losing_packets [OF wf(1,2) st(2) two(3), of "{}"] fed wire
    by (simp add: lossy_round_def del: sender_run.simps)
  moreover have "s_total_packet_number st = of_nat ?p" "of_nat (?p - 1) + 1 = (of_nat ?p :: u32)"
    using st(3) unat_lt_32 [of "s_total_packet_number st"] two
    by (simp_all add: word_unat_eq_iff unat_of_nat_32 of_nat_diff)
  then have "finishing (?st2\<lparr>s_client_address := l_caddr L\<rparr>)"
    using st(1) by (simp add: finishing_def)
  moreover have "acknowledged bs st0 ct'"
    using ack same(2) by (simp add: acknowledged_def)
  moreover have "sent_psns (s_wire (?st2\<lparr>s_client_address := l_caddr L\<rparr>)) = sent_psns (s_wire st) @ [0 ..< ?p]"
    by (simp add: advance_def sent_psns_data [OF order_refl st(2)])
  ultimately show ?thesis
    using n exI [of "\<lambda>y. c_wire ct' = c_wire ct @ [(l_saddr L, client_image DONE (env_stack (l_env L)) y)]", OF wire]
    by (intro exI [of _ n] exI [of _ "?st2\<lparr>s_client_address := l_caddr L\<rparr>"] exI [of _ ct']) simp
qed

text \<open>A time-out, or a signal, ends the client's transaction.\<close>

lemma client_timeout:
  assumes "errno \<in> {EAGAIN, EWOULDBLOCK, EINTR}" "0 \<le> env_sendto E" "0 \<le> fd (c_udp_socket ct)"
  shows "\<exists>ct'. client_loop_body cb E (Recv_Failed errno) m a ct = Inr ct' \<and>
    c_status ct' = CXL \<and> \<not> client_IsAlive ct' \<and> join_returns ct' \<and>
    c_wire ct' = c_wire ct @ [(c_server_address ct, client_image CXL (env_stack E) ct)] \<and>
    c_files ct' = c_files ct"
proof -
  have "udp_Receive (Recv_Failed errno) m a = Inr (0, m, a)"
    using assms(1) by (auto simp: udp_Receive_def)
  then show ?thesis
    using client_SendMessage_ok [of CXL E ct] assms(2,3)
    by (simp add: client_loop_body_def client_IsAlive_def join_returns_def)
qed

end
