(* ===== verification/Rtx_Overtaken.thy ===== *)
theory Rtx_Overtaken
  imports Rtx_Race Recovery Samples
begin

text \<open>
  An execution in which the sending thread takes one request between the comparison and the
  store of another one: the stored request is then ahead of the thread, which jumps forward.
\<close>

lemma server_stepI:
  "reachable server_init (server_step sock) s \<Longrightarrow> server_step sock s t \<Longrightarrow> reachable server_init (server_step sock) t"
  by (rule reachable.reachable_step)

lemma race_stepI: "race_reachable sock s \<Longrightarrow> race_step sock s t \<Longrightarrow> race_reachable sock t"
  by (rule reachable.reachable_step)

lemma handshake_reachable:
  assumes "reachable server_init (server_step (l_sock L)) st" "session_handshake L cb st ct = Inr (st', ct')"
  shows "reachable server_init (server_step (l_sock L)) st'"
proof -
  let ?S = "l_sock L" and ?E = "l_senv L" and ?R = "reachable server_init (server_step (l_sock L))"
  have send: "?R s'" if "?R s" "server_SendMessage ?S ?E i s = Inr s'" for s s' i
    by (rule reachable.reachable_step [OF that(1) server_step.caller_sends [OF that(2)]])
  have got: "?R s'" if "?R s" "expect r (server_gets L w s) = Inr s'" for s s' r w
    using reachable.reachable_step [OF that(1) server_step.receives] that(2)
    by (auto simp: expect_def server_gets_def split: if_splits)
  obtain s1 s2 s3 s4 w1 w2 where h: "server_SendMessage ?S ?E NTF st = Inr s1" "expect CHK (server_gets L w1 s1) = Inr s2"
    "server_SendMessage ?S ?E INFO s2 = Inr s3" "expect RDY (server_gets L w2 s3) = Inr s4"
    "server_SendMessage ?S ?E DATA s4 = Inr st'"
    using assms(2) by (auto simp: session_handshake_def bind_result_eq_Inr)
  have "?R s2" by (rule got [OF send [OF assms(1) h(1)] h(2)])
  then have "?R s4" by (rule got [OF send [OF _ h(3)] h(4)])
  then show ?thesis by (rule send [OF _ h(5)])
qed

lemma race_sends_reachable:
  assumes "race_reachable sock (st, p)" "sender_run sock E n st = Inr st'"
  shows "race_reachable sock (st', p)"
  using assms
proof (induction n arbitrary: st)
  case (Suc n)
  then obtain st1 where "sender_step sock E st = Inr st1" "sender_run sock E n st1 = Inr st'"
    by (auto simp: bind_result_eq_Inr)
  then show ?case
    using Suc.IH reachable.reachable_step [OF Suc.prems(1) race_sender] by blast
qed simp

lemma sent_psns_datum:
  assumes "k < packets_of bs" "unat (s_new_file_size st) = length bs"
  shows "sent_psns [data_datagram j bs st k] = [k]"
proof -
  have "Suc k \<le> packets_of bs" using assms(1) by simp
  from sent_psns_data [OF this assms(2), of j k] show ?thesis by simp
qed

text \<open>A request of the client that passes the comparison.\<close>

lemma load_RTX:
  assumes "wf_message m" "wf_message j" "s_status st = DATA"
    and "c_packet_sequence_number ct \<le> s_packet_sequence_number st"
  shows "server_OnReceive_load (recv_into j (client_image RTX m ct)) (recv_len (client_image RTX m ct)) addr st =
    (st\<lparr>s_client_address := addr\<rparr>, Some (c_packet_sequence_number ct))"
  using client_image_received(1,2) [OF assms(1,2), of RTX ct] assms(3-)
  by (simp add: server_OnReceive_load_def recv_len_client_image [OF assms(1)] ValidateMessage_rtx_def
      sizeof_payload_defs sizeof_defs msg_rtx_received [OF assms(1,2)] not_less)

lemma send_data_ahead:
  assumes inv: "server_inv (requesting no_rtx st)" "s_thr st = Send_Data"
    and env: "sends sock E" and f: "holds_file bs st" and k: "unat (s_packet_sequence_number st) < packets_of bs"
  shows "\<exists>i w. send_data sock E st = Inr (st\<lparr>s_ifs := i, s_wire := s_wire st @ w,
      s_thr := (if s_packet_sequence_number st = s_total_packet_number st - 1 then Tail_Wait else For_Incr)\<rparr>) \<and>
    \<not> in_fail i \<and> in_data i = bs \<and> sent_psns w = [unat (s_packet_sequence_number st)]"
proof -
  let ?st = "requesting no_rtx st"
  have f': "holds_file bs ?st" "unat (s_new_file_size ?st) = length bs" using f by (simp_all add: holds_file_def)
  let ?w = "[data_datagram (senv_stack E) bs ?st (unat (s_packet_sequence_number ?st))]"
  obtain i where i: "send_data sock E ?st = Inr (?st\<lparr>s_ifs := i, s_wire := s_wire ?st @ ?w,
      s_thr := (if s_packet_sequence_number ?st = s_total_packet_number ?st - 1 then Tail_Wait else For_Incr)\<rparr>)"
    "\<not> in_fail i" "in_data i = bs"
    using send_data_run [OF inv(1) _ env f'(1)] inv(2) by auto
  have "requesting (s_retransmit_psn st) ?st = st" by simp
  then have "send_data sock E st = Inr (st\<lparr>s_ifs := i, s_wire := s_wire st @ ?w,
      s_thr := (if s_packet_sequence_number st = s_total_packet_number st - 1 then Tail_Wait else For_Incr)\<rparr>)"
    using send_data_requesting [OF i(1), of "s_retransmit_psn st"] by simp
  moreover have "sent_psns ?w = [unat (s_packet_sequence_number st)]"
    using sent_psns_datum [OF _ f'(2)] k by simp
  ultimately show ?thesis using i(2,3) by blast
qed

lemma overtaken:
  assumes L: "good_link L" and p: "server_init st" "prepared bs L st" and tr: "transferable bs"
    and ct: "0 \<le> fd (c_udp_socket (ct :: ClientTransaction))" "tmp_readable (temp_file (env_tmp (l_env L))) (c_files ct)"
    and abm: "a < b" "b \<le> m" "m < packets_of bs"
  shows "\<exists>st1 st2. race_reachable (l_sock L) (st1, None) \<and>
    unat (s_packet_sequence_number st1) = a \<and> unat (s_retransmit_psn st1) = b \<and>
    sent_psns (s_wire st1) = sent_psns (s_wire st) @ [0 ..< m] \<and>
    sender_run (l_sock L) (l_senv L) 6 st1 = Inr st2 \<and> sent_psns (s_wire st2) = sent_psns (s_wire st) @ [0 ..< m] @ [a, b]"
proof -
  let ?S = "l_sock L" and ?E = "l_senv L"
  have wf: "wf_message (env_stack (l_env L))" "wf_message (l_j L)" and env: "sends ?S ?E"
    using L by (simp_all add: good_link_def good_env_def)
  have ne: "bs \<noteq> []" and pos: "0 < packets_of bs" using tr unfolding transferable_def packets_of_def by auto
  obtain s0 c0 where h: "session_handshake L None st ct = Inr (s0, c0)" "receiving bs s0 0 c0"
    "s_status s0 = DATA" "s_thr s0 = Opening" and ex: "started st s0"
    using session_handshake_result [OF L p(2) ne ct, of None] by blast
  have s0: "server_inv s0" "s_retransmit_psn s0 = no_rtx" "unat (s_new_file_size s0) = length bs"
    "unat (s_total_packet_number s0) = packets_of bs"
    "s_new_file_crc32 s0 = CalculateCrc32 bs (length bs) 0" "s_file_path s0 = s_file_path st"
    using started_same [OF ex] p(2) by (simp_all add: prepared_def server_inv_def in_loop_def)
  obtain f where f: "senv_files ?E (s_file_path s0) = Some f" "readable f" "content f = bs"
    using p(2) s0(6) by (auto simp: prepared_def)
  obtain s1 where s1: "sender_step ?S ?E s0 = Inr s1" "at_packet bs s0 0 (s1, c0)" "s_wire s1 = s_wire s0"
    using opened_at [OF s0(1) h(4,3) s0(2-5) f pos h(2)] by blast
  have w: "waits_at bs 0 s1" using s1(2) by (simp add: at_packet_def)
  have m: "0 < m" "m \<le> packets_of bs" using abm by simp_all
  obtain i n where run: "sender_run ?S ?E n s1 = Inr (advance s1 (of_nat m) For_Test i
      (s_wire s1 @ map (data_datagram (senv_stack ?E) bs s1) [0 ..< m]))" (is "_ = Inr ?s2")
    and i: "\<not> in_fail i" "in_data i = bs"
    using waits_packets [OF w env m] by blast
  have size: "unat (s_new_file_size s1) = length bs" "s_status s1 = DATA" "unat (s_total_packet_number s1) = packets_of bs"
    using w by (auto simp: waits_at_def holds_file_def)
  have psns: "sent_psns (s_wire ?s2) = sent_psns (s_wire st) @ [0 ..< m]"
    using started_same(11) [OF ex] s1(3) by (simp add: advance_def sent_psns_data [OF m(2) size(1)])
  have "reachable server_init (server_step ?S) s0"
    by (rule handshake_reachable [OF _ h(1)]) (rule reachable.reachable_init, rule p(1))
  then have "reachable server_init (server_step ?S) s1"
    by (rule server_stepI [OF _ server_step.sender_runs [OF s1(1)]])
  then have 2: "race_reachable ?S (?s2, None)"
    using server_sends_reachable [OF _ run] server_reachable_race by blast
  have small: "unat (of_nat k :: u32) = k" if "k \<le> m" for k
    using that abm(3) size(3) unat_lt_32 [of "s_total_packet_number s1"] by (intro unat_of_nat_32) simp
  have ab: "a \<le> m" "b \<le> m" using abm by simp_all
  let ?x = "\<lambda>k. c0\<lparr>c_packet_sequence_number := of_nat k\<rparr>"
  let ?s3 = "?s2\<lparr>s_client_address := l_caddr L, s_retransmit_psn := of_nat a\<rparr>"
  have get: "server_OnReceive (recv_into (l_j L) (client_image RTX (env_stack (l_env L)) (?x a)))
      (recv_len (client_image RTX (env_stack (l_env L)) (?x a))) (l_caddr L) ?s2 = ?s3"
    using server_gets_RTX [OF wf, of ?s2 "?x a" "l_caddr L"] small ab size(2) by (simp add: word_le_nat_alt)
  have 3: "race_reachable ?S (?s3, None)"
    unfolding get [symmetric] by (rule race_receives [OF 2])
  have load: "server_OnReceive_load (recv_into (l_j L) (client_image RTX (env_stack (l_env L)) (?x b)))
      (recv_len (client_image RTX (env_stack (l_env L)) (?x b))) (l_caddr L) ?s3 = (?s3, Some (of_nat b))"
    using load_RTX [OF wf, of ?s3 "?x b" "l_caddr L"] small ab size(2) by (simp add: word_le_nat_alt)
  have 4: "race_reachable ?S (?s3, Some (of_nat b))"
    unfolding load [symmetric] by (rule race_stepI [OF 3 race_loads])
  let ?s4 = "?s3\<lparr>s_packet_sequence_number := of_nat a, s_retransmit_psn := no_rtx, s_thr := Send_Data\<rparr>"
  have "(of_nat k :: u32) \<noteq> no_rtx" if "k \<le> m" for k
  proof
    assume "(of_nat k :: u32) = no_rtx"
    then have "k = 4294967295"
      using small [OF that] by (simp add: no_rtx_def unsigned_minus_1_eq_mask mask_eq_exp_minus_1)
    then show False using that abm(3) size(3) unat_lt_32 [of "s_total_packet_number s1"] by simp
  qed
  then have rtx: "(of_nat a :: u32) \<noteq> no_rtx" "(of_nat b :: u32) \<noteq> no_rtx" using ab by blast+
  have less: "of_nat m < s_total_packet_number s1" "of_nat (Suc a) < s_total_packet_number s1"
    using small [OF order_refl] small [of "Suc a"] abm size(3) by (simp_all add: word_less_nat_alt del: of_nat_Suc)
  have notlast: "of_nat a \<noteq> s_total_packet_number s1 - 1"
  proof
    assume "of_nat a = s_total_packet_number s1 - 1"
    then have "of_nat (Suc a) = s_total_packet_number s1" by simp
    with less(2) show False by simp
  qed
  have take: "sender_run ?S ?E 3 ?s3 = Inr ?s4"
    using rtx less size(2) by (simp add: sender_step_def take_rtx_def numeral_3_eq_3 advance_def)
  have 5: "race_reachable ?S (?s4, Some (of_nat b))"
    by (rule race_sends_reachable [OF 4 take])
  let ?s5 = "requesting (of_nat b) ?s4"
  have 6: "race_reachable ?S (?s5, None)"
    using race_stepI [OF 5 race_stores] by (simp add: server_OnReceive_store_def)
  have inv: "server_inv (requesting no_rtx s)" if "race_reachable ?S (s, None)" for s
    using race.reachable_inv [OF that] by (simp add: race_inv_def)
  have hf: "holds_file bs ?s5" using i size(1) by (simp add: holds_file_def)
  obtain i' w' where send: "send_data ?S ?E ?s5 = Inr (?s5\<lparr>s_ifs := i', s_wire := s_wire ?s5 @ w', s_thr := For_Incr\<rparr>)"
    and i': "\<not> in_fail i'" "in_data i' = bs" "sent_psns w' = [a]"
    using send_data_ahead [OF inv [OF 6] _ env hf] small [OF ab(1)] abm notlast by auto
  let ?s6 = "?s5\<lparr>s_ifs := i', s_wire := s_wire ?s5 @ w', s_packet_sequence_number := of_nat b,
      s_retransmit_psn := no_rtx, s_thr := Send_Data\<rparr>"
  have go: "sender_run ?S ?E 5 ?s5 = Inr ?s6"
    using send rtx(2) less(2) size(2) by (simp add: sender_step_def take_rtx_def eval_nat_numeral advance_def add.commute)
  have 7: "race_reachable ?S (?s6, None)"
    by (rule race_sends_reachable [OF 6 go])
  have hf': "holds_file bs ?s6" using i' size(1) by (simp add: holds_file_def)
  obtain i'' w'' t where send': "send_data ?S ?E ?s6 = Inr (?s6\<lparr>s_ifs := i'', s_wire := s_wire ?s6 @ w'', s_thr := t\<rparr>)"
    "sent_psns w'' = [b]"
    using send_data_ahead [OF inv [OF 7] _ env hf'] small [OF ab(2)] abm by auto
  let ?s7 = "?s6\<lparr>s_ifs := i'', s_wire := s_wire ?s6 @ w'', s_thr := t\<rparr>"
  have "sender_step ?S ?E ?s6 = Inr ?s7" using send'(1) by (simp add: sender_step_def)
  then have 8: "sender_run ?S ?E 6 ?s5 = Inr ?s7"
    using go sender_run_add [of ?S ?E 5 1 ?s5] by simp
  show ?thesis
    using 6 8 psns i'(3) send'(2) small ab by (intro exI [of _ ?s5] exI [of _ ?s7]) (simp add: advance_def del: sender_run.simps)
qed

end
