(* ===== verification/Server_Properties.thy ===== *)
theory Server_Properties
  imports Samples Long_Sample Rtx_Overtaken
begin

text \<open>
  The properties of the sending side: the sending thread, the transaction's handlers, the
  calls of \<^verbatim>\<open>StartFileTransfer\<close> and the map they share with the receiver thread.
\<close>

section \<open>The sending thread\<close>

text \<open>C18: Wherever the sending thread is in its loop, in every interleaving with the caller and
  the receiver, the bytes it reads for the current packet lie inside the announced file, are
  at least one and fit the payload buffer; none of the 32-bit products and differences wraps.\<close>

theorem sender_stays_in_file:
  assumes "reachable server_init (server_step sock) st" "in_loop (s_thr st)"
  shows "unat (data_offset st) = unat (s_packet_sequence_number st) * 1408 \<and>
    unat (data_offset st) + unat (data_len st) \<le> unat (s_new_file_size st) \<and>
    0 < unat (data_len st) \<and> unat (data_len st) \<le> sizeof_payload"
proof -
  have "server_inv st" by (rule server_tran.reachable_inv [OF assms(1)])
  from data_offset_len [OF this assms(2)] show ?thesis
    by (simp add: slice_len_def sizeof_defs)
qed

theorem sender_stays_in_file_witness:
  "\<exists>st. reachable server_init (server_step sample_sock) st \<and> in_loop (s_thr st) \<and>
     unat (data_offset st) + unat (data_len st) \<le> 1409 \<and> 0 < unat (data_len st)"
proof -
  obtain st where st: "reachable server_init (server_step sample_sock) st" "in_loop (s_thr st)"
    "s_new_file_size st = s_new_file_size sample_server"
    using sample_in_loop by blast
  show ?thesis
    using sender_stays_in_file [OF st(1,2)] st sample_fields(1) by (intro exI [of _ st]) simp
qed

text \<open>C19: Left alone by requests, cancellation and failures, the sending thread terminates from
  any packet on, within six steps per packet and one: it has sent every remaining packet of
  the file once and in order, and nothing else.\<close>

theorem sender_sends_rest_of_file:
  assumes "server_inv st" "s_thr st = For_Test" "sends sock E" "holds_file bs st"
    and "s_status st \<noteq> CXL" "s_retransmit_psn st = no_rtx"
  shows "\<exists>i n. n \<le> 6 * (unat (s_total_packet_number st) - unat (s_packet_sequence_number st)) + 1 \<and>
    sender_run sock E n st = Inr (advance st (s_total_packet_number st) Returned i
      (s_wire st @ map (data_datagram (senv_stack E) bs st)
        [unat (s_packet_sequence_number st) ..< unat (s_total_packet_number st)]))"
  using file_run [OF assms refl] .

theorem sender_sends_rest_of_file_witness:
  "\<exists>i n. n \<le> 13 \<and> sender_run sample_sock sample_senv n (sample_sending For_Test 0 no_rtx) =
     Inr (advance (sample_sending For_Test 0 no_rtx) (s_total_packet_number sample_server) Returned i
       (map (data_datagram junk sample_file (sample_sending For_Test 0 no_rtx)) [0 ..< 2]))"
proof -
  note inv = sample_sending_inv [of For_Test 0 no_rtx, simplified]
  have st: "s_thr (sample_sending For_Test 0 no_rtx) = For_Test" "s_status (sample_sending For_Test 0 no_rtx) \<noteq> CXL"
    "s_retransmit_psn (sample_sending For_Test 0 no_rtx) = no_rtx"
    "s_total_packet_number (sample_sending For_Test 0 no_rtx) = s_total_packet_number sample_server"
    "s_packet_sequence_number (sample_sending For_Test 0 no_rtx) = 0" "s_wire (sample_sending For_Test 0 no_rtx) = []"
    "senv_stack sample_senv = junk"
    by (simp_all add: sample_sending_def sample_senv_def)
  show ?thesis
    using sender_sends_rest_of_file [OF inv(1) st(1) sends_sample inv(2) st(2,3)] st(4-7) sample_total
    by simp
qed

section \<open>The handlers\<close>

text \<open>C20: The server's transaction becomes \<open>DONE\<close> by a received message exactly when the message
  passes the integrity check, is a \<open>DONE\<close> with a payload of twelve bytes, arrives in status
  \<open>DATA\<close> when every packet has been counted, and repeats the version, the length and the
  checksum announced.\<close>

theorem server_accepts_DONE_iff:
  "s_status st \<noteq> DONE \<and> s_status (server_OnReceive msg len addr st) = DONE \<longleftrightarrow>
     server_ValidateMessageIntegrity msg len \<and> message_id (xid (header msg)) = DONE \<and>
     len = sizeof_TrftpHeader + sizeof_TrftpDone \<and>
     s_status st = DATA \<and> s_packet_sequence_number st = s_total_packet_number st \<and>
     done_new_file_version (msg_done msg) = s_new_file_version st \<and>
     done_file_length (msg_done msg) = s_new_file_size st \<and>
     done_crc32 (msg_done msg) = s_new_file_crc32 st"
proof (cases "server_ValidateMessageIntegrity msg len")
  case False
  then show ?thesis by (simp add: server_OnReceive_def)
next
  case True
  have "sizeof_TrftpHeader \<le> len"
    using server_check.validate_len [OF True] by (simp add: sizeof_defs)
  then have len: "len - sizeof_TrftpHeader = sizeof_TrftpDone \<longleftrightarrow> len = sizeof_TrftpHeader + sizeof_TrftpDone"
    by auto
  show ?thesis
  proof (cases "message_id (xid (header msg)) = DONE")
    case done_msg: True
    then show ?thesis
      using True len
      by (simp add: server_OnReceive_def Let_def ValidateMessage_done_def server_expected_done_def)
  next
    case False
    then show ?thesis
      using True by (cases "message_id (xid (header msg))") (simp_all add: server_OnReceive_def Let_def)
  qed
qed

text \<open>C21: The shared counters stay in bounds even when the handler of \<^verbatim>\<open>RTX\<close> compares and stores in
  two steps, with steps of the other threads in between. The next sequence number is at most
  the packet count, and below it in the sending thread's loop, where the bytes it reads lie
  inside the announced file. A request, stored or still to be stored, is at most the packet
  count, and below it while the thread is in its loop, so that taking it never leads out of the
  file. The packet count is the rounded-up quotient of the announced size, or 0 when that sum
  exceeds 32 bits, and the gap between packets stays between 100 and 300 microseconds whatever
  the client asks for.\<close>

theorem requests_stay_in_file:
  assumes "race_reachable sock (st, pending)"
  shows "s_packet_sequence_number st \<le> s_total_packet_number st \<and>
    (in_loop (s_thr st) \<longrightarrow> s_packet_sequence_number st < s_total_packet_number st \<and>
       unat (data_offset st) = unat (s_packet_sequence_number st) * 1408 \<and>
       unat (data_offset st) + unat (data_len st) \<le> unat (s_new_file_size st) \<and> 0 < unat (data_len st)) \<and>
    (\<forall>k. s_retransmit_psn st = k \<and> k \<noteq> no_rtx \<or> pending = Some k \<longrightarrow>
       k \<le> s_total_packet_number st \<and> (in_loop (s_thr st) \<longrightarrow> k < s_total_packet_number st)) \<and>
    unat (s_total_packet_number st) =
      (if unat (s_new_file_size st) + 1407 < 2 ^ 32 then (unat (s_new_file_size st) + 1407) div 1408 else 0) \<and>
    100 \<le> s_inter_packet_gap st \<and> s_inter_packet_gap st \<le> 300"
  using race_bounds [OF assms] by blast

theorem requests_stay_in_file_witness:
  "\<exists>st. race_reachable sample_sock (st, None) \<and> in_loop (s_thr st) \<and>
     s_packet_sequence_number st < s_total_packet_number st \<and> unat (s_total_packet_number st) = 2"
proof -
  obtain st where st: "reachable server_init (server_step sample_sock) st" "in_loop (s_thr st)"
    "s_new_file_size st = s_new_file_size sample_server"
    using sample_in_loop by blast
  show ?thesis
    using requests_stay_in_file [OF server_reachable_race [OF st(1)]] server_reachable_race [OF st(1)] st(2,3)
      sample_fields(1) by (intro exI [of _ st]) simp
qed

text \<open>C38: A stored request can be ahead of the sending thread, although the handler rejects one that
  is ahead when it compares. With the thread at packet \<open>m\<close>, a request for packet \<open>a\<close> stored and
  one for a later packet \<open>b\<close> compared and not yet stored, the thread goes back to \<open>a\<close>; then \<open>b\<close> is
  stored. The thread sends packet \<open>a\<close> and jumps forward to \<open>b\<close>: the packets in between are not
  sent again.\<close>

theorem request_overtakes_thread:
  assumes "good_link L" "server_init st" "prepared bs L st" "transferable bs"
    and "0 \<le> fd (c_udp_socket (ct :: ClientTransaction))" "tmp_readable (temp_file (env_tmp (l_env L))) (c_files ct)"
    and "a < b" "b \<le> m" "m < packets_of bs"
  shows "\<exists>st1 st2. race_reachable (l_sock L) (st1, None) \<and>
    unat (s_packet_sequence_number st1) = a \<and> unat (s_retransmit_psn st1) = b \<and>
    sent_psns (s_wire st1) = sent_psns (s_wire st) @ [0 ..< m] \<and>
    sender_run (l_sock L) (l_senv L) 6 st1 = Inr st2 \<and> sent_psns (s_wire st2) = sent_psns (s_wire st) @ [0 ..< m] @ [a, b]"
  by (rule overtaken [OF assms])

theorem request_overtakes_thread_witness:
  "\<exists>st1 st2. race_reachable (l_sock long_link) (st1, None) \<and>
    unat (s_packet_sequence_number st1) = 1 \<and> unat (s_retransmit_psn st1) = 3 \<and>
    sender_run (l_sock long_link) (l_senv long_link) 6 st1 = Inr st2 \<and> sent_psns (s_wire st2) = [0, 1, 2, 1, 3]"
proof -
  have "server_init long_server" unfolding server_init_def using long_call(2) by blast
  from request_overtakes_thread [OF good_long_link this prepared_long _ long_client_ready, of 1 3 3] show ?thesis
    by (simp add: upt_conv_Cons numeral_2_eq_2 numeral_3_eq_3 del: sender_run.simps) blast
qed

text \<open>The server's transaction discards a valid datagram in which up to four consecutive
  bytes have been changed (before, inside or after the checksum field): all that changes is
  the address it will send to.\<close>

lemma server_discards_bursts:
  assumes "wf_message j" "wf_message j'" "length w = length w'" "length w \<le> 4" "w \<noteq> w'"
    and "length (pre @ w @ post) \<le> 1440"
    and "clear_of_crc (length pre) (length w) \<or> within_crc (length pre) (length w)"
    and "server_ValidateMessageIntegrity (recv_into j (pre @ w @ post)) (recv_len (pre @ w @ post))"
  shows "server_OnReceive (recv_into j' (pre @ w' @ post)) (recv_len (pre @ w' @ post)) addr st =
    st\<lparr>s_client_address := addr\<rparr>"
  using server_check.validate_burst [OF assms(1-4,6,5,7,8)] by (simp add: server_OnReceive_def)

section \<open>Sizes\<close>

text \<open>For a file within 1,407 bytes of 4 GiB the 32-bit packet count wraps to 0: the transfer
  of such a file is started, and its sending thread returns without sending anything.\<close>

lemma huge_file_sends_nothing:
  assumes "ServerTransaction_new addr p v d fs = Inr st" "fs p = Some f" "readable f"
    and "4294967296 - 1407 \<le> length (content f)" "length (content f) < 4294967296" "senv_files E = fs"
  shows "s_total_packet_number st = 0 \<and>
    (\<exists>st'. sender_run sock E 2 (st\<lparr>s_status := DATA, s_thr := Opening\<rparr>) = Inr st' \<and>
      s_thr st' = Returned \<and> s_wire st' = [])"
proof -
  have st: "s_total_packet_number st = server_packets (of_nat (length (content f)))" "s_wire st = []" "s_file_path st = p"
    using assms(1,2) by (auto simp: ServerTransaction_new_def fs_file_size_def bind_result_eq_Inr)
  have "unat (of_nat (length (content f)) :: u32) = length (content f)"
    using assms(5) by (simp add: unsigned_of_nat take_bit_nat_eq_self)
  then have "\<not> no_wrap (of_nat (length (content f)))"
    using assms(4) by (simp add: no_wrap_def)
  then have total: "s_total_packet_number st = 0"
    using st(1) server_packets_wrap by simp
  then show ?thesis
    using st(2,3) assms(2,3,6) by (simp add: sender_step_def numeral_2_eq_2 ifstream_open_def)
qed

text \<open>C29: The three packet counts, the client's and the header's in 64-bit arithmetic, the server's
  in 32-bit arithmetic, agree exactly for the sizes from 1 to 4 GiB less 1,408 bytes.\<close>

theorem packet_counts_agree_iff:
  "(server_packets n = header_tpn n \<and> client_packets n = header_tpn n) \<longleftrightarrow>
     n \<noteq> 0 \<and> unat n + 1407 < 4294967296"
proof -
  have eq: "a = b \<longleftrightarrow> unat a = unat b" for a b :: u32
    by (simp add: word_unat_eq_iff)
  show ?thesis
  proof (cases "no_wrap n")
    case True
    then show ?thesis
      unfolding eq [of "server_packets n"] eq [of "client_packets n"]
      by (auto simp: server_packets_no_wrap unat_client_packets unat_header_tpn no_wrap_def)
  next
    case False
    then have "unat n \<ge> 4294965889" by (simp add: no_wrap_def)
    then have "n \<noteq> 0" "0 < (unat n + 1407) div 1408" by auto
    then show ?thesis
      using False server_packets_wrap [OF False]
      unfolding eq [of "server_packets n"] by (auto simp: unat_header_tpn no_wrap_def)
  qed
qed

end
