(* ===== verification/Routing.thy ===== *)
theory Routing
  imports Server_System
begin

text \<open>
  Which call a received datagram can reach. A call is reached only from the address whose
  \<^verbatim>\<open>inet_ntoa\<close> spelling is the key of its entry; a call whose key is no such spelling (the
  URI named a host, or wrote the address with leading zeros) never learns of an answer.
\<close>

section \<open>Frames\<close>

lemma step_frame:
  assumes "StartFileTransfer_step E t c sv = Some (c', sv')"
  shows "call_ip c' = call_ip c" "call_tran c' = call_tran c"
    "length (sv_heap sv') = length (sv_heap sv)"
    "j \<noteq> call_tran c \<Longrightarrow> sv_heap sv' ! j = sv_heap sv ! j"
proof -
  have "call_ip c' = call_ip c \<and> call_tran c' = call_tran c \<and> length (sv_heap sv') = length (sv_heap sv) \<and>
    (j \<noteq> call_tran c \<longrightarrow> sv_heap sv' ! j = sv_heap sv ! j)"
    using assms
    by (cases "call_pc c") (auto simp: StartFileTransfer_step_def split: prod.splits option.splits if_splits)
  then show "call_ip c' = call_ip c" "call_tran c' = call_tran c" "length (sv_heap sv') = length (sv_heap sv)"
    "j \<noteq> call_tran c \<Longrightarrow> sv_heap sv' ! j = sv_heap sv ! j" by simp_all
qed

lemma same_call:
  assumes "distinct (map call_tran cs)" "c \<in> set cs" "c' \<in> set cs" "call_tran c = call_tran c'"
  shows "c = c'"
  using assms by (auto simp: distinct_map dest: inj_onD)

text \<open>A datagram changes at most the transaction of the call with the address of its sender.\<close>

lemma route_frame:
  assumes inv: "sys_inv f (sv, cs)" and c: "c \<in> set cs" "call_ip c \<noteq> inet_ntoa (s_addr addr)"
  shows "sv_heap (server_route len msg addr sv) ! call_tran c = sv_heap sv ! call_tran c"
proof (rule server_route_other)
  show "sv_active_transactions sv (inet_ntoa (s_addr addr)) \<noteq> Some (call_tran c)"
  proof
    assume "sv_active_transactions sv (inet_ntoa (s_addr addr)) = Some (call_tran c)"
    then obtain c' where "c' \<in> set cs" "call_ip c' = inet_ntoa (s_addr addr)" "call_tran c' = call_tran c"
      unfolding sys_invD(5) [OF inv] owned_def by auto
    then show False
      using same_call [OF sys_invD(4) [OF inv]] c by metis
  qed
qed

lemma main_body_route:
  assumes "server_main_body ev m a sv = Inr sv'"
  obtains len msg addr where "sv_heap sv' = sv_heap (server_route len msg addr sv)"
    "\<And>src bs. ev = Recv_Datagram src bs \<Longrightarrow> addr = src"
proof -
  obtain len msg addr where r: "udp_Receive ev m a = Inr (len, msg, addr)"
    "sv' = (server_route len msg addr sv)\<lparr>sv_thread := Server_Test\<rparr>"
    using assms by (auto simp: server_main_body_def bind_result_eq_Inr)
  show ?thesis
    by (rule that [of len msg addr]) (use r in \<open>auto simp: udp_Receive_def split: if_splits\<close>)
qed

section \<open>Calls that hear nothing\<close>

text \<open>What such a call can have come to: the notification, a time-out, a cancellation.\<close>

fun unanswered_pc :: "start_pc \<Rightarrow> bool" where
  "unanswered_pc (Sending i) \<longleftrightarrow> i \<in> {NTF, CXL}"
| "unanswered_pc (Loading i) \<longleftrightarrow> i = NTF"
| "unanswered_pc (Waiting i old_status) \<longleftrightarrow> i = NTF"
| "unanswered_pc (Erasing s) \<longleftrightarrow> s \<in> {NTF, CXL}"
| "unanswered_pc (Destroying s) \<longleftrightarrow> s \<in> {NTF, CXL}"
| "unanswered_pc (Finished s) \<longleftrightarrow> s \<in> {NTF, CXL}"
| "unanswered_pc (Threw e) \<longleftrightarrow> True"

definition unanswered :: "Server \<Rightarrow> start_call \<Rightarrow> bool" where
  "unanswered sv c \<longleftrightarrow>
     s_status (sv_heap sv ! call_tran c) \<in> {NTF, CXL} \<and> unanswered_pc (call_pc c)"

lemma step_unanswered:
  assumes step: "StartFileTransfer_step E t c sv = Some (c', sv')" and c: "unanswered sv c"
    and bound: "call_tran c < length (sv_heap sv)"
  shows "unanswered sv' c'"
proof (cases "call_pc c")
  case (Sending i)
  obtain st r where send: "send_keeping (sv_udp_socket sv) E i (sv_heap sv ! call_tran c) = (st, r)"
    by fastforce
  have i: "i \<in> {NTF, CXL}" using c Sending by (simp add: unanswered_def)
  have "s_status st \<in> {NTF, CXL}"
    using send by (cases rule: send_keeping_cases) (use i in auto)
  then show ?thesis
    using step Sending send bound i
    by (auto simp: unanswered_def StartFileTransfer_step_def after_send_def split: option.splits)
next
  case (Waiting i old)
  then show ?thesis
    using step c
    by (auto simp: unanswered_def StartFileTransfer_step_def wait_poll_def after_wait_def
        split: option.splits if_splits)
qed (use step c in \<open>auto simp: unanswered_def StartFileTransfer_step_def split: if_splits\<close>)

text \<open>The status of an unanswered call's transaction, under what the other threads do.\<close>

lemma unanswered_set_tran:
  assumes "unanswered sv c" "k < length (sv_heap sv)"
    and "s_status (sv_heap sv ! k) \<in> {NTF, CXL} \<Longrightarrow> s_status st \<in> {NTF, CXL}"
  shows "unanswered (set_tran k st sv) c"
  using assms by (cases "call_tran c = k") (auto simp: unanswered_def)

definition mute :: "string \<Rightarrow> bool" where
  "mute ip \<longleftrightarrow> (\<forall>a. ip \<noteq> inet_ntoa a)"

text \<open>The calls after one of them has taken a step.\<close>

lemma call_unanswered:
  assumes inv: "sys_inv DefaultServerTransactionFactory_CreateTransaction (sv, cs)" and k: "k < length cs"
    and step: "StartFileTransfer_step E t (cs ! k) sv = Some (c0, sv')"
    and old: "\<And>c. c \<in> set cs \<Longrightarrow> mute (call_ip c) \<Longrightarrow> unanswered sv c"
    and new: "c \<in> set (cs[k := c0])" "mute (call_ip c)"
  shows "unanswered sv' c"
proof (cases "c = c0")
  case True
  then show ?thesis
    using step_unanswered [OF step] old [OF nth_mem [OF k]] sys_invD(3) [OF inv nth_mem [OF k]] new(2)
      step_frame(1) [OF step]
    by (simp add: call_ok_def)
next
  case False
  then have c: "c \<in> set cs" using new(1) set_update_subset_insert by fastforce
  obtain j where j: "j < length cs" "cs ! j = c" "j \<noteq> k"
    using new(1) False k by (metis in_set_conv_nth length_list_update nth_list_update)
  then have "call_tran c \<noteq> call_tran (cs ! k)"
    using sys_invD(4) [OF inv] k by (auto simp: distinct_conv_nth)
  then show ?thesis
    using old [OF c new(2)] step_frame(4) [OF step] by (simp add: unanswered_def)
qed

lemma sys_step_unanswered:
  assumes step: "sys_step inet_addr (sv, cs) (sv', cs')"
    and inv: "sys_inv DefaultServerTransactionFactory_CreateTransaction (sv, cs)"
    and old: "\<And>c. c \<in> set cs \<Longrightarrow> mute (call_ip c) \<Longrightarrow> unanswered sv c"
    and new: "c \<in> set cs'" "mute (call_ip c)"
  shows "unanswered sv' c"
  using step
proof cases
  case (start fs uri p v d c0)
  obtain st where st: "server_init st" "call_tran c0 = length (sv_heap sv)" "call_pc c0 = Sending NTF"
    "sv' = sv\<lparr>sv_heap := sv_heap sv @ [st],
      sv_active_transactions := (sv_active_transactions sv)(call_ip c0 \<mapsto> length (sv_heap sv))\<rparr>"
    using default_factory.enter_result [OF start(2) sys_invD(1) [OF inv]] by metis
  have "s_status st = NTF"
    using st(1) by (auto simp: server_init_def ServerTransaction_new_def bind_result_eq_Inr)
  then show ?thesis
    using st new start(1) old [of c] sys_invD(3) [OF inv, of c]
    by (auto simp: unanswered_def call_ok_def nth_append)
next
  case (call k E t c0)
  show ?thesis
    by (rule call_unanswered [OF inv call(2,3) old]) (use new call(1) in simp_all)
next
  case (abort E ip r)
  have c: "unanswered sv c" using old new abort(1) by simp
  from abort(2) show ?thesis
  proof (cases rule: AbortFileTransfer_cases)
    case (cancelled k st r')
    have "s_status st = CXL" using cancelled(2) by (cases rule: send_keeping_cases) auto
    then show ?thesis
      using unanswered_set_tran [OF c owned_bound [OF inv cancelled(1)]] cancelled(3) by simp
  qed (use c in simp)
next
  case stop
  then show ?thesis using old new by (simp add: unanswered_def Server_stop_def)
next
  case main_test
  then show ?thesis using old new by (simp add: unanswered_def server_main_test_def)
next
  case (main_body ev m a)
  obtain len msg addr where r: "sv_heap sv' = sv_heap (server_route len msg addr sv)"
    using main_body_route [OF main_body(3)] by metis
  have "c \<in> set cs" using new main_body(1) by simp
  then show ?thesis
    using old new(2) route_frame [OF inv, of c addr len msg] r by (simp add: unanswered_def mute_def)
next
  case (sender k E st)
  have "server_inv (sv_heap sv ! k)" using sys_invD(2) [OF inv sender(3)] by (simp add: tran_inv_def)
  then have "s_status (sv_heap sv ! k) \<in> {NTF, CXL} \<Longrightarrow> s_status st \<in> {NTF, CXL}"
    using sender_step_status(1) [OF sender(4)] by auto
  then show ?thesis
    using sender old new unanswered_set_tran [OF _ sender(3)] by simp
qed

lemma reachable_unanswered:
  assumes "server_reachable inet_addr sv cs" "c \<in> set cs" "mute (call_ip c)"
  shows "unanswered sv c"
proof -
  have "reachable (sys_init DefaultServerTransactionFactory_CreateTransaction) (sys_step inet_addr) s \<Longrightarrow>
    c \<in> set (snd s) \<Longrightarrow> mute (call_ip c) \<Longrightarrow> unanswered (fst s) c" for s c
  proof (induction arbitrary: c rule: reachable.induct)
    case (reachable_init s)
    then show ?case by (auto simp: sys_init_def)
  next
    case (reachable_step s t)
    obtain sv cs sv' cs' where s: "s = (sv, cs)" "t = (sv', cs')" by fastforce
    show ?case
      using sys_step_unanswered [of inet_addr sv cs sv' cs' c] reachable_step
        default_factory.sys.reachable_inv [of inet_addr s]
      by (simp add: s)
  qed
  from this [OF assms(1)] assms(2,3) show ?thesis by simp
qed

end
