(* ===== verification/Wait_For_Status.thy ===== *)
theory Wait_For_Status
  imports Server_System
begin

text \<open>
  \<^verbatim>\<open>ServerTransaction::WaitForStatus\<close> statement by statement: the load of the old status, the
  loop of \<^verbatim>\<open>std::condition_variable::wait_for\<close> with its predicate, the load of the result, and
  the stores and notifications of the other threads, which do not hold the mutex. It implements
  the two atomic steps the model of the server uses, and it can miss a notification.
\<close>

section \<open>State\<close>

text \<open>
  The positions: before the load; about to evaluate the predicate; the predicate was false and
  the thread is about to block; blocked; the time is up and the predicate is evaluated for the
  last time; the predicate was true and the result is about to be loaded; returned.
\<close>

datatype wait_pc =
    Wait_Load | Wait_Test FtpStatus | Wait_Enter FtpStatus | Wait_Blocked FtpStatus
  | Wait_Final FtpStatus | Wait_Read FtpStatus | Wait_Return "FtpStatus option"

text \<open>The transaction, the waiting thread, and the notifications that follow a store of the
  status but have not been issued yet.\<close>

record waiter =
  w_tran :: ServerTransaction
  w_pc :: wait_pc
  w_notify :: nat

text \<open>What the waiting thread does by itself.\<close>

definition wait_own :: "waiter \<Rightarrow> waiter option" where
  "wait_own w =
     (let status = s_status (w_tran w)
      in case w_pc w of
           Wait_Load \<Rightarrow> Some (w\<lparr>w_pc := Wait_Test status\<rparr>)
         | Wait_Test old_status \<Rightarrow>
             Some (w\<lparr>w_pc := (if status \<noteq> old_status then Wait_Read old_status else Wait_Enter old_status)\<rparr>)
         | Wait_Enter old_status \<Rightarrow> Some (w\<lparr>w_pc := Wait_Blocked old_status\<rparr>)
         | Wait_Blocked old_status \<Rightarrow> None
         | Wait_Final old_status \<Rightarrow>
             Some (w\<lparr>w_pc := (if status \<noteq> old_status then Wait_Read old_status else Wait_Return None)\<rparr>)
         | Wait_Read old_status \<Rightarrow> Some (w\<lparr>w_pc := Wait_Return (Some status)\<rparr>)
         | Wait_Return r \<Rightarrow> None)"

text \<open>\<^verbatim>\<open>notify_one\<close>: without a waiter it has no effect.\<close>

definition wait_notified :: "wait_pc \<Rightarrow> wait_pc" where
  "wait_notified pc = (case pc of Wait_Blocked old_status \<Rightarrow> Wait_Test old_status | _ \<Rightarrow> pc)"

text \<open>The other threads of a transaction that is waited for: the receiver, a caller of
  \<^verbatim>\<open>AbortFileTransfer\<close>, the sending thread.\<close>

inductive other_thread :: "ServerTransaction \<Rightarrow> ServerTransaction \<Rightarrow> bool" where
  receives: "other_thread st (server_OnReceive msg len addr st)"
| aborts: "send_keeping sock E CXL st = (st', r) \<Longrightarrow> other_thread st st'"
| sends_file: "sender_step sock E st = Inr st' \<Longrightarrow> other_thread st st'"

inductive wait_step :: "waiter \<Rightarrow> waiter \<Rightarrow> bool" where
  own: "wait_own w = Some w' \<Longrightarrow> wait_step w w'"
| times_out: "w_pc w = Wait_Blocked old_status \<Longrightarrow> wait_step w (w\<lparr>w_pc := Wait_Final old_status\<rparr>)"
| wakes_up: "w_pc w = Wait_Blocked old_status \<Longrightarrow> wait_step w (w\<lparr>w_pc := Wait_Test old_status\<rparr>)"
| stores:
    "other_thread (w_tran w) st \<Longrightarrow>
     wait_step w (w\<lparr>w_tran := st,
       w_notify := (if s_status st = s_status (w_tran w) then w_notify w else Suc (w_notify w))\<rparr>)"
| notifies:
    "w_notify w = Suc k \<Longrightarrow>
     wait_step w (w\<lparr>w_notify := k, w_pc := wait_notified (w_pc w)\<rparr>)"

definition wait_init :: "ServerTransaction \<Rightarrow> waiter \<Rightarrow> bool" where
  "wait_init st w \<longleftrightarrow> w = \<lparr>w_tran = st, w_pc = Wait_Load, w_notify = 0\<rparr>"

section \<open>The status only rises\<close>

text \<open>What the caller announces, what the client answers, what ends the transfer.\<close>

definition status_rank :: "FtpStatus \<Rightarrow> nat" where
  "status_rank s = (if s \<in> {NTF, INFO, DATA} then 0 else if s = CXL then 2 else 1)"

lemma other_thread_tran_inv: "other_thread st st' \<Longrightarrow> tran_inv st \<Longrightarrow> tran_inv st'"
  by (erule other_thread.cases)
    (auto intro: OnReceive_tran_inv send_keeping_tran_inv sender_step_tran_inv)

lemma other_thread_status:
  assumes "other_thread st st'" "tran_inv st"
  shows "s_status st' = s_status st \<or> status_rank (s_status st) < status_rank (s_status st')"
  using assms(1)
proof cases
  case (receives msg len addr)
  then show ?thesis
    by (cases rule: server_OnReceive_cases [of msg len addr st]) (auto simp: status_rank_def)
next
  case (aborts sock E r)
  then show ?thesis using send_keeping_status [of sock E CXL st st' r] by (auto simp: status_rank_def)
next
  case (sends_file sock E)
  then show ?thesis
    using sender_step_status(1) [of sock E st st'] assms(2) by (auto simp: status_rank_def tran_inv_def)
qed

text \<open>So it does not come back to the status the wait began with.\<close>

fun wait_pc_ok :: "wait_pc \<Rightarrow> FtpStatus \<Rightarrow> bool" where
  "wait_pc_ok (Wait_Read old_status) s \<longleftrightarrow> status_rank old_status < status_rank s"
| "wait_pc_ok (Wait_Test old_status) s \<longleftrightarrow> s = old_status \<or> status_rank old_status < status_rank s"
| "wait_pc_ok (Wait_Enter old_status) s \<longleftrightarrow> s = old_status \<or> status_rank old_status < status_rank s"
| "wait_pc_ok (Wait_Blocked old_status) s \<longleftrightarrow> s = old_status \<or> status_rank old_status < status_rank s"
| "wait_pc_ok (Wait_Final old_status) s \<longleftrightarrow> s = old_status \<or> status_rank old_status < status_rank s"
| "wait_pc_ok _ s \<longleftrightarrow> True"

definition wait_inv :: "waiter \<Rightarrow> bool" where
  "wait_inv w \<longleftrightarrow> tran_inv (w_tran w) \<and> wait_pc_ok (w_pc w) (s_status (w_tran w))"

lemma wait_pc_ok_rises:
  "wait_pc_ok pc s \<Longrightarrow> s' = s \<or> status_rank s < status_rank s' \<Longrightarrow> wait_pc_ok pc s'"
  by (cases pc) auto

lemma wait_step_inv:
  assumes "wait_step w w'" "wait_inv w"
  shows "wait_inv w'"
  using assms(1)
proof cases
  case own
  then show ?thesis
    using assms(2) by (cases "w_pc w") (auto simp: wait_own_def wait_inv_def Let_def split: if_splits)
next
  case (stores st)
  then show ?thesis
    using assms(2) other_thread_tran_inv wait_pc_ok_rises other_thread_status
    by (fastforce simp: wait_inv_def)
qed (use assms(2) in \<open>auto simp: wait_inv_def wait_notified_def split: wait_pc.splits\<close>)

interpretation waiting: invariant_system "\<lambda>w. \<exists>st. tran_inv st \<and> wait_init st w" wait_step wait_inv
proof unfold_locales
  show "wait_inv w" if "\<exists>st. tran_inv st \<and> wait_init st w" for w
    using that by (auto simp: wait_init_def wait_inv_def)
  show "wait_inv w'" if "wait_inv w" "wait_step w w'" for w w'
    using wait_step_inv [OF that(2,1)] .
qed

section \<open>Refinement\<close>

text \<open>The two steps of the model of the server, with the other threads in between.\<close>

datatype poll_pc = At_Load | At_Wait FtpStatus | Answered "FtpStatus option"

inductive poll_step :: "ServerTransaction \<times> poll_pc \<Rightarrow> ServerTransaction \<times> poll_pc \<Rightarrow> bool" where
  load: "poll_step (st, At_Load) (st, At_Wait (wait_load st))"
| poll: "wait_poll old_status timed_out st = Some r \<Longrightarrow> poll_step (st, At_Wait old_status) (st, Answered r)"
| other: "other_thread st st' \<Longrightarrow> poll_step (st, pc) (st', pc)"

fun poll_pc_of :: "wait_pc \<Rightarrow> poll_pc" where
  "poll_pc_of Wait_Load = At_Load"
| "poll_pc_of (Wait_Test old_status) = At_Wait old_status"
| "poll_pc_of (Wait_Enter old_status) = At_Wait old_status"
| "poll_pc_of (Wait_Blocked old_status) = At_Wait old_status"
| "poll_pc_of (Wait_Final old_status) = At_Wait old_status"
| "poll_pc_of (Wait_Read old_status) = At_Wait old_status"
| "poll_pc_of (Wait_Return r) = Answered r"

definition poll_of :: "waiter \<Rightarrow> ServerTransaction \<times> poll_pc" where
  "poll_of w = (w_tran w, poll_pc_of (w_pc w))"

lemma poll_pc_of_notified [simp]: "poll_pc_of (wait_notified pc) = poll_pc_of pc"
  by (cases pc) (simp_all add: wait_notified_def)

lemma wait_step_refines:
  assumes "wait_step w w'" "wait_inv w"
  shows "poll_of w' = poll_of w \<or> poll_step (poll_of w) (poll_of w')"
  using assms(1)
proof cases
  case own
  let ?st = "w_tran w"
  show ?thesis
  proof (cases "w_pc w")
    case Wait_Load
    then show ?thesis
      using own poll_step.load [of ?st] by (auto simp: wait_own_def poll_of_def wait_load_def)
  next
    case (Wait_Final old)
    then show ?thesis
      using own poll_step.poll [of old True ?st None]
      by (auto simp: wait_own_def poll_of_def wait_poll_def Let_def split: if_splits)
  next
    case (Wait_Read old)
    then have "s_status ?st \<noteq> old" using assms(2) by (auto simp: wait_inv_def)
    then show ?thesis
      using own Wait_Read poll_step.poll [of old False ?st "Some (s_status ?st)"]
      by (auto simp: wait_own_def poll_of_def wait_poll_def)
  qed (use own in \<open>auto simp: wait_own_def poll_of_def Let_def split: if_splits\<close>)
next
  case (stores st)
  then show ?thesis using poll_step.other [of "w_tran w" st] by (simp add: poll_of_def)
qed (simp_all add: poll_of_def)

section \<open>Lost notifications\<close>

text \<open>A blocked thread for which no notification is on its way goes on by its time, or by chance,
  or when another thread stores a further status.\<close>

lemma blocked_steps:
  assumes "wait_step w w'" "w_pc w = Wait_Blocked old_status" "w_notify w = 0" "s_status (w_tran w') = s_status (w_tran w)"
  shows "w_pc w' = Wait_Blocked old_status \<and> w_notify w' = 0 \<or>
    w' = w\<lparr>w_pc := Wait_Final old_status\<rparr> \<or> w' = w\<lparr>w_pc := Wait_Test old_status\<rparr>"
  using assms by cases (auto simp: wait_own_def)

lemma late_answer:
  assumes "other_thread st st'" "s_status st' \<noteq> s_status st"
  shows "reachable (wait_init st) wait_step \<lparr>w_tran = st', w_pc = Wait_Blocked (s_status st), w_notify = 0\<rparr>"
proof -
  let ?old = "s_status st"
  let ?w = "\<lambda>x pc k. \<lparr>w_tran = x, w_pc = pc, w_notify = k\<rparr>"
  have 0: "reachable (wait_init st) wait_step (?w st Wait_Load 0)"
    by (rule reachable.reachable_init) (simp add: wait_init_def)
  have 1: "wait_step (?w st Wait_Load 0) (?w st (Wait_Test ?old) 0)"
    "wait_step (?w st (Wait_Test ?old) 0) (?w st (Wait_Enter ?old) 0)"
    "wait_step (?w st' (Wait_Enter ?old) 0) (?w st' (Wait_Blocked ?old) 0)"
    by (rule wait_step.own, simp add: wait_own_def)+
  have 2: "wait_step (?w st (Wait_Enter ?old) 0) (?w st' (Wait_Enter ?old) (Suc 0))"
    using wait_step.stores [of "?w st (Wait_Enter ?old) 0" st'] assms by simp
  have 3: "wait_step (?w st' (Wait_Enter ?old) (Suc 0)) (?w st' (Wait_Enter ?old) 0)"
    using wait_step.notifies [of "?w st' (Wait_Enter ?old) (Suc 0)" 0] by (simp add: wait_notified_def)
  show ?thesis
    using 0 1 2 3 by (meson reachable.reachable_step)
qed

end
