(* ===== verification/Server_System_Properties.thy ===== *)
theory Server_System_Properties
  imports Samples Routing Wait_For_Status
begin

text \<open>
  The properties of the server as a whole: its calls of \<^verbatim>\<open>StartFileTransfer\<close>, the map of
  active transactions they share with the receiver thread, and the routing of datagrams.
  \<open>server_reachable\<close> ranges over every interleaving of any number of calls, aborts, received
  datagrams and sending threads.
\<close>

section \<open>Results\<close>

text \<open>C22: A call that returns returns \<open>NTF\<close> (no answer), \<open>CXL\<close> or \<open>FIN\<close>, and by then no key of the
  map leads to its transaction and no thread of it runs.\<close>

theorem start_transfer_cleans_up:
  assumes "server_reachable inet_addr sv cs" "c \<in> set cs" "call_pc c = Finished s"
  shows "s \<in> {NTF, CXL, FIN} \<and> call_tran c \<notin> ran (sv_active_transactions sv) \<and>
    s_thr (sv_heap sv ! call_tran c) \<in> {Not_Started, Returned}"
  using reachable_call(2) [OF assms(1,2)] finished_not_active [OF assms(1,2)] assms(3)
  by (auto simp: over_def ServerTransaction_delete_returns_def)

theorem start_transfer_cleans_up_witness:
  "\<exists>sv c. server_reachable sample_inet_addr sv [c] \<and> call_pc c = Finished FIN \<and>
     call_tran c \<notin> ran (sv_active_transactions sv)"
proof -
  obtain sv c where "server_reachable sample_inet_addr sv [c]" "call_pc c = Finished FIN"
    using sample_call_done by blast
  then show ?thesis
    using start_transfer_cleans_up [of sample_inet_addr sv "[c]" c FIN] by auto
qed

text \<open>How far a call is from its end.\<close>

fun send_stage :: "MessageId \<Rightarrow> nat" where
  "send_stage NTF = 3"
| "send_stage INFO = 2"
| "send_stage DATA = 1"
| "send_stage _ = 0"

fun call_rank :: "start_pc \<Rightarrow> nat" where
  "call_rank (Sending i) = 3 * send_stage i + 3"
| "call_rank (Loading i) = 3 * send_stage i + 2"
| "call_rank (Waiting i old_status) = 3 * send_stage i + 1"
| "call_rank (Erasing s) = 2"
| "call_rank (Destroying s) = 1"
| "call_rank (Finished s) = 0"
| "call_rank (Threw e) = 0"

text \<open>The sending thread of a transaction whose call is done with it is on its way out.\<close>

fun sender_rank :: "sender \<Rightarrow> nat" where
  "sender_rank Not_Started = 0"
| "sender_rank Returned = 0"
| "sender_rank Check_Cxl = 1"
| "sender_rank For_Test = 2"
| "sender_rank Opening = 3"
| "sender_rank For_Incr = 3"
| "sender_rank Tail_Wait = 4"
| "sender_rank Send_Data = 5"
| "sender_rank Check_Rtx = 6"

lemma sender_leaves:
  assumes "sender_step sock E st = Inr st'" "server_inv st" "over s st" "s_thr st \<notin> {Not_Started, Returned}"
  shows "sender_rank (s_thr st') < sender_rank (s_thr st)"
proof (cases "s_thr st")
  case Check_Cxl
  then have "s_packet_sequence_number st \<noteq> s_total_packet_number st"
    using assms(2) by (auto simp: server_inv_def in_loop_def)
  then have "s_status st = CXL"
    using assms(3,4) by (auto simp: over_def all_sent_def)
  then show ?thesis using assms(1) Check_Cxl by (auto simp: sender_step_def)
next
  case Send_Data
  then have "send_data sock E st = Inr st'" using assms(1) by (simp add: sender_step_def)
  then show ?thesis
    by (cases rule: send_data_cases [OF _ assms(2) Send_Data]) (erule ssubst, simp add: Send_Data)+
qed (use assms(1,4) in \<open>auto simp: sender_step_def bind_result_eq_Inr split: option.splits if_splits\<close>)

text \<open>C23: A call does not go on for ever: each of its steps, whatever the other threads do in
  between, lowers a rank of at most 12, and when its time is up it has a step, unless it has
  ended or waits in the destructor for the sending thread. Then every step of that thread
  lowers a rank of at most 6, whatever the file and the network do, so it returns, and the call
  with it, unless sending throws, which ends the process.\<close>

theorem calls_terminate:
  assumes "server_reachable inet_addr sv cs" "c \<in> set cs"
  shows "call_rank (call_pc c) \<le> 12 \<and>
    (\<forall>E t c' sv'. StartFileTransfer_step E t c sv = Some (c', sv') \<longrightarrow>
       call_rank (call_pc c') < call_rank (call_pc c)) \<and>
    (\<forall>E. StartFileTransfer_step E True c sv = None \<longrightarrow>
       (\<exists>s. call_pc c = Finished s) \<or> (\<exists>e. call_pc c = Threw e) \<or>
       (\<exists>s. call_pc c = Destroying s) \<and> s_thr (sv_heap sv ! call_tran c) \<notin> {Not_Started, Returned}) \<and>
    (\<forall>s sock E st'. call_pc c = Destroying s \<longrightarrow> s_thr (sv_heap sv ! call_tran c) \<notin> {Not_Started, Returned} \<longrightarrow>
       sender_step sock E (sv_heap sv ! call_tran c) = Inr st' \<longrightarrow>
       sender_rank (s_thr st') < sender_rank (s_thr (sv_heap sv ! call_tran c)) \<and>
       sender_rank (s_thr (sv_heap sv ! call_tran c)) \<le> 6)"
proof -
  have ok: "pc_ok (call_pc c) (sv_heap sv ! call_tran c)" by (rule reachable_call(2) [OF assms])
  have bound: "call_rank (call_pc c) \<le> 12"
  proof -
    have stage: "send_stage i \<le> 3" for i by (cases i) simp_all
    show ?thesis
    proof (cases "call_pc c")
      case (Sending i) then show ?thesis using stage [of i] by simp
    next
      case (Loading i) then show ?thesis using stage [of i] by simp
    next
      case (Waiting i old) then show ?thesis using stage [of i] by simp
    qed simp_all
  qed
  have down: "call_rank (call_pc c') < call_rank (call_pc c)"
    if "StartFileTransfer_step E t c sv = Some (c', sv')" for E t c' sv'
    using that ok
    by (cases "call_pc c")
      (auto simp: StartFileTransfer_step_def after_send_def after_wait_def split: option.splits prod.splits if_splits)
  have enabled: "(\<exists>s. call_pc c = Finished s) \<or> (\<exists>e. call_pc c = Threw e) \<or>
      (\<exists>s. call_pc c = Destroying s) \<and> s_thr (sv_heap sv ! call_tran c) \<notin> {Not_Started, Returned}"
    if "StartFileTransfer_step E True c sv = None" for E
    using that
    by (cases "call_pc c")
      (auto simp: StartFileTransfer_step_def wait_poll_def ServerTransaction_delete_returns_def Let_def
        split: option.splits prod.splits if_splits)
  have thread: "sender_rank (s_thr st') < sender_rank (s_thr (sv_heap sv ! call_tran c))"
    if "call_pc c = Destroying s" "s_thr (sv_heap sv ! call_tran c) \<notin> {Not_Started, Returned}"
      "sender_step sock E (sv_heap sv ! call_tran c) = Inr st'" for s sock E st'
  proof -
    have "server_inv (sv_heap sv ! call_tran c)"
      using reachable_call(3) [OF assms] by (simp add: tran_inv_def)
    then show ?thesis using sender_leaves [OF that(3) _ _ that(2)] ok that(1) by simp
  qed
  have "sender_rank p \<le> 6" for p by (cases p) simp_all
  then show ?thesis using bound down enabled thread by blast
qed

theorem calls_terminate_witness:
  "\<exists>sv c. server_reachable sample_inet_addr sv [c] \<and> call_pc c = Sending NTF \<and>
     (\<forall>E t c' sv'. StartFileTransfer_step E t c sv = Some (c', sv') \<longrightarrow> call_rank (call_pc c') < 12)"
proof -
  obtain sv c where s: "one_transfer sample_sock (inet_ntoa 0x0100007F) sample_server (Sending NTF) = (sv, [c])"
    "call_pc c = Sending NTF"
    by (simp add: one_transfer_def)
  then have r: "server_reachable sample_inet_addr sv [c]" using sample_runs by simp
  show ?thesis
    using calls_terminate [OF r list.set_intros(1)] r s(2) by (intro exI [of _ sv] exI [of _ c]) simp
qed

text \<open>C24: A call that an exception leaves keeps its entry in the map for ever: in every later state
  a new transfer to the same client is refused.\<close>

theorem failed_send_blocks_client:
  assumes "server_reachable inet_addr sv cs" "c \<in> set cs" "call_pc c = Threw e"
    and "reachable (\<lambda>s. s = (sv, cs)) (sys_step inet_addr) (sv', cs')"
    and "parse_uri uri = Some (call_ip c, port)"
  shows "\<exists>e'. StartFileTransfer_enter inet_addr fs uri p v d sv' = Inl e'"
proof -
  have "c \<in> set cs'" using reachable_threw [OF assms(4,2,3)] by simp
  moreover have "server_reachable inet_addr sv' cs'"
    using reachable_trans [OF assms(4,1)] .
  ultimately have "sv_active_transactions sv' (call_ip c) = Some (call_tran c)"
    using reachable_active [of inet_addr sv' cs'] assms(3) by auto
  then show ?thesis
    using enter_refused [OF _ assms(5)] by simp
qed

definition failing_senv :: senv where
  "failing_senv = sample_senv\<lparr>senv_sendto := - 1\<rparr>"

theorem failed_send_blocks_client_witness:
  "\<exists>sv c e e'. server_reachable sample_inet_addr sv [c] \<and> call_pc c = Threw e \<and>
     StartFileTransfer_enter sample_inet_addr sample_fs (inet_ntoa 0x0100007F @ '':4000'') ''file'' 1
       \<lparr>dev_id = 0\<rparr> sv = Inl e'"
proof -
  let ?ip = "inet_ntoa 0x0100007F"
  have "s_status sample_server = NTF" by simp
  then have keep: "sample_server\<lparr>s_status := NTF\<rparr> = sample_server" by (cases sample_server) simp
  obtain e where e: "send_keeping sample_sock failing_senv NTF sample_server = (sample_server, Some e)"
    by (auto simp: send_keeping_def server_SendMessage_def failing_senv_def sample_sock_def udp_Send_def
        Let_def keep)
  have "runs sample_inet_addr sample_sock ?ip sample_server (Threw e)"
    by (rule runs_call [OF sample_runs, where E = failing_senv and t = False])
      (use e in \<open>simp add: StartFileTransfer_step_def one_transfer_def set_tran_def\<close>)
  then have r: "server_reachable sample_inet_addr (fst (one_transfer sample_sock ?ip sample_server (Threw e)))
      [\<lparr>call_ip = ?ip, call_tran = 0, call_pc = Threw e\<rparr>]"
    by (simp add: one_transfer_def)
  have stay: "reachable (\<lambda>s. s = t) (sys_step sample_inet_addr) t" for t
    by (rule reachable.reachable_init) simp
  have "\<exists>e'. StartFileTransfer_enter sample_inet_addr sample_fs (?ip @ CHR '':'' # ''4000'') ''file'' 1
      \<lparr>dev_id = 0\<rparr> (fst (one_transfer sample_sock ?ip sample_server (Threw e))) = Inl e'"
    by (rule failed_send_blocks_client [OF r list.set_intros(1) _ stay]) (simp_all add: parse_uri_inet_ntoa)
  with r show ?thesis by fastforce
qed

text \<open>C25: No two calls for the same client are between entering the map and leaving it at once,
  and no two calls share a transaction.\<close>

theorem one_call_per_client:
  assumes "server_reachable inet_addr sv cs"
  shows "distinct (map call_ip (filter (\<lambda>c. owns (call_pc c)) cs)) \<and> distinct (map call_tran cs)"
proof -
  have tran: "distinct (map call_tran cs)" using reachable_distinct [OF assms] .
  have "inj_on call_ip (set (filter (\<lambda>c. owns (call_pc c)) cs))"
  proof (rule inj_onI)
    fix c c' assume c: "c \<in> set (filter (\<lambda>c. owns (call_pc c)) cs)" "c' \<in> set (filter (\<lambda>c. owns (call_pc c)) cs)"
      "call_ip c = call_ip c'"
    then have "sv_active_transactions sv (call_ip c) = Some (call_tran c)"
      "sv_active_transactions sv (call_ip c) = Some (call_tran c')"
      unfolding reachable_active [OF assms] by auto
    then show "c = c'" using same_call [OF tran] c(1,2) by auto
  qed
  moreover have "distinct cs" using tran by (simp add: distinct_map)
  ultimately show ?thesis using tran by (simp add: distinct_map)
qed

theorem one_call_per_client_witness:
  "\<exists>sv c. server_reachable sample_inet_addr sv [c] \<and> owns (call_pc c) \<and>
     distinct (map call_ip (filter (\<lambda>c. owns (call_pc c)) [c]))"
proof -
  obtain sv c where "one_transfer sample_sock (inet_ntoa 0x0100007F) sample_server (Sending NTF) = (sv, [c])"
    "call_pc c = Sending NTF"
    by (simp add: one_transfer_def)
  moreover from this have "server_reachable sample_inet_addr sv [c]"
    using sample_runs by simp
  ultimately show ?thesis
    using one_call_per_client [of sample_inet_addr sv "[c]"] by (intro exI [of _ sv] exI [of _ c]) simp
qed

section \<open>Routing\<close>

text \<open>C26: A received datagram reaches the transaction of a call exactly when the call has an entry
  and was started for the dotted address of the sender; then that transaction handles it,
  and no other transaction changes.\<close>

theorem datagrams_reach_their_call:
  assumes "server_reachable inet_addr sv cs" "c \<in> set cs"
    and "server_main_body (Recv_Datagram src bs) m a sv = Inr sv'"
  shows "sv_heap sv' ! call_tran c =
    (if call_ip c = inet_ntoa (s_addr src) \<and> owns (call_pc c)
     then server_OnReceive (recv_into m bs) (recv_len bs) src (sv_heap sv ! call_tran c)
     else sv_heap sv ! call_tran c)"
proof -
  have ne: "bs \<noteq> []" using assms(3) by (auto simp: server_main_body_def udp_Receive_def)
  then have sv': "sv_heap sv' = sv_heap (server_route (recv_len bs) (recv_into m bs) src sv)"
    using assms(3) by (auto simp: server_main_body_def udp_Receive_datagram)
  show ?thesis
  proof (cases "call_ip c = inet_ntoa (s_addr src) \<and> owns (call_pc c)")
    case True
    then have "sv_active_transactions sv (inet_ntoa (s_addr src)) = Some (call_tran c)"
      using reachable_active [OF assms(1)] assms(2) by auto
    then show ?thesis
      using True sv' recv_len_pos [OF ne] reachable_call(1) [OF assms(1,2)] by (simp add: server_route_def)
  next
    case False
    have "sv_active_transactions sv (inet_ntoa (s_addr src)) \<noteq> Some (call_tran c)"
    proof
      assume "sv_active_transactions sv (inet_ntoa (s_addr src)) = Some (call_tran c)"
      then obtain c' where "c' \<in> set cs" "call_ip c' = inet_ntoa (s_addr src)" "call_tran c' = call_tran c"
        "owns (call_pc c')"
        using reachable_active [OF assms(1)] by auto
      then show False
        using False same_call [OF reachable_distinct [OF assms(1)]] assms(2) by metis
    qed
    then have "sv_heap sv' ! call_tran c = sv_heap sv ! call_tran c"
      using sv' server_route_other by simp
    then show ?thesis by (simp only: if_not_P [OF False])
  qed
qed

theorem datagrams_reach_their_call_witness:
  "let sv = fst (one_transfer sample_sock (inet_ntoa 0x0100007F) sample_server (Sending NTF))
   in \<exists>sv'. server_main_body (Recv_Datagram sample_addr [1]) junk sample_addr sv = Inr sv' \<and>
        sv_heap sv' ! 0 = server_OnReceive (recv_into junk [1]) (recv_len [1]) sample_addr sample_server"
proof -
  let ?o = "one_transfer sample_sock (inet_ntoa 0x0100007F) sample_server (Sending NTF)"
  let ?c = "\<lparr>call_ip = inet_ntoa 0x0100007F, call_tran = 0, call_pc = Sending NTF\<rparr>"
  obtain sv' where sv': "server_main_body (Recv_Datagram sample_addr [1]) junk sample_addr (fst ?o) = Inr sv'"
    by (simp add: server_main_body_def udp_Receive_datagram)
  have "server_reachable sample_inet_addr (fst ?o) [?c]"
    using sample_runs by (simp add: one_transfer_def)
  from datagrams_reach_their_call [OF this _ sv', of ?c] show ?thesis
    using sv' by (simp add: sample_addr_def) (simp add: one_transfer_def)
qed

text \<open>C27: A call whose key is not the dotted spelling of any address (a host name, leading zeros)
  never learns of an answer: it sends a notification or a cancellation only and returns
  \<open>NTF\<close> or \<open>CXL\<close>, whatever the client does.\<close>

theorem noncanonical_address_never_answers:
  assumes "server_reachable inet_addr sv cs" "c \<in> set cs" "\<forall>a. call_ip c \<noteq> inet_ntoa a"
  shows "s_status (sv_heap sv ! call_tran c) \<in> {NTF, CXL} \<and>
    (\<forall>i. call_pc c = Sending i \<longrightarrow> i \<in> {NTF, CXL}) \<and> (\<forall>s. call_pc c = Finished s \<longrightarrow> s \<in> {NTF, CXL})"
  using reachable_unanswered [OF assms(1,2)] assms(3)
  by (auto simp: unanswered_def mute_def)

theorem noncanonical_address_never_answers_witness:
  "\<exists>sv c. server_reachable sample_inet_addr sv [c] \<and> call_ip c = ''localhost'' \<and>
     call_pc c = Sending NTF \<and> s_status (sv_heap sv ! call_tran c) \<in> {NTF, CXL}"
proof -
  have mute: "\<forall>a. ''localhost'' \<noteq> inet_ntoa a"
  proof (intro allI notI)
    fix a assume "''localhost'' = inet_ntoa a"
    then have "CHR ''l'' \<in> set (inet_ntoa a)" by (metis list.set_intros(1))
    then show False by (auto dest: inet_ntoa_chars simp: is_digit_def)
  qed
  have "runs sample_inet_addr sample_sock ''localhost'' sample_server (Sending NTF)"
    by (rule runs_start [where uri = "''localhost'' @ CHR '':'' # decimal 4000" and port = "decimal 4000" and n = 4000
          and d = "\<lparr>dev_id = 0\<rparr>" and p = "''file''" and v = 1 and fs = sample_fs])
      (use sample_server_new in \<open>simp_all add: stoi_decimal INET_ADDRSTRLEN_def sample_inet_addr_def
        sample_addr_def parse_uri_append [of "''localhost''", simplified]\<close>)
  then have r: "server_reachable sample_inet_addr (fst (one_transfer sample_sock ''localhost'' sample_server (Sending NTF)))
      [\<lparr>call_ip = ''localhost'', call_tran = 0, call_pc = Sending NTF\<rparr>]" (is "server_reachable _ ?sv [?c]")
    by (simp add: one_transfer_def)
  show ?thesis
    using noncanonical_address_never_answers [OF r, of ?c] mute r
    by (intro exI [of _ ?sv] exI [of _ ?c]) simp
qed

section \<open>Lost answers\<close>

text \<open>C28: The status that \<^verbatim>\<open>WaitForStatus\<close> waits to change is loaded after the message has been
  sent. A client whose \<open>CHK\<close> arrives before that is not noticed: the call waits for a status
  other than \<open>CHK\<close>, blocked while it stays, and at the time-out it takes the client for absent.\<close>

theorem early_answer_is_missed:
  assumes "server_reachable inet_addr sv cs" "k < length cs" "call_pc (cs ! k) = Loading NTF"
    and "s_status (sv_heap sv ! call_tran (cs ! k)) = CHK"
  shows "server_reachable inet_addr sv (cs[k := (cs ! k)\<lparr>call_pc := Waiting NTF CHK\<rparr>]) \<and>
    (\<forall>E. StartFileTransfer_step E False ((cs ! k)\<lparr>call_pc := Waiting NTF CHK\<rparr>) sv = None) \<and>
    server_reachable inet_addr sv (cs[k := (cs ! k)\<lparr>call_pc := Erasing NTF\<rparr>])"
proof -
  let ?c = "(cs ! k)\<lparr>call_pc := Waiting NTF CHK\<rparr>"
  note lost = lost_answer [OF assms(3,4)]
  have 1: "server_reachable inet_addr sv (cs[k := ?c])"
    using reachable.reachable_step [OF assms(1) sys_step.call [OF assms(2) lost(1)]] .
  have "StartFileTransfer_step E True (cs[k := ?c] ! k) sv = Some ((cs ! k)\<lparr>call_pc := Erasing NTF\<rparr>, sv)" for E
    using lost(3) assms(2) by (simp add: after_wait_def)
  from reachable.reachable_step [OF 1 sys_step.call [OF _ this]] assms(2)
  have "server_reachable inet_addr sv (cs[k := (cs ! k)\<lparr>call_pc := Erasing NTF\<rparr>])" by simp
  with 1 lost(2) show ?thesis by simp
qed

theorem early_answer_is_missed_witness:
  "\<exists>sv c. server_reachable sample_inet_addr sv [c\<lparr>call_pc := Erasing NTF\<rparr>] \<and>
     s_status (sv_heap sv ! call_tran c) = CHK"
proof -
  let ?ip = "inet_ntoa (s_addr sample_addr)"
  have ip: "inet_ntoa 0x0100007F = ?ip" by (simp add: sample_addr_def)
  obtain st1 where st1: "server_SendMessage sample_sock sample_senv NTF sample_server = Inr st1"
    "s_status st1 = NTF"
    using server_SendMessage_ok [OF _ sends_sample, of NTF sample_server] by auto
  let ?st = "server_OnReceive (recv_into junk (client_image CHK junk sample_client))
    (recv_len (client_image CHK junk sample_client)) sample_addr st1"
  have "client_image CHK junk sample_client \<noteq> []"
    using recv_len_client_image [OF wf_junk, of CHK sample_client] by (auto simp: recv_len_def)
  from runs_receive [OF runs_send [OF sample_runs [unfolded ip] st1(1), unfolded after_send_def, simplified] this]
  have r: "runs sample_inet_addr sample_sock ?ip ?st (Loading NTF)" .
  have st: "s_status ?st = CHK"
    using server_gets_CHK [OF wf_junk wf_junk st1(2), of sample_client sample_addr] by auto
  obtain sv c where s: "one_transfer sample_sock ?ip ?st (Loading NTF) = (sv, [c])"
    "sv_heap sv = [?st]" "call_tran c = 0" "call_pc c = Loading NTF"
    by (simp add: one_transfer_def)
  then show ?thesis
    using early_answer_is_missed [of sample_inet_addr sv "[c]" 0] r st
    by (intro exI [of _ sv] exI [of _ c]) simp
qed

section \<open>Waiting, statement by statement\<close>

text \<open>C11: \<^verbatim>\<open>WaitForStatus\<close> with the loop of \<^verbatim>\<open>wait_for\<close>, its spurious wake-ups, time-outs and
  lost notifications, the receiver thread, the sending thread and \<^verbatim>\<open>AbortFileTransfer\<close> in
  between, refines the two atomic steps by which the model of a call waits: every step of it
  is a load, a poll that answers, a step of another thread, or none of these.\<close>

theorem wait_refines_poll:
  assumes "server_reachable inet_addr sv cs" "c \<in> set cs"
    and "reachable (wait_init (sv_heap sv ! call_tran c)) wait_step w" "wait_step w w'"
  shows "poll_of w' = poll_of w \<or> poll_step (poll_of w) (poll_of w')"
proof -
  have "tran_inv (sv_heap sv ! call_tran c)" by (rule reachable_call(3) [OF assms(1,2)])
  then have start: "wait_inv x" if "wait_init (sv_heap sv ! call_tran c) x" for x
    using waiting.inv_init that by blast
  have "wait_inv w" using assms(3)
    by induction (auto intro: start waiting.inv_step)
  then show ?thesis by (rule wait_step_refines [OF assms(4)])
qed

theorem wait_refines_poll_witness:
  "\<exists>w w'. reachable (wait_init sample_server) wait_step w \<and> w_pc w' = Wait_Test NTF \<and>
     poll_step (poll_of w) (poll_of w')"
proof -
  let ?w = "\<lparr>w_tran = sample_server, w_pc = Wait_Load, w_notify = 0\<rparr>"
  let ?w' = "\<lparr>w_tran = sample_server, w_pc = Wait_Test NTF, w_notify = 0\<rparr>"
  obtain sv c where s: "one_transfer sample_sock (inet_ntoa 0x0100007F) sample_server (Sending NTF) = (sv, [c])"
    "sv_heap sv ! call_tran c = sample_server"
    by (simp add: one_transfer_def)
  have r: "server_reachable sample_inet_addr sv [c]" using sample_runs s(1) by simp
  have w: "reachable (wait_init sample_server) wait_step ?w"
    by (rule reachable.reachable_init) (simp add: wait_init_def)
  have step: "wait_step ?w ?w'" by (rule wait_step.own) (simp add: wait_own_def)
  have "poll_of ?w' = poll_of ?w \<or> poll_step (poll_of ?w) (poll_of ?w')"
    by (rule wait_refines_poll [OF r list.set_intros(1) _ step]) (simp add: s(2) w)
  then have "poll_step (poll_of ?w) (poll_of ?w')" by (simp add: poll_of_def)
  with w show ?thesis by (intro exI [of _ ?w] exI [of _ ?w'] conjI) simp_all
qed

text \<open>C15: The threads that change the status notify without holding the mutex, so a wake-up can be
  lost: for every change of status by another thread there is an execution in which it falls
  between the test of the predicate and the blocking of the waiting thread. That thread then
  blocks although the status has changed and no notification is on its way, and while the status
  stays as it is only its time or a spurious wake-up gets it going (for \<open>DONE\<close>, after five minutes).\<close>

theorem wake_up_is_lost:
  assumes "other_thread st st'" "s_status st' \<noteq> s_status st"
  shows "\<exists>w. reachable (wait_init st) wait_step w \<and> w_tran w = st' \<and>
    w_pc w = Wait_Blocked (s_status st) \<and> w_notify w = 0 \<and>
    (\<forall>w'. wait_step w w' \<longrightarrow> s_status (w_tran w') = s_status st' \<longrightarrow>
       w_pc w' = Wait_Blocked (s_status st) \<and> w_notify w' = 0 \<or>
       w' = w\<lparr>w_pc := Wait_Final (s_status st)\<rparr> \<or> w' = w\<lparr>w_pc := Wait_Test (s_status st)\<rparr>)"
proof (intro exI conjI allI impI)
  let ?w = "\<lparr>w_tran = st', w_pc = Wait_Blocked (s_status st), w_notify = 0\<rparr>"
  show "reachable (wait_init st) wait_step ?w" by (rule late_answer [OF assms])
  show "w_pc w' = Wait_Blocked (s_status st) \<and> w_notify w' = 0 \<or>
      w' = ?w\<lparr>w_pc := Wait_Final (s_status st)\<rparr> \<or> w' = ?w\<lparr>w_pc := Wait_Test (s_status st)\<rparr>"
    if "wait_step ?w w'" "s_status (w_tran w') = s_status st'" for w'
    using blocked_steps [OF that(1), of "s_status st"] that(2) by simp
qed simp_all

theorem wake_up_is_lost_witness:
  "\<exists>w. reachable (wait_init sample_server) wait_step w \<and> s_status (w_tran w) = CHK \<and> w_pc w = Wait_Blocked NTF"
proof -
  let ?m = "recv_into junk (client_image CHK junk sample_client)"
  let ?n = "recv_len (client_image CHK junk sample_client)"
  have st: "s_status (server_OnReceive ?m ?n sample_addr sample_server) = CHK"
    using server_gets_CHK [OF wf_junk wf_junk sample_server_fresh(2), of sample_client sample_addr] by auto
  then have "s_status (server_OnReceive ?m ?n sample_addr sample_server) \<noteq> s_status sample_server" by simp
  from wake_up_is_lost [OF other_thread.receives this] show ?thesis
    using st sample_server_fresh(2) by metis
qed

end
