(* ===== verification/Recovery_Properties.thy ===== *)
theory Recovery_Properties
  imports Recovery Long_Sample
begin

text \<open>
  Which losses the protocol recovers from, which it does not, and what a client does that
  misses the last message.
\<close>

text \<open>C6: Every finite number of losses \<open>ls\<close> that the protocol notices is made good: packets other
  than the first one, lost in bursts in which a later packet arrives and which stop before the
  last packet, the same packet as often as the channel likes. There are numbers of steps of the
  sending thread, at most six per packet in every round, with which the rounds that lose the
  packets of \<open>ls\<close>, and one that loses nothing, end the transfer as one over a perfect channel
  does. In them the server sends exactly the packets of \<^term>\<open>psns_with_losses\<close>, in this order: for
  each loss \<open>(k, m)\<close> the packets up to \<open>m\<close>, then again from packet \<open>k\<close> on; and the client asks
  for exactly the packets of \<^term>\<open>requests_for\<close>: for packet \<open>k\<close> once for each packet of the burst
  that arrives after it.\<close>

theorem noticed_losses_are_recovered:
  assumes "good_link L" "prepared bs L st" "transferable bs" "0 \<le> fd (c_udp_socket ct)"
    and "tmp_readable (temp_file (env_tmp (l_env L))) (c_files ct)"
    and "noticed (packets_of bs) 0 ls"
  shows "\<exists>rs n st' ct'. map snd rs = map (\<lambda>l. {fst l}) ls \<and>
    (\<forall>r \<in> set rs. fst r \<le> 6 * packets_of bs) \<and> n \<le> 6 * packets_of bs + 1 \<and>
    lossy_session L cb rs n st ct = Inr (st', ct') \<and> s_status st' = FIN \<and> s_thr st' = Returned \<and>
    sent_psns (s_wire st') = sent_psns (s_wire st) @ psns_with_losses (packets_of bs) 0 ls \<and>
    requested_psns (c_wire ct') = requested_psns (c_wire ct) @ requests_for ls \<and>
    c_status ct' = DONE \<and> c_new_file_version ct' = s_new_file_version st \<and>
    (\<exists>f. c_files ct' (c_new_file_path ct') = Some f \<and> content f = bs)"
  using lossy_session_result [OF assms, of cb] unfolding acknowledged_def by blast

theorem noticed_losses_are_recovered_witness:
  "\<exists>rs n st' ct'. map snd rs = [{1}, {1}] \<and>
     lossy_session long_link None rs n long_server sample_client = Inr (st', ct') \<and> s_status st' = FIN \<and>
     sent_psns (s_wire st') = [0, 1, 2, 1, 2, 1, 2, 3] \<and> requested_psns (c_wire ct') = [1, 1] \<and>
     (\<exists>f. c_files ct' (c_new_file_path ct') = Some f \<and> content f = long_file)"
proof -
  have "noticed (packets_of long_file) 0 [(1, 3), (1, 3)]" by simp
  from noticed_losses_are_recovered [OF good_long_link prepared_long long_simps(3) long_client_ready this, of None]
  show ?thesis
    by (simp only: list.map fst_conv long_wires long_simps(2) append_Nil One_nat_def long_losses
        sent_psns_Nil requested_psns_Nil)
      (elim exE conjE, intro exI conjI, assumption+)
qed

text \<open>C13: A lost first packet is not made good: the client answers the second one by \<open>CXL\<close> and drops
  out of the transfer, and the server's transaction takes the cancellation.\<close>

theorem lost_first_packet_cancels:
  assumes "good_link L" "prepared bs L st" "transferable bs" "0 \<le> fd (c_udp_socket ct)"
    and "tmp_readable (temp_file (env_tmp (l_env L))) (c_files ct)"
  shows "\<exists>n st' ct'. n \<le> 12 \<and> lossy_transfer L cb [(n, {0})] st ct = Inr (st', ct') \<and>
    c_status ct' = CXL \<and> \<not> client_IsAlive ct' \<and> s_status st' = CXL"
proof -
  obtain st1 ct1 where "\<And>rs. lossy_transfer L cb rs st ct = lossy_rounds L cb rs (st1, ct1)"
    "at_packet bs st 0 (st1, ct1)"
    using transfer_begins [OF assms, of cb] by blast
  then show ?thesis
    using first_loss_result [OF assms(1,3), of st st1 ct1 cb] by auto
qed

theorem lost_first_packet_cancels_witness:
  "\<exists>n st' ct'. lossy_transfer long_link None [(n, {0})] long_server sample_client = Inr (st', ct') \<and>
     c_status ct' = CXL \<and> s_status st' = CXL"
  using lost_first_packet_cancels [OF good_long_link prepared_long _ long_client_ready, of None] by auto

text \<open>C12: Nor is a lost last packet but one, although the client asks for it: a request taken in the
  second after the last packet makes the thread send the last packet again, which makes the
  client ask again. After any number of further rounds, in which nothing is lost any more, the
  server is still in that second and the client still waits for the same packet.\<close>

theorem lost_penultimate_packet_repeats:
  assumes "good_link L" "prepared bs L st" "transferable bs" "0 \<le> fd (c_udp_socket ct)"
    and "tmp_readable (temp_file (env_tmp (l_env L))) (c_files ct)"
    and "2 < packets_of bs"
  shows "\<exists>n \<le> 6 * packets_of bs. \<forall>N. \<exists>st' ct'.
    lossy_transfer L cb ((n, {packets_of bs - 2}) # replicate N (6, {})) st ct = Inr (st', ct') \<and>
    s_status st' = DATA \<and> s_thr st' = Tail_Wait \<and> c_status ct' = DATA \<and>
    unat (c_packet_sequence_number ct') = packets_of bs - 2"
proof -
  obtain st1 ct1 where starts: "\<And>rs. lossy_transfer L cb rs st ct = lossy_rounds L cb rs (st1, ct1)"
    and at: "at_packet bs st 0 (st1, ct1)"
    using transfer_begins [OF assms(1-5), of cb] by blast
  obtain n s where n: "n \<le> 6 * packets_of bs" "lossy_round L cb (n, {packets_of bs - 2}) (st1, ct1) = Inr s"
    and stuck: "tail_stuck bs s"
    using tail_loss_result [OF assms(1,3) at _ assms(6)] by blast
  show ?thesis
  proof (intro exI [of _ n] conjI n(1) allI)
    fix N
    obtain s' where "lossy_rounds L cb (replicate N (6, {})) s = Inr s'" "tail_stuck bs s'"
      using tail_forever [OF assms(1,3) stuck, of cb N] by blast
    then show "\<exists>st' ct'.
        lossy_transfer L cb ((n, {packets_of bs - 2}) # replicate N (6, {})) st ct = Inr (st', ct') \<and>
        s_status st' = DATA \<and> s_thr st' = Tail_Wait \<and> c_status ct' = DATA \<and>
        unat (c_packet_sequence_number ct') = packets_of bs - 2"
      using tail_stuck_fields [of bs "fst s'" "snd s'"]
      by (intro exI [of _ "fst s'"] exI [of _ "snd s'"]) (simp add: starts n(2))
  qed
qed

theorem lost_penultimate_packet_repeats_witness:
  "\<exists>n. \<exists>st' ct'. lossy_transfer long_link None ((n, {2}) # replicate 9 (6, {})) long_server sample_client =
     Inr (st', ct') \<and> s_thr st' = Tail_Wait \<and> unat (c_packet_sequence_number ct') = 2"
proof -
  have "2 < packets_of long_file" by simp
  from lost_penultimate_packet_repeats [OF good_long_link prepared_long _ long_client_ready this, of None]
  show ?thesis by simp blast
qed

section \<open>The end of a transfer\<close>

text \<open>C32: \<open>FIN\<close> is sent once, and a client that does not get it gives the file up: after a transfer
  that the server has ended with \<open>FIN\<close>, a time-out of the client, or a signal that interrupts
  its \<^verbatim>\<open>recvfrom\<close>, cancels. The file handler is not called; the next \<^verbatim>\<open>Begin\<close> does not wait.\<close>

theorem lost_FIN_cancels_client:
  assumes "good_link L" "prepared bs L st" "transferable bs" "0 \<le> fd (c_udp_socket ct)"
    and "tmp_readable (temp_file (env_tmp (l_env L))) (c_files ct)"
    and "errno \<in> {EAGAIN, EWOULDBLOCK, EINTR}" "good_env E"
  shows "\<exists>n st' ct' ct''. session L cb n st ct = Inr (st', ct') \<and> s_status st' = FIN \<and>
    client_loop_body cb E (Recv_Failed errno) m a ct' = Inr ct'' \<and>
    c_status ct'' = CXL \<and> \<not> client_IsAlive ct'' \<and> join_returns ct'' \<and> c_files ct'' = c_files ct' \<and>
    (\<exists>f. c_files ct' (c_new_file_path ct') = Some f \<and> content f = bs)"
proof -
  obtain n st' ct' where s: "session L cb n st ct = Inr (st', ct')" "s_status st' = FIN" "acknowledged bs st ct'"
    using session_result [OF assms(1-5), of cb] by blast
  moreover from this(3) obtain ct'' where "client_loop_body cb E (Recv_Failed errno) m a ct' = Inr ct''"
    "c_status ct'' = CXL" "\<not> client_IsAlive ct''" "join_returns ct''" "c_files ct'' = c_files ct'"
    using client_timeout [OF assms(6), of E ct' cb m a] assms(7)
    by (auto simp: acknowledged_def good_env_def)
  ultimately show ?thesis
    unfolding acknowledged_def by blast
qed

theorem lost_FIN_cancels_client_witness:
  "\<exists>n st' ct' ct''. session long_link None n long_server sample_client = Inr (st', ct') \<and> s_status st' = FIN \<and>
     client_loop_body None sample_env (Recv_Failed EAGAIN) junk sample_addr ct' = Inr ct'' \<and> c_status ct'' = CXL"
  using lost_FIN_cancels_client [OF good_long_link prepared_long long_simps(3) long_client_ready _ good_sample_env,
      of EAGAIN None junk sample_addr]
  by blast

end
