(* ===== verification/Network.thy ===== *)
theory Network
  imports Replies
begin

text \<open>
  A whole server and a whole client over one network: the callers, the receiver thread and the
  sending threads of \<^term>\<open>sys_step\<close>, the threads and the caller of \<^term>\<open>main_step\<close>. The
  network may lose, repeat, reorder and delay datagrams, report any address as their origin and
  damage them as far as the integrity check notices. What one side receives has been sent by
  the other. Shown here: every message of the server was built for one of its transactions,
  every \<^verbatim>\<open>DONE\<close> of the client tells of a file it had verified, so a call that returns \<open>FIN\<close>
  tells the same.
\<close>

section \<open>The composed system\<close>

record network =
  net_sv :: Server
  net_calls :: "start_call list"
  net_client :: Client

abbreviation net_tran :: "network \<Rightarrow> ClientTransaction" where
  "net_tran n \<equiv> cl_transaction (net_client n)"

definition server_sent :: "network \<Rightarrow> byte list set" where
  "server_sent n = (\<Union>st \<in> set (sv_heap (net_sv n)). snd ` set (s_wire st))"

definition client_sent :: "network \<Rightarrow> byte list set" where
  "client_sent n = snd ` set (c_wire (net_tran n))"

text \<open>What a socket may report: nothing, a datagram that was sent, or one that does not pass
  the integrity check once it is in the receive buffer \<open>m\<close>.\<close>

fun carries :: "byte list set \<Rightarrow> (TrftpMessage \<Rightarrow> nat \<Rightarrow> bool) \<Rightarrow> recv_event \<Rightarrow> TrftpMessage \<Rightarrow> bool" where
  "carries sent check (Recv_Failed errno) m = True"
| "carries sent check (Recv_Datagram addr bs) m =
     (wf_message m \<and> (bs \<in> sent \<or> \<not> check (recv_into m bs) (recv_len bs)))"

text \<open>\<open>Q\<close> restricts the file systems the server meets when it looks at a path. The buffers are
  of the size of a message.\<close>

inductive net_step :: "(string \<Rightarrow> u32) \<Rightarrow> (path \<Rightarrow> filesystem \<Rightarrow> bool) \<Rightarrow> network \<Rightarrow> network \<Rightarrow> bool"
  for inet_addr :: "string \<Rightarrow> u32" and Q :: "path \<Rightarrow> filesystem \<Rightarrow> bool" where
  server_start:
    "StartFileTransfer_enter inet_addr fs uri p v d (net_sv n) = Inr (c, sv) \<Longrightarrow> Q p fs \<Longrightarrow>
     net_step inet_addr Q n (n\<lparr>net_sv := sv, net_calls := net_calls n @ [c]\<rparr>)"
| server_call:
    "k < length (net_calls n) \<Longrightarrow>
     StartFileTransfer_step E timed_out (net_calls n ! k) (net_sv n) = Some (c, sv) \<Longrightarrow>
     wf_message (senv_stack E) \<Longrightarrow>
     net_step inet_addr Q n (n\<lparr>net_sv := sv, net_calls := (net_calls n)[k := c]\<rparr>)"
| server_abort:
    "AbortFileTransfer E ip (net_sv n) = (sv, r) \<Longrightarrow> wf_message (senv_stack E) \<Longrightarrow>
     net_step inet_addr Q n (n\<lparr>net_sv := sv\<rparr>)"
| server_stop: "net_step inet_addr Q n (n\<lparr>net_sv := Server_stop (net_sv n)\<rparr>)"
| server_test:
    "sv_thread (net_sv n) = Server_Test \<Longrightarrow>
     net_step inet_addr Q n (n\<lparr>net_sv := server_main_test (net_sv n)\<rparr>)"
| server_receives:
    "sv_thread (net_sv n) = Server_Receiving \<Longrightarrow> server_main_body ev m a (net_sv n) = Inr sv \<Longrightarrow>
     carries (client_sent n) server_ValidateMessageIntegrity ev m \<Longrightarrow>
     net_step inet_addr Q n (n\<lparr>net_sv := sv\<rparr>)"
| server_sends:
    "k < length (sv_heap (net_sv n)) \<Longrightarrow> st = sv_heap (net_sv n) ! k \<Longrightarrow>
     sender_step (sv_udp_socket (net_sv n)) E st = Inr st' \<Longrightarrow>
     wf_message (senv_stack E) \<Longrightarrow> Q (s_file_path st) (senv_files E) \<Longrightarrow>
     net_step inet_addr Q n (n\<lparr>net_sv := set_tran k st' (net_sv n)\<rparr>)"
| client_test:
    "cl_thread (net_client n) = Main_Test \<Longrightarrow>
     net_step inet_addr Q n (n\<lparr>net_client := client_main_test (net_client n)\<rparr>)"
| client_receives:
    "cl_thread (net_client n) = Main_Receiving \<Longrightarrow>
     client_main_body E ev m a (net_client n) = Inr cl \<Longrightarrow>
     carries (server_sent n) client_ValidateMessageIntegrity ev m \<Longrightarrow> wf_message (env_stack E) \<Longrightarrow>
     net_step inet_addr Q n (n\<lparr>net_client := cl\<rparr>)"
| client_joined:
    "cl_thread (net_client n) = Main_Joining msg len addr \<Longrightarrow> join_returns (net_tran n) \<Longrightarrow>
     client_main_joined E msg len addr (net_client n) = Inr cl \<Longrightarrow> wf_message (env_stack E) \<Longrightarrow>
     net_step inet_addr Q n (n\<lparr>net_client := cl\<rparr>)"
| tran_test:
    "c_thread (net_tran n) = Loop_Test \<Longrightarrow>
     net_step inet_addr Q n
       (n\<lparr>net_client := (net_client n)\<lparr>cl_transaction := client_loop_test (net_tran n)\<rparr>\<rparr>)"
| tran_receives:
    "c_thread (net_tran n) = Receiving \<Longrightarrow>
     client_loop_body (Some (OnFileReceived (net_client n))) E ev m a (net_tran n) = Inr ct \<Longrightarrow>
     carries (server_sent n) client_ValidateMessageIntegrity ev m \<Longrightarrow> wf_message (env_stack E) \<Longrightarrow>
     net_step inet_addr Q n (n\<lparr>net_client := (net_client n)\<lparr>cl_transaction := ct\<rparr>\<rparr>)"
| client_caller:
    "cl = AttachFileHandler h (net_client n) \<or> cl = DetachFileHandler (net_client n) \<or>
     cl = Client_stop (net_client n) \<Longrightarrow>
     net_step inet_addr Q n (n\<lparr>net_client := cl\<rparr>)"

definition net_init :: "network \<Rightarrow> bool" where
  "net_init n \<longleftrightarrow> (\<exists>ssock tmp sock tsock v fs. n =
     \<lparr>net_sv = Server_new ssock DefaultServerTransactionFactory_CreateTransaction, net_calls = [],
      net_client = Client_new tmp sock tsock v fs []\<rparr>)"

abbreviation net_reachable ::
  "(string \<Rightarrow> u32) \<Rightarrow> (path \<Rightarrow> filesystem \<Rightarrow> bool) \<Rightarrow> network \<Rightarrow> bool" where
  "net_reachable inet_addr Q \<equiv> reachable net_init (net_step inet_addr Q)"

section \<open>Its components\<close>

text \<open>A step of the network is a step of the server or of the client, and leaves the other
  alone.\<close>

definition net_server :: "network \<Rightarrow> server_sys" where
  "net_server n = (net_sv n, net_calls n)"

lemma net_step_parts:
  assumes "net_step inet_addr Q n n'"
  shows "sys_step inet_addr (net_server n) (net_server n') \<and> net_client n' = net_client n \<or>
    main_step (net_client n) (net_client n') \<and> net_server n' = net_server n"
  using assms
proof cases
  case (client_caller cl h)
  then show ?thesis
    by (auto simp: net_server_def intro: main_step.intros)
qed (auto simp: net_server_def intro: sys_step.intros main_step.intros)

lemma net_init_parts:
  assumes "net_init n"
  shows "sys_init DefaultServerTransactionFactory_CreateTransaction (net_server n)" "main_init (net_client n)"
  using assms unfolding net_init_def sys_init_def main_init_def net_server_def by fastforce+

lemma net_reachable_parts:
  assumes "net_reachable inet_addr Q n"
  shows "server_reachable inet_addr (net_sv n) (net_calls n)"
    and "reachable main_init main_step (net_client n)"
proof -
  have "reachable (sys_init DefaultServerTransactionFactory_CreateTransaction) (sys_step inet_addr) (net_server n) \<and>
    reachable main_init main_step (net_client n)"
    using assms
  proof induction
    case (reachable_init n)
    then show ?case using net_init_parts by (blast intro: reachable.reachable_init)
  next
    case (reachable_step n n')
    then show ?case
      using net_step_parts [OF reachable_step(2)] by (metis reachable.reachable_step)
  qed
  then show "server_reachable inet_addr (net_sv n) (net_calls n)"
    "reachable main_init main_step (net_client n)"
    by (simp_all add: net_server_def)
qed

section \<open>History\<close>

definition earlier ::
  "(string \<Rightarrow> u32) \<Rightarrow> (path \<Rightarrow> filesystem \<Rightarrow> bool) \<Rightarrow> (network \<Rightarrow> bool) \<Rightarrow> network \<Rightarrow> bool" where
  "earlier inet_addr Q P n \<longleftrightarrow>
     (\<exists>n0. net_reachable inet_addr Q n0 \<and> P n0 \<and> reachable (\<lambda>x. x = n0) (net_step inet_addr Q) n)"

lemma earlier_now: "net_reachable inet_addr Q n \<Longrightarrow> P n \<Longrightarrow> earlier inet_addr Q P n"
  unfolding earlier_def by (blast intro: reachable.reachable_init)

lemma earlier_step: "earlier inet_addr Q P n \<Longrightarrow> net_step inet_addr Q n n' \<Longrightarrow> earlier inet_addr Q P n'"
  unfolding earlier_def by (blast intro: reachable.reachable_step)

lemma earlier_mono: "earlier inet_addr Q P n \<Longrightarrow> (\<And>n0. net_reachable inet_addr Q n0 \<Longrightarrow> P n0 \<Longrightarrow> R n0) \<Longrightarrow> earlier inet_addr Q R n"
  unfolding earlier_def by blast

text \<open>The client is about to have its file taken: it has acknowledged a file with this version,
  and the file on its disk has this size and this checksum.\<close>

definition verified :: "u32 \<Rightarrow> u32 \<Rightarrow> u32 \<Rightarrow> network \<Rightarrow> bool" where
  "verified v sz crc n \<longleftrightarrow> c_status (net_tran n) = DONE \<and> c_new_file_version (net_tran n) = v \<and>
     fs_file_size (c_new_file_path (net_tran n)) (c_files (net_tran n)) = Inr (unat sz) \<and>
     CalculateFileCrc32 (c_new_file_path (net_tran n)) (c_files (net_tran n)) = crc"

lemma verified_now:
  assumes "net_reachable inet_addr Q n" "c_status (net_tran n) = DONE" "same_file x (net_tran n)"
  shows "earlier inet_addr Q (verified (c_new_file_version x) (c_new_file_size x) (c_new_file_crc32 x)) n"
proof (rule earlier_now [OF assms(1)])
  have "client_inv (net_tran n)"
    using client_main.reachable_inv [OF net_reachable_parts(2) [OF assms(1)]] by (rule main_inv_transaction)
  then show "verified (c_new_file_version x) (c_new_file_size x) (c_new_file_crc32 x) n"
    using assms(2,3) by (simp add: verified_def client_inv_def client_file_complete_def same_file_def)
qed

section \<open>What the client has sent\<close>

text \<open>One of its five messages, and a \<^verbatim>\<open>DONE\<close> tells of a verified file.\<close>

definition truthful :: "(string \<Rightarrow> u32) \<Rightarrow> (path \<Rightarrow> filesystem \<Rightarrow> bool) \<Rightarrow> network \<Rightarrow> byte list \<Rightarrow> bool" where
  "truthful inet_addr Q n bs \<longleftrightarrow>
     (\<exists>i \<in> {CHK, RDY, RTX, DONE, CXL}. \<exists>m x. wf_message m \<and> bs = client_image i m x \<and>
        (i = DONE \<longrightarrow> earlier inet_addr Q
           (verified (c_new_file_version x) (c_new_file_size x) (c_new_file_crc32 x)) n))"

lemma truthful_step: "truthful inet_addr Q n bs \<Longrightarrow> net_step inet_addr Q n n' \<Longrightarrow> truthful inet_addr Q n' bs"
  unfolding truthful_def using earlier_step by blast

lemma truthful_reply:
  assumes "reply_of m addr (net_tran n) w" "wf_message m" "net_reachable inet_addr Q n"
  shows "truthful inet_addr Q n (snd w)"
  using assms(1,2) verified_now [OF assms(3)] unfolding reply_of_def truthful_def by fastforce

lemma reply_of_thread [simp]: "reply_of m addr (ct\<lparr>c_thread := t\<rparr>) = reply_of m addr ct"
  by (simp add: reply_of_def same_file_def fun_eq_iff)

lemma client_SendMessage_CXL_reply:
  assumes "client_SendMessage E CXL ct = Inr ct'"
  shows "\<exists>w. c_wire ct' = c_wire ct @ [w] \<and> reply_of (env_stack E) (c_server_address ct) ct' w"
  using client_SendMessage_Inr [OF assms]
  by (intro exI [of _ "(c_server_address ct, client_image CXL (env_stack E) ct)"])
    (simp add: reply_of_def client_image_def, metis)

text \<open>What a step adds to the client's wire: at most one message, an answer to a datagram or the
  cancellation after a time-out.\<close>

lemma client_reply_wire:
  assumes "client_OnReceive by_thread cb E msg len addr ct = Inr ct'" "wf_message (env_stack E)"
  shows "\<exists>ws. c_wire ct' = c_wire ct @ ws \<and>
    (ws = [] \<or> (\<exists>m addr w. ws = [w] \<and> wf_message m \<and> reply_of m addr ct' w))"
  using client_OnReceive_reply [OF assms(1)] assms(2) by blast

lemma Reset_fields_wire [simp]: "c_wire (Reset_fields E ct) = c_wire ct"
  by (simp add: Reset_fields_def split: prod.splits)

lemma client_main_body_wire:
  "client_main_body E ev m a cl = Inr cl' \<Longrightarrow> c_wire (cl_transaction cl') = c_wire (cl_transaction cl)"
  by (auto simp: client_main_body_def bind_result_eq_Inr split: if_splits)

lemma client_loop_body_wire:
  assumes "client_loop_body cb E ev m a ct = Inr ct'" "wf_message (env_stack E)"
  shows "\<exists>ws. c_wire ct' = c_wire ct @ ws \<and>
    (ws = [] \<or> (\<exists>m addr w. ws = [w] \<and> wf_message m \<and> reply_of m addr ct' w))"
proof -
  obtain len msg addr where r: "udp_Receive ev m a = Inr (len, msg, addr)"
    using assms(1) by (auto simp: client_loop_body_def bind_result_eq_Inr)
  show ?thesis
  proof (cases "len = 0")
    case True
    then obtain ct1 where ct1: "client_SendMessage E CXL ct = Inr ct1" "ct' = ct1\<lparr>c_thread := Exited\<rparr>"
      using assms(1) r by (auto simp: client_loop_body_def bind_result_eq_Inr)
    then show ?thesis
      using client_SendMessage_CXL_reply [OF ct1(1)] assms(2) by auto
  next
    case False
    then obtain ct1 where ct1: "client_OnReceive Transaction_Thread cb E msg len addr ct = Inr ct1"
      "ct' = ct1\<lparr>c_thread := Loop_Test\<rparr>"
      using assms(1) r by (auto simp: client_loop_body_def bind_result_eq_Inr)
    then show ?thesis
      using client_reply_wire [OF ct1(1) assms(2)] by simp
  qed
qed

lemma net_step_client_wire:
  assumes "net_step inet_addr Q n n'"
  shows "\<exists>ws. c_wire (net_tran n') = c_wire (net_tran n) @ ws \<and>
    (ws = [] \<or> (\<exists>m addr w. ws = [w] \<and> wf_message m \<and> reply_of m addr (net_tran n') w))"
  using assms
proof cases
  case (client_joined msg len addr E cl)
  then obtain ct where "client_OnReceive Client_Thread (Some (OnFileReceived (net_client n))) E msg len addr
      ((net_tran n)\<lparr>c_thread := No_Thread\<rparr>) = Inr ct" "cl_transaction cl = ct"
    by (auto simp: client_main_joined_def bind_result_eq_Inr)
  then show ?thesis
    using client_reply_wire client_joined by fastforce
next
  case (client_receives E ev m a cl)
  then show ?thesis using client_main_body_wire by simp
next
  case (tran_receives E ev m a ct)
  then show ?thesis using client_loop_body_wire by simp
next
  case (client_caller cl h)
  then show ?thesis by (auto simp: AttachFileHandler_def DetachFileHandler_def Client_stop_def)
qed (simp_all add: client_main_test_def client_loop_test_def)

lemma client_sent_truthful:
  assumes "net_reachable inet_addr Q n" "bs \<in> client_sent n"
  shows "truthful inet_addr Q n bs"
  using assms
proof (induction arbitrary: bs)
  case (reachable_init n)
  then show ?case
    by (auto simp: net_init_def client_sent_def Client_new_def ClientTransaction_new_def)
next
  case (reachable_step n n')
  have reach: "net_reachable inet_addr Q n'"
    using reachable_step(1,2) by (rule reachable.reachable_step)
  obtain ws where ws: "c_wire (net_tran n') = c_wire (net_tran n) @ ws"
    "ws = [] \<or> (\<exists>m addr w. ws = [w] \<and> wf_message m \<and> reply_of m addr (net_tran n') w)"
    using net_step_client_wire [OF reachable_step(2)] by blast
  show ?case
  proof (cases "bs \<in> client_sent n")
    case True
    then show ?thesis using reachable_step.IH truthful_step [OF _ reachable_step(2)] by blast
  next
    case False
    then have "bs \<in> snd ` set ws"
      using reachable_step.prems ws(1) by (auto simp: client_sent_def)
    then show ?thesis
      using ws(2) truthful_reply [OF _ _ reach] by fastforce
  qed
qed

section \<open>What the server has been told\<close>

definition told :: "(string \<Rightarrow> u32) \<Rightarrow> (path \<Rightarrow> filesystem \<Rightarrow> bool) \<Rightarrow> network \<Rightarrow> ServerTransaction \<Rightarrow> bool" where
  "told inet_addr Q n st \<longleftrightarrow>
     earlier inet_addr Q (verified (s_new_file_version st) (s_new_file_size st) (s_new_file_crc32 st)) n"

lemma told_step: "told inet_addr Q n st \<Longrightarrow> net_step inet_addr Q n n' \<Longrightarrow> told inet_addr Q n' st"
  unfolding told_def by (rule earlier_step)

text \<open>What is announced does not change.\<close>

definition announced :: "ServerTransaction \<Rightarrow> u32 \<times> u32 \<times> u32" where
  "announced st = (s_new_file_version st, s_new_file_size st, s_new_file_crc32 st)"

lemma told_announced: "announced st' = announced st \<Longrightarrow> told inet_addr Q n st' = told inet_addr Q n st"
  by (simp add: told_def announced_def)

lemma announced_OnReceive: "announced (server_OnReceive msg len addr st) = announced st"
  using same_transfer_OnReceive [of st msg len addr] by (simp add: same_transfer_def announced_def)

lemma announced_send: "send_keeping sock E i st = (st', r) \<Longrightarrow> announced st' = announced st"
  by (erule send_keeping_cases) (simp_all add: announced_def)

lemma send_data_announced:
  "send_data sock E st = Inr st' \<Longrightarrow> server_inv st \<Longrightarrow> s_thr st = Send_Data \<Longrightarrow> announced st' = announced st"
  by (erule (2) send_data_cases) (simp_all add: announced_def)

lemma server_SendMessage_announced: "server_SendMessage sock E i st = Inr st' \<Longrightarrow> announced st' = announced st"
  by (erule server_SendMessage_Inr) (simp_all add: announced_def)

lemma announced_sender:
  assumes "sender_step sock E st = Inr st'" "server_inv st"
  shows "announced st' = announced st"
proof (cases "s_thr st")
  case Opening
  then show ?thesis
    using assms(1) by (auto simp: sender_step_def announced_def bind_result_eq_Inr split: option.splits
        dest!: server_SendMessage_announced)
next
  case Send_Data
  then show ?thesis using assms send_data_announced by (simp add: sender_step_def)
qed (use assms(1) in \<open>auto simp: sender_step_def announced_def take_rtx_def split: if_splits\<close>)

text \<open>The only way into \<^verbatim>\<open>DONE\<close>: a \<^verbatim>\<open>DONE\<close> of the client that tells of the announced file.\<close>

lemma client_image_id:
  assumes "wf_message m" "wf_message j" "i \<in> {CHK, RDY, RTX, DONE, CXL}"
    and "message_id (xid (header (recv_into j (client_image i m x)))) = DONE"
  shows "i = DONE"
  using client_image_received(2) [OF assms(1,2), of i x] assms(3,4) by auto

lemma server_OnReceive_DONE:
  assumes "s_status (server_OnReceive (recv_into j bs) (recv_len bs) addr st) = DONE" "s_status st \<noteq> DONE"
    and "wf_message j" "bs \<in> client_sent n \<or> \<not> server_ValidateMessageIntegrity (recv_into j bs) (recv_len bs)"
    and "net_reachable inet_addr Q n"
  shows "told inet_addr Q n st"
proof -
  let ?m = "recv_into j bs"
  have valid: "server_ValidateMessageIntegrity ?m (recv_len bs)"
    by (rule ccontr) (use assms(1,2) in \<open>simp add: server_OnReceive_def\<close>)
  have msg: "message_id (xid (header ?m)) = DONE"
    "ValidateMessage_done (msg_done ?m) (recv_len bs - sizeof_TrftpHeader) (server_expected_done st)"
    using assms(1,2) by (cases rule: server_OnReceive_cases [of ?m "recv_len bs" addr st]; simp)+
  have "truthful inet_addr Q n bs"
    using client_sent_truthful [OF assms(5)] assms(4) valid by blast
  then obtain i m x where x: "i \<in> {CHK, RDY, RTX, DONE, CXL}" "wf_message m" "bs = client_image i m x"
    "i = DONE \<longrightarrow> earlier inet_addr Q
       (verified (c_new_file_version x) (c_new_file_size x) (c_new_file_crc32 x)) n"
    unfolding truthful_def by blast
  have i: "i = DONE" using client_image_id [OF x(2) assms(3) x(1)] msg(1) x(3) by simp
  have "c_new_file_version x = s_new_file_version st \<and> c_new_file_size x = s_new_file_size st \<and>
    c_new_file_crc32 x = s_new_file_crc32 st"
    using msg(2) unfolding x(3) i msg_done_received [OF x(2) assms(3)]
    by (auto simp: ValidateMessage_done_def server_expected_done_def split: if_splits)
  then show ?thesis using x(4) i by (simp add: told_def)
qed

section \<open>Agreement\<close>

text \<open>A call is past the acknowledgement.\<close>

fun past_ack :: "start_pc \<Rightarrow> bool" where
  "past_ack (Sending i) = (i = FIN)"
| "past_ack (Erasing s) = (s = FIN)"
| "past_ack (Destroying s) = (s = FIN)"
| "past_ack (Finished s) = (s = FIN)"
| "past_ack pc = False"

definition net_agree :: "(string \<Rightarrow> u32) \<Rightarrow> (path \<Rightarrow> filesystem \<Rightarrow> bool) \<Rightarrow> network \<Rightarrow> bool" where
  "net_agree inet_addr Q n \<longleftrightarrow>
     (\<forall>st \<in> set (sv_heap (net_sv n)). s_status st = DONE \<longrightarrow> told inet_addr Q n st) \<and>
     (\<forall>c \<in> set (net_calls n). past_ack (call_pc c) \<longrightarrow> told inet_addr Q n (sv_heap (net_sv n) ! call_tran c))"

text \<open>The heap changes in one place, the calls do not.\<close>

lemma net_agree_set_tran:
  assumes "net_agree inet_addr Q n" "net_step inet_addr Q n n'"
    and "sv_heap (net_sv n') = (sv_heap (net_sv n))[k := st]" "net_calls n' = net_calls n"
    and "k < length (sv_heap (net_sv n))" "announced st = announced (sv_heap (net_sv n) ! k)"
    and "s_status st = DONE \<Longrightarrow> s_status (sv_heap (net_sv n) ! k) \<noteq> DONE \<Longrightarrow>
      told inet_addr Q n (sv_heap (net_sv n) ! k)"
  shows "net_agree inet_addr Q n'"
proof -
  let ?old = "sv_heap (net_sv n) ! k"
  have same: "told inet_addr Q n' (sv_heap (net_sv n') ! j) = told inet_addr Q n' (sv_heap (net_sv n) ! j)" for j
    using assms(3,5) told_announced [OF assms(6)] by (cases "j = k") simp_all
  have "told inet_addr Q n' x" if x: "x \<in> set (sv_heap (net_sv n'))" "s_status x = DONE" for x
  proof -
    have old: "?old \<in> set (sv_heap (net_sv n))" using assms(5) by simp
    have heap: "told inet_addr Q n y" if "y \<in> set (sv_heap (net_sv n))" "s_status y = DONE" for y
      using assms(1) that by (simp add: net_agree_def)
    have "x \<in> insert st (set (sv_heap (net_sv n)))"
      using set_update_subset_insert [THEN subsetD, OF x(1) [unfolded assms(3)]] .
    then have "told inet_addr Q n x"
    proof
      assume "x = st"
      then have "told inet_addr Q n ?old"
        using x(2) assms(7) heap [OF old] by (cases "s_status ?old = DONE") simp_all
      then show ?thesis using told_announced [OF assms(6)] \<open>x = st\<close> by simp
    qed (use heap x(2) in simp)
    then show ?thesis by (rule told_step [OF _ assms(2)])
  qed
  then show ?thesis
    using assms(1) told_step [OF _ assms(2)] by (auto simp: net_agree_def same assms(4))
qed

lemma net_agree_same:
  assumes "net_agree inet_addr Q n" "net_step inet_addr Q n n'"
    and "sv_heap (net_sv n') = sv_heap (net_sv n)"
    and "\<And>c. c \<in> set (net_calls n') \<Longrightarrow> past_ack (call_pc c) \<Longrightarrow> told inet_addr Q n (sv_heap (net_sv n) ! call_tran c)"
  shows "net_agree inet_addr Q n'"
  using assms(1,4) told_step [OF _ assms(2)] by (auto simp: net_agree_def assms(3))

text \<open>The steps of a call.\<close>

lemma call_past_ack:
  assumes "StartFileTransfer_step E t c sv = Some (c', sv')" "past_ack (call_pc c')"
    and "pc_ok (call_pc c) (sv_heap sv ! call_tran c)"
  shows "past_ack (call_pc c) \<or> s_status (sv_heap sv ! call_tran c) = DONE"
proof (cases "call_pc c")
  case (Sending i)
  then show ?thesis
    using assms
    by (auto simp: StartFileTransfer_step_def Let_def after_send_def split: prod.splits option.splits if_splits)
next
  case (Waiting i old)
  then show ?thesis
    using assms
    by (auto simp: StartFileTransfer_step_def Let_def after_wait_def wait_poll_def split: option.splits if_splits)
qed (use assms in \<open>auto simp: StartFileTransfer_step_def Let_def split: if_splits\<close>)

lemma call_heap:
  assumes "StartFileTransfer_step E t c sv = Some (c', sv')" "pc_ok (call_pc c) (sv_heap sv ! call_tran c)"
  obtains st where "call_tran c' = call_tran c" "sv_heap sv' = (sv_heap sv)[call_tran c := st]"
    "announced st = announced (sv_heap sv ! call_tran c)"
    "s_status st = DONE \<Longrightarrow> s_status (sv_heap sv ! call_tran c) = DONE"
  using assms(1)
proof (cases rule: StartFileTransfer_step_heap)
  case (sent i st r)
  have "i \<noteq> DONE" using assms(2) sent(1) by auto
  then have "s_status st = DONE \<Longrightarrow> s_status (sv_heap sv ! call_tran c) = DONE"
    using send_keeping_status [OF sent(2)] by auto
  then show thesis using that [of st] announced_send [OF sent(2)] sent(3,4) by simp
qed (use that [of "sv_heap sv ! call_tran c"] in simp)

lemma net_agree_call:
  assumes agree: "net_agree inet_addr Q n" and step: "net_step inet_addr Q n n'"
    and reach: "server_reachable inet_addr (net_sv n) (net_calls n)"
    and k: "k < length (net_calls n)"
    and call: "StartFileTransfer_step E t (net_calls n ! k) (net_sv n) = Some (c', net_sv n')"
    and cs: "net_calls n' = (net_calls n)[k := c']"
  shows "net_agree inet_addr Q n'"
proof -
  let ?c = "net_calls n ! k" and ?h = "sv_heap (net_sv n)"
  have c: "?c \<in> set (net_calls n)" using k by simp
  note R = reachable_call [OF reach c]
  obtain st where st: "call_tran c' = call_tran ?c" "sv_heap (net_sv n') = ?h[call_tran ?c := st]"
    "announced st = announced (?h ! call_tran ?c)" "s_status st = DONE \<Longrightarrow> s_status (?h ! call_tran ?c) = DONE"
    using call_heap [OF call R(2)] by blast
  have same: "told inet_addr Q n' (sv_heap (net_sv n') ! j) = told inet_addr Q n' (?h ! j)" for j
    using st(2) R(1) told_announced [OF st(3)] by (cases "j = call_tran ?c") simp_all
  have told_DONE: "told inet_addr Q n x" if "x \<in> set ?h" "s_status x = DONE" for x
    using agree that by (simp add: net_agree_def)
  have "told inet_addr Q n (?h ! call_tran c')" if "past_ack (call_pc c')"
  proof -
    have "?h ! call_tran ?c \<in> set ?h" using R(1) by simp
    then show ?thesis
      using call_past_ack [OF call that R(2)] told_DONE agree c st(1) by (auto simp: net_agree_def)
  qed
  then have calls: "told inet_addr Q n (?h ! call_tran x)"
    if "x \<in> set (net_calls n')" "past_ack (call_pc x)" for x
    using that agree set_update_subset_insert [THEN subsetD, of x "net_calls n" k c']
    by (auto simp: cs net_agree_def)
  have "told inet_addr Q n x" if "x \<in> set (sv_heap (net_sv n'))" "s_status x = DONE" for x
    using set_update_subset_insert [THEN subsetD, OF that(1) [unfolded st(2)]]
  proof
    assume "x = st"
    then have "s_status (?h ! call_tran ?c) = DONE" using st(4) that(2) by simp
    then have "told inet_addr Q n (?h ! call_tran ?c)" using told_DONE R(1) by simp
    then show ?thesis using told_announced [OF st(3)] \<open>x = st\<close> by simp
  qed (use told_DONE that(2) in simp)
  then show ?thesis
    unfolding net_agree_def same using calls told_step [OF _ step] by blast
qed

lemma net_agree_start:
  assumes agree: "net_agree inet_addr Q n" and step: "net_step inet_addr Q n n'"
    and reach: "server_reachable inet_addr (net_sv n) (net_calls n)"
    and enter: "StartFileTransfer_enter inet_addr fs uri p v d (net_sv n) = Inr (c, net_sv n')"
    and cs: "net_calls n' = net_calls n @ [c]"
  shows "net_agree inet_addr Q n'"
proof -
  obtain st where st: "server_init st" "call_tran c = length (sv_heap (net_sv n))" "call_pc c = Sending NTF"
    "sv_heap (net_sv n') = sv_heap (net_sv n) @ [st]"
    by (rule default_factory.enter_result [OF enter sys_invD(1) [OF default_factory.sys.reachable_inv [OF reach]]])
      (rule that, simp_all)
  have "s_status st = NTF"
    using st(1) by (auto simp: server_init_def ServerTransaction_new_def bind_result_eq_Inr)
  moreover have "call_tran x < length (sv_heap (net_sv n))" if "x \<in> set (net_calls n)" for x
    using reachable_call(1) [OF reach that] .
  ultimately show ?thesis
    using agree told_step [OF _ step] st(2,3) unfolding net_agree_def st(4) cs by (auto simp: nth_append)
qed

lemma net_step_agree:
  assumes agree: "net_agree inet_addr Q n" and step: "net_step inet_addr Q n n'"
    and reach: "net_reachable inet_addr Q n"
  shows "net_agree inet_addr Q n'"
proof -
  note sys = net_reachable_parts(1) [OF reach]
  note inv = default_factory.sys.reachable_inv [OF sys]
  have same: "net_agree inet_addr Q n'"
    if "sv_heap (net_sv n') = sv_heap (net_sv n)" "net_calls n' = net_calls n"
    by (rule net_agree_same [OF agree step that(1)]) (use agree that(2) in \<open>simp add: net_agree_def\<close>)
  show ?thesis
    using step
  proof cases
    case (server_start fs uri p v d c sv)
    then show ?thesis by (intro net_agree_start [OF agree step sys]) simp_all
  next
    case (server_call k E t c sv)
    then show ?thesis by (intro net_agree_call [OF agree step sys server_call(2)]) simp_all
  next
    case (server_abort E ip sv r)
    from server_abort(2) show ?thesis
    proof (cases rule: AbortFileTransfer_cases)
      case nothing
      then show ?thesis using server_abort(1) same by simp
    next
      case (cancelled k st r')
      show ?thesis
        by (rule net_agree_set_tran [OF agree step, where k = k and st = st])
          (use server_abort(1) cancelled(3) send_keeping_status [OF cancelled(2)] announced_send [OF cancelled(2)]
            owned_bound [OF inv cancelled(1)] in auto)
    qed
  next
    case (server_receives ev m a sv)
    from server_receives(3) show ?thesis
    proof (cases rule: server_main_body_cases)
      case ignored
      then show ?thesis using same server_receives(1) by simp
    next
      case (routed k len msg addr)
      obtain bs where bs: "ev = Recv_Datagram addr bs" "msg = recv_into m bs" "len = recv_len bs"
        using routed(1,2) by (auto simp: udp_Receive_def split: recv_event.splits if_splits)
      let ?st = "sv_heap (net_sv n) ! k"
      show ?thesis
      proof (rule net_agree_set_tran [OF agree step, where k = k and st = "server_OnReceive msg len addr ?st"])
        show "told inet_addr Q n ?st"
          if "s_status (server_OnReceive msg len addr ?st) = DONE" "s_status ?st \<noteq> DONE"
          using server_OnReceive_DONE [OF _ that(2) _ _ reach, of m bs addr] that(1) server_receives(4) bs by simp
      qed (use routed(4) server_receives(1) owned_bound [OF inv routed(3)] announced_OnReceive in simp_all)
    qed
  next
    case (server_sends k st E st')
    have tran: "tran_inv st" using sys_invD(2) [OF inv server_sends(2)] server_sends(3) by simp
    then have "server_inv st" by (simp add: tran_inv_def)
    then show ?thesis
      using server_sends sender_step_status(1) [OF server_sends(4)] announced_sender [OF server_sends(4)]
      by (intro net_agree_set_tran [OF agree step, where k = k and st = st']) auto
  qed (use same in \<open>auto simp: Server_stop_def server_main_test_def\<close>)
qed

lemma net_reachable_agree: "net_reachable inet_addr Q n \<Longrightarrow> net_agree inet_addr Q n"
proof (induction rule: reachable.induct)
  case (reachable_init n)
  then show ?case by (auto simp: net_init_def net_agree_def Server_new_def)
next
  case (reachable_step n n')
  then show ?case using net_step_agree by blast
qed

end
