(* ===== verification/Network_File.thy ===== *)
theory Network_File
  imports Network
begin

text \<open>
  The network of \<^verbatim>\<open>Network\<close> when every transfer of the server is of one file that does not
  change: what the server has on the wire are messages and packets of that file, so what the
  client stores is that file, whatever the network does and whichever transfers overlap.
\<close>

section \<open>The server\<close>

definition serves_file :: "byte list \<Rightarrow> path \<Rightarrow> filesystem \<Rightarrow> bool" where
  "serves_file bs p fs \<longleftrightarrow> (\<exists>f. fs p = Some f \<and> content f = bs)"

definition server_datagram :: "byte list \<Rightarrow> byte list \<Rightarrow> bool" where
  "server_datagram bs d \<longleftrightarrow>
     (\<exists>st j. wf_message j \<and> unat (s_new_file_size st) = length bs \<and>
       ((\<exists>k < packets_of bs. d = snd (data_datagram j bs st k)) \<or>
        (\<exists>i \<in> {NTF, INFO, FIN, CXL}. d = server_image i j st)))"

definition tran_serves :: "byte list \<Rightarrow> ServerTransaction \<Rightarrow> bool" where
  "tran_serves bs st \<longleftrightarrow>
     unat (s_new_file_size st) = length bs \<and>
     (s_thr st = For_Test \<or> in_loop (s_thr st) \<longrightarrow> in_data (s_ifs st) = bs) \<and>
     (\<forall>w \<in> set (s_wire st). server_datagram bs (snd w))"

text \<open>Such datagrams are what the channel of \<^verbatim>\<open>Session\<close> carries.\<close>

lemma server_datagram_from_server:
  assumes "server_datagram bs d" "wf_message m"
  shows "from_server bs (recv_into m d) (recv_len d)"
proof -
  obtain st j where st: "wf_message j" "unat (s_new_file_size st) = length bs"
    and d: "(\<exists>k < packets_of bs. d = snd (data_datagram j bs st k)) \<or>
      (\<exists>i \<in> {NTF, INFO, FIN, CXL}. d = server_image i j st)"
    using assms(1) unfolding server_datagram_def by blast
  have "recv_len (snd (data_datagram j bs st k)) = 32 + slice_len (length bs) k" for k
    unfolding data_datagram_def snd_conv
    by (rule recv_len_send_image) (use st(1) slice_len_le [of "length bs" k] in \<open>simp_all add: data_packet_def\<close>)
  then show ?thesis
    unfolding from_server_def using st d assms(2) by (metis recv_packet_def)
qed

lemma tran_serves_frame:
  assumes "tran_serves bs st" "s_new_file_size st' = s_new_file_size st" "s_wire st' = s_wire st"
    and "s_thr st' = For_Test \<or> in_loop (s_thr st') \<Longrightarrow> in_data (s_ifs st') = bs"
  shows "tran_serves bs st'"
  using assms by (simp add: tran_serves_def)

lemma tran_serves_OnReceive: "tran_serves bs st \<Longrightarrow> tran_serves bs (server_OnReceive msg len addr st)"
  by (cases rule: server_OnReceive_cases [of msg len addr st]) (simp_all add: tran_serves_def)

lemma tran_serves_SendMessage:
  assumes "server_SendMessage sock E i st = Inr st'" "tran_serves bs st" "wf_message (senv_stack E)"
  shows "tran_serves bs st'"
  using assms(1)
proof (cases rule: server_SendMessage_Inr)
  case sent
  let ?st = "st\<lparr>s_status := i\<rparr>"
  have "send_image (server_control i (senv_stack E) ?st) (32 + fst (server_payload i ?st)) =
      server_image i (senv_stack E) ?st"
    by (simp add: server_image_def)
  moreover have "server_datagram bs (server_image i (senv_stack E) ?st)"
    unfolding server_datagram_def
    by (rule exI [of _ ?st], rule exI [of _ "senv_stack E"]) (use assms(2,3) sent(1) in \<open>auto simp: tran_serves_def\<close>)
  ultimately show ?thesis
    using assms(2) by (simp add: sent(2) tran_serves_def)
qed (use assms(2) in \<open>auto simp: tran_serves_def in_loop_def\<close>)

lemma tran_serves_send:
  assumes "send_keeping sock E i st = (st', r)" "tran_serves bs st" "wf_message (senv_stack E)"
  shows "tran_serves bs st'"
  using assms tran_serves_SendMessage [OF _ assms(2,3)]
  by (auto simp: send_keeping_def tran_serves_def split: sum.splits)

lemma send_data_sends: "send_data sock E st = Inr st' \<Longrightarrow> sends sock E"
  by (auto simp: send_data_def server_SendMessage_def udp_Send_def sends_def Let_def bind_result_eq_Inr
      split: prod.splits if_splits)

lemma tran_serves_send_data:
  assumes "send_data sock E st = Inr st'" "server_inv st" "s_thr st = Send_Data" "tran_serves bs st"
    and "wf_message (senv_stack E)"
  shows "tran_serves bs st'"
proof -
  have loop: "in_loop (s_thr st)" by (simp add: assms(3) in_loop_def)
  then have "holds_file bs st"
    using assms(2,4) by (auto simp: holds_file_def tran_serves_def server_inv_def)
  then obtain i where i: "in_data i = bs" and st': "st' = st\<lparr>s_ifs := i,
      s_wire := s_wire st @ [data_datagram (senv_stack E) bs st (unat (s_packet_sequence_number st))],
      s_thr := (if s_packet_sequence_number st = s_total_packet_number st - 1 then Tail_Wait else For_Incr)\<rparr>"
    using send_data_run [OF assms(2,3) send_data_sends [OF assms(1)]] assms(1) by fastforce
  have size: "unat (s_new_file_size st) = length bs" using assms(4) by (simp add: tran_serves_def)
  have "s_packet_sequence_number st < server_packets (s_new_file_size st)"
    using assms(2) loop by (simp add: server_inv_def)
  then have "unat (s_packet_sequence_number st) < packets_of bs"
    using packet_in_file(2) [of "s_packet_sequence_number st" "s_new_file_size st"] size
    by (simp add: word_less_nat_alt server_packets_no_wrap packets_of_def)
  then have "server_datagram bs (snd (data_datagram (senv_stack E) bs st (unat (s_packet_sequence_number st))))"
    unfolding server_datagram_def using assms(5) size by blast
  then show ?thesis
    using assms(4) i by (simp add: tran_serves_def st')
qed

lemma tran_serves_sender:
  assumes "sender_step sock E st = Inr st'" "server_inv st" "tran_serves bs st"
    and "wf_message (senv_stack E)" "serves_file bs (s_file_path st) (senv_files E)"
  shows "tran_serves bs st'"
proof (cases "s_thr st")
  case Opening
  show ?thesis
  proof (cases "ifstream_open (s_file_path st) (senv_files E)")
    case None
    then obtain st1 where "server_SendMessage sock E CXL st = Inr st1" "st' = st1\<lparr>s_thr := Returned\<rparr>"
      using assms(1) Opening by (auto simp: sender_step_def bind_result_eq_Inr)
    then show ?thesis
      using tran_serves_SendMessage [OF _ assms(3,4)] by (auto simp: tran_serves_def in_loop_def)
  next
    case (Some ifs)
    then have "in_data ifs = bs"
      using assms(5) by (auto simp: ifstream_open_def serves_file_def split: option.splits if_splits)
    then show ?thesis
      using assms(1,3) Opening Some by (auto simp: sender_step_def tran_serves_def)
  qed
next
  case Send_Data
  then show ?thesis using assms tran_serves_send_data by (simp add: sender_step_def)
qed (use assms(1,3) in \<open>auto simp: sender_step_def tran_serves_def in_loop_def take_rtx_def split: if_splits\<close>)

lemma tran_serves_new:
  assumes "ServerTransaction_new addr p v d fs = Inr st" "serves_file bs p fs" "length bs < 2 ^ 32"
  shows "tran_serves bs st"
proof -
  have "unat (of_nat (length bs) :: u32) = length bs"
    using assms(3) by (simp add: unsigned_of_nat take_bit_nat_eq_self)
  then show ?thesis
    using assms(1,2)
    by (auto simp: ServerTransaction_new_def bind_result_eq_Inr fs_file_size_def serves_file_def
        tran_serves_def in_loop_def split: option.splits)
qed

section \<open>The client\<close>

text \<open>
  \<^verbatim>\<open>Begin\<close> sets \<^verbatim>\<open>is_active_\<close> before it joins the old thread, which may then go on
  receiving: a transfer can start with a sequence number that the old thread has left behind. It
  never stores anything: in \<open>RDY\<close> a first packet is not the one the client waits for.
\<close>

definition client_stores :: "byte list \<Rightarrow> ClientTransaction \<Rightarrow> bool" where
  "client_stores bs ct \<longleftrightarrow> stores_only bs ct \<or> c_status ct = RDY \<and> c_packet_sequence_number ct \<noteq> 0"

lemma client_stores_early: "c_status ct \<notin> {RDY, DATA, DONE} \<Longrightarrow> client_stores bs ct"
  by (auto simp: client_stores_def stores_only_def)

lemma client_stores_CXL: "client_SendMessage E CXL ct = Inr ct' \<Longrightarrow> client_stores bs ct'"
  by (drule stores_only_CXL [where bs = bs]) (simp add: client_stores_def)

lemma client_stores_frame [simp]:
  "client_stores bs (ct\<lparr>c_thread := t\<rparr>) = client_stores bs ct"
  "client_stores bs (ct\<lparr>c_server_address := a\<rparr>) = client_stores bs ct"
  by (simp_all add: client_stores_def stores_only_def)

lemma client_OnReceive_behind:
  assumes "client_OnReceive Transaction_Thread cb E msg len addr ct = Inr ct'" "c_thread ct \<noteq> No_Thread"
    and "c_status ct = CHK \<or> c_status ct = RDY" "c_packet_sequence_number ct \<noteq> 0"
  shows "client_stores bs ct'"
proof -
  let ?c = "ct\<lparr>c_server_address := addr\<rparr>" and ?n = "len - sizeof_TrftpHeader"
  have same: "client_stores bs ?c" using assms(3,4) by (auto simp: client_stores_def stores_only_def)
  show ?thesis
  proof (cases "client_ValidateMessageIntegrity msg len")
    case False
    then show ?thesis using assms(1) same by (simp add: client_OnReceive_def)
  next
    case True
    note handled = assms(1) [unfolded client_OnReceive_def Let_def if_not_P [OF not_not [THEN iffD2, OF True]]]
    show ?thesis
    proof (cases "message_id (xid (header msg))")
      case NTF
      then show ?thesis
        using handled assms(2) client_stores_CXL by (auto simp: client_on_ntf_def split: if_splits)
    next
      case INFO
      then have "client_on_info E msg ?n ?c = Inr ct'" using handled by simp
      then show ?thesis
      proof (cases rule: client_on_info_cases)
        case (cancelled ct0)
        then show ?thesis by (rule client_stores_CXL)
      next
        case ready
        have "c_packet_sequence_number (client_info_state E msg ?c) = c_packet_sequence_number ct"
          by (simp add: client_info_state_def Let_def split: prod.splits)
        then show ?thesis
          using client_SendMessage_frame [OF ready(6)] assms(4) by (auto simp: client_stores_def)
      qed
    next
      case DATA
      then have "client_on_data E msg ?n ?c = Inr ct'" using handled by simp
      then show ?thesis
      proof (cases rule: client_on_data_cases)
        case (cancelled ct0)
        then show ?thesis by (rule client_stores_CXL)
      next
        case retransmit
        then show ?thesis
          using client_SendMessage_frame [OF retransmit(3)] same by (auto simp: client_stores_def stores_only_def)
      qed (use assms(3,4) in \<open>auto simp: client_data_admissible_def split: if_splits\<close>)
    next
      case FIN
      then show ?thesis using handled assms(3) client_stores_CXL by (auto simp: client_on_fin_def)
    next
      case CXL
      then show ?thesis
        using handled client_on_cxl_status(1) by (auto intro: client_stores_early)
    qed (use handled same in auto)
  qed
qed

lemma client_OnReceive_stores:
  assumes "client_OnReceive Transaction_Thread cb E msg len addr ct = Inr ct'" "c_thread ct \<noteq> No_Thread"
    and "client_stores bs ct" "genuine bs msg len"
  shows "client_stores bs ct'"
proof (cases "(c_status ct = CHK \<or> c_status ct = RDY) \<and> c_packet_sequence_number ct \<noteq> 0")
  case True
  then show ?thesis using client_OnReceive_behind [OF assms(1,2)] by blast
next
  case False
  then have "serves bs ct"
    using assms(2,3) by (auto simp: serves_def client_stores_def)
  then show ?thesis
    using client_OnReceive_serves [OF assms(1) _ assms(4)] by (simp add: client_stores_def serves_def)
qed

text \<open>What the socket hands over is genuine.\<close>

lemma carries_genuine:
  assumes "carries (server_sent n) client_ValidateMessageIntegrity ev m" "udp_Receive ev m a = Inr (len, msg, addr)"
    and "len \<noteq> 0" "\<And>st. st \<in> set (sv_heap (net_sv n)) \<Longrightarrow> tran_serves bs st"
  shows "genuine bs msg len"
proof -
  obtain d where d: "ev = Recv_Datagram addr d" "msg = recv_into m d" "len = recv_len d"
    using assms(2,3) by (auto simp: udp_Receive_def split: recv_event.splits if_splits)
  show ?thesis
  proof (cases "d \<in> server_sent n")
    case True
    then have "server_datagram bs d" using assms(4) by (auto simp: server_sent_def tran_serves_def)
    then show ?thesis
      using from_server_genuine [OF server_datagram_from_server] assms(1) d by simp
  next
    case False
    then show ?thesis using assms(1) d by (simp add: genuine_def)
  qed
qed

lemma client_loop_body_stores:
  assumes "client_loop_body cb E ev m a ct = Inr ct'" "c_thread ct \<noteq> No_Thread" "client_stores bs ct"
    and "\<And>len msg addr. udp_Receive ev m a = Inr (len, msg, addr) \<Longrightarrow> len \<noteq> 0 \<Longrightarrow> genuine bs msg len"
  shows "client_stores bs ct'"
proof -
  obtain len msg addr where r: "udp_Receive ev m a = Inr (len, msg, addr)"
    using assms(1) by (auto simp: client_loop_body_def bind_result_eq_Inr)
  show ?thesis
  proof (cases "len = 0")
    case True
    then show ?thesis
      using assms(1) r client_stores_CXL by (auto simp: client_loop_body_def bind_result_eq_Inr)
  next
    case False
    then show ?thesis
      using assms(1) r client_OnReceive_stores [OF _ assms(2,3) assms(4) [OF r False]]
      by (auto simp: client_loop_body_def bind_result_eq_Inr)
  qed
qed

lemma client_main_body_stores:
  assumes "client_main_body E ev m a cl = Inr cl'" "client_inv (cl_transaction cl)"
    and "client_stores bs (cl_transaction cl)"
  shows "client_stores bs (cl_transaction cl')"
proof (cases "client_IsAlive (cl_transaction cl)")
  case True
  then show ?thesis
    using assms(1,3) by (auto simp: client_main_body_def bind_result_eq_Inr split: if_splits)
next
  case False
  then have "c_status (cl_transaction cl) \<notin> {RDY, DATA, DONE}"
    using client_inv_not_alive [OF assms(2)] by simp
  moreover have "c_status (cl_transaction cl') = c_status (cl_transaction cl)"
    using assms(1) by (auto simp: client_main_body_def bind_result_eq_Inr split: if_splits)
  ultimately show ?thesis by (intro client_stores_early) simp
qed

lemma client_main_joined_stores:
  assumes "client_main_joined E msg len addr cl = Inr cl'" "client_inv (cl_transaction cl)"
    and "join_returns (cl_transaction cl)" "message_id (xid (header msg)) = NTF"
  shows "client_stores bs (cl_transaction cl')"
proof -
  let ?c = "(cl_transaction cl)\<lparr>c_thread := No_Thread, c_server_address := addr\<rparr>"
  have st: "c_status ?c \<notin> {RDY, DATA, DONE}"
    using client_inv_joined [OF assms(2,3)] by simp
  obtain ct where "client_OnReceive Client_Thread (Some (OnFileReceived cl)) E msg len addr
      ((cl_transaction cl)\<lparr>c_thread := No_Thread\<rparr>) = Inr ct" "cl_transaction cl' = ct"
    using assms(1) by (auto simp: client_main_joined_def bind_result_eq_Inr)
  then have "cl_transaction cl' = ?c \<or>
      client_on_ntf Client_Thread E msg (len - sizeof_TrftpHeader) ?c = Inr (cl_transaction cl')"
    using assms(4) by (auto simp: client_OnReceive_def Let_def split: if_splits)
  then have "c_status (cl_transaction cl') \<notin> {RDY, DATA, DONE}"
    using st client_on_ntf_status by fastforce
  then show ?thesis by (rule client_stores_early)
qed

section \<open>The invariant\<close>

definition net_file_inv :: "byte list \<Rightarrow> network \<Rightarrow> bool" where
  "net_file_inv bs n \<longleftrightarrow>
     (\<forall>st \<in> set (sv_heap (net_sv n)). tran_serves bs st) \<and> client_stores bs (net_tran n)"

lemma net_file_inv_heap:
  assumes "net_file_inv bs n" "net_client n' = net_client n"
    and "sv_heap (net_sv n') = (sv_heap (net_sv n))[k := st]" "tran_serves bs st"
  shows "net_file_inv bs n'"
  using assms set_update_subset_insert [of "sv_heap (net_sv n)" k st] by (auto simp: net_file_inv_def)

text \<open>A step of a call, and a new call.\<close>

lemma call_file_inv:
  assumes inv: "net_file_inv bs n" and reach: "server_reachable inet_addr (net_sv n) (net_calls n)"
    and c: "c \<in> set (net_calls n)"
    and step: "StartFileTransfer_step E t c (net_sv n) = Some (c', net_sv n')"
    and n': "net_client n' = net_client n" and E: "wf_message (senv_stack E)"
  shows "net_file_inv bs n'"
  using step
proof (cases rule: StartFileTransfer_step_heap)
  case (sent i st r)
  have "tran_serves bs (sv_heap (net_sv n) ! call_tran c)"
    using inv reachable_call(1) [OF reach c] by (simp add: net_file_inv_def)
  then have "tran_serves bs st" using tran_serves_send [OF sent(2)] E by blast
  then show ?thesis by (rule net_file_inv_heap [OF inv n' sent(3)])
qed (use inv n' in \<open>simp add: net_file_inv_def\<close>)

lemma start_file_inv:
  assumes inv: "net_file_inv bs n" and reach: "server_reachable inet_addr (net_sv n) (net_calls n)"
    and enter: "StartFileTransfer_enter inet_addr fs uri p v d (net_sv n) = Inr (c, net_sv n')"
    and Q: "serves_file bs p fs" and len: "length bs < 2 ^ 32" and n': "net_client n' = net_client n"
  shows "net_file_inv bs n'"
  using enter
proof (cases rule: enter_cases)
  case (1 ip port k st)
  have "sv_factory (net_sv n) = DefaultServerTransactionFactory_CreateTransaction"
    by (rule sys_invD(1) [OF default_factory.sys.reachable_inv [OF reach]])
  then have "tran_serves bs st"
    using 1(3) tran_serves_new [OF _ Q len] by (auto simp: DefaultServerTransactionFactory_CreateTransaction_def)
  then show ?thesis using inv n' 1(6) by (auto simp: net_file_inv_def)
qed

text \<open>The steps of the server.\<close>

lemma abort_file_inv:
  assumes inv: "net_file_inv bs n" and reach: "server_reachable inet_addr (net_sv n) (net_calls n)"
    and abort: "AbortFileTransfer E ip (net_sv n) = (net_sv n', r)"
    and n': "net_client n' = net_client n" and E: "wf_message (senv_stack E)"
  shows "net_file_inv bs n'"
  using abort
proof (cases rule: AbortFileTransfer_cases)
  case (cancelled k st r')
  have "tran_serves bs (sv_heap (net_sv n) ! k)"
    using inv owned_bound [OF default_factory.sys.reachable_inv [OF reach] cancelled(1)]
    by (simp add: net_file_inv_def)
  then have "tran_serves bs st" using tran_serves_send [OF cancelled(2)] E by blast
  then show ?thesis using cancelled(3) by (intro net_file_inv_heap [OF inv n', of k st]) simp_all
qed (use inv n' in \<open>simp add: net_file_inv_def\<close>)

lemma body_file_inv:
  assumes inv: "net_file_inv bs n" and reach: "server_reachable inet_addr (net_sv n) (net_calls n)"
    and body: "server_main_body ev m a (net_sv n) = Inr (net_sv n')" and n': "net_client n' = net_client n"
  shows "net_file_inv bs n'"
  using body
proof (cases rule: server_main_body_cases)
  case (routed k len msg addr)
  have "tran_serves bs (sv_heap (net_sv n) ! k)"
    using inv owned_bound [OF default_factory.sys.reachable_inv [OF reach] routed(3)]
    by (simp add: net_file_inv_def)
  then have "tran_serves bs (server_OnReceive msg len addr (sv_heap (net_sv n) ! k))"
    by (rule tran_serves_OnReceive)
  then show ?thesis using routed(4) by (intro net_file_inv_heap [OF inv n', of k]) simp_all
qed (use inv n' in \<open>simp add: net_file_inv_def\<close>)

lemma net_step_file_inv:
  assumes inv: "net_file_inv bs n" and step: "net_step inet_addr (serves_file bs) n n'"
    and reach: "net_reachable inet_addr (serves_file bs) n" and len: "length bs < 2 ^ 32"
  shows "net_file_inv bs n'"
proof -
  note sys = net_reachable_parts(1) [OF reach]
  have cinv: "main_inv (net_client n)"
    using client_main.reachable_inv [OF net_reachable_parts(2) [OF reach]] .
  note ct = main_inv_transaction [OF cinv]
  have stores: "client_stores bs (net_tran n)"
    using inv by (simp add: net_file_inv_def)
  show ?thesis
    using step
  proof cases
    case (server_start fs uri p v d c sv)
    then show ?thesis by (intro start_file_inv [OF inv sys _ server_start(3) len]) simp_all
  next
    case (server_call k E t c sv)
    then show ?thesis by (intro call_file_inv [OF inv sys _ _ _ server_call(4)]) simp_all
  next
    case (server_abort E ip sv r)
    then show ?thesis by (intro abort_file_inv [OF inv sys]) simp_all
  next
    case (server_receives ev m a sv)
    then show ?thesis by (intro body_file_inv [OF inv sys]) simp_all
  next
    case (server_sends k st E st')
    have "server_inv st"
      using sys_invD(2) [OF default_factory.sys.reachable_inv [OF sys] server_sends(2)] server_sends(3)
      by (simp add: tran_inv_def)
    then have "tran_serves bs st'"
      using tran_serves_sender [OF server_sends(4) _ _ server_sends(5,6)] inv server_sends(2,3)
      by (simp add: net_file_inv_def)
    then show ?thesis
      using server_sends(1) by (intro net_file_inv_heap [OF inv, where k = k and st = st']) simp_all
  next
    case (client_receives E ev m a cl)
    then show ?thesis
      using client_main_body_stores [OF client_receives(3) ct stores] inv by (simp add: net_file_inv_def)
  next
    case (client_joined msg len addr E cl)
    have "message_id (xid (header msg)) = NTF"
      using cinv client_joined(2) by (simp add: main_inv_def client_sys_inv_def sys_of_def)
    then show ?thesis
      using client_main_joined_stores [OF client_joined(4) ct client_joined(3)] inv client_joined(1)
      by (simp add: net_file_inv_def)
  next
    case (tran_receives E ev m a ct')
    have "client_stores bs ct'"
      by (rule client_loop_body_stores [OF tran_receives(3) _ stores])
        (use tran_receives(2) carries_genuine [OF tran_receives(4)] inv in \<open>auto simp: net_file_inv_def\<close>)
    then show ?thesis using inv tran_receives(1) by (simp add: net_file_inv_def)
  next
    case (client_caller cl h)
    then show ?thesis
      using inv by (auto simp: net_file_inv_def AttachFileHandler_def DetachFileHandler_def Client_stop_def)
  qed (use inv in \<open>simp_all add: net_file_inv_def Server_stop_def server_main_test_def client_main_test_def
      client_loop_test_def\<close>)
qed

lemma net_reachable_file_inv:
  assumes "net_reachable inet_addr (serves_file bs) n" "length bs < 2 ^ 32"
  shows "net_file_inv bs n"
  using assms(1)
proof induction
  case (reachable_init n)
  then show ?case
    by (auto simp: net_init_def net_file_inv_def Server_new_def Client_new_def ClientTransaction_new_def
        client_stores_def stores_only_def)
next
  case (reachable_step n n')
  then show ?case using net_step_file_inv assms(2) by blast
qed

text \<open>So a complete file on the client's disk is the server's.\<close>

lemma net_DONE:
  assumes "net_reachable inet_addr (serves_file bs) n" "length bs < 2 ^ 32" "c_status (net_tran n) = DONE"
  shows "\<exists>f. c_files (net_tran n) (c_new_file_path (net_tran n)) = Some f \<and> content f = bs"
  using net_reachable_file_inv [OF assms(1,2)] assms(3)
  by (simp add: net_file_inv_def client_stores_def stores_only_def)

end
