(* ===== verification/Network_Schedule.thy ===== *)
theory Network_Schedule
  imports Network_File Recovery Samples
begin

text \<open>
  Executions of the whole network: the call, the sending thread, the receiver thread and the
  client's threads take turns as in the sessions of \<^verbatim>\<open>Lossless\<close> and \<^verbatim>\<open>Recovery\<close>, and every
  datagram that is received has been sent. So what those sessions achieve is achieved by the
  composed system, up to the call of the client's file handler.
\<close>

section \<open>One transfer on the network\<close>

definition net_of :: "UdpSocket \<Rightarrow> string \<Rightarrow> ServerTransaction \<Rightarrow> start_pc \<Rightarrow> Client \<Rightarrow> network" where
  "net_of sock ip st pc cl =
     \<lparr>net_sv = fst (one_transfer sock ip st pc), net_calls = snd (one_transfer sock ip st pc), net_client = cl\<rparr>"

abbreviation net_runs_from ::
  "(network \<Rightarrow> bool) \<Rightarrow> (string \<Rightarrow> u32) \<Rightarrow> (path \<Rightarrow> filesystem \<Rightarrow> bool) \<Rightarrow> UdpSocket \<Rightarrow> string \<Rightarrow>
   ServerTransaction \<Rightarrow> start_pc \<Rightarrow> Client \<Rightarrow> bool" where
  "net_runs_from init inet_addr Q sock ip st pc cl \<equiv>
     reachable init (net_step inet_addr Q) (net_of sock ip st pc cl)"

abbreviation net_runs ::
  "(string \<Rightarrow> u32) \<Rightarrow> (path \<Rightarrow> filesystem \<Rightarrow> bool) \<Rightarrow> UdpSocket \<Rightarrow> string \<Rightarrow>
   ServerTransaction \<Rightarrow> start_pc \<Rightarrow> Client \<Rightarrow> bool" where
  "net_runs \<equiv> net_runs_from net_init"

lemma net_of_simps [simp]:
  "net_client (net_of sock ip st pc cl) = cl"
  "sv_heap (net_sv (net_of sock ip st pc cl)) = [st]"
  "sv_udp_socket (net_sv (net_of sock ip st pc cl)) = sock"
  "net_calls (net_of sock ip st pc cl) = [\<lparr>call_ip = ip, call_tran = 0, call_pc = pc\<rparr>]"
  "server_sent (net_of sock ip st pc cl) = snd ` set (s_wire st)"
  "client_sent (net_of sock ip st pc cl) = snd ` set (c_wire (cl_transaction cl))"
  by (simp_all add: net_of_def one_transfer_def server_sent_def client_sent_def)

lemma net_of_client [simp]: "net_of sock ip st pc cl\<lparr>net_client := cl'\<rparr> = net_of sock ip st pc cl'"
  by (simp add: net_of_def)

subsection \<open>The server's steps\<close>

lemma net_runs_call:
  assumes "net_runs_from init inet_addr Q sock ip st pc cl" "wf_message (senv_stack E)"
    and "StartFileTransfer_step E t \<lparr>call_ip = ip, call_tran = 0, call_pc = pc\<rparr> (fst (one_transfer sock ip st pc)) =
      Some (\<lparr>call_ip = ip, call_tran = 0, call_pc = pc'\<rparr>, fst (one_transfer sock ip st' pc'))"
  shows "net_runs_from init inet_addr Q sock ip st' pc' cl"
proof -
  have sv: "net_sv (net_of sock ip st pc cl) = fst (one_transfer sock ip st pc)"
    by (simp add: net_of_def)
  have "net_step inet_addr Q (net_of sock ip st pc cl)
      (net_of sock ip st pc cl\<lparr>net_sv := fst (one_transfer sock ip st' pc'),
        net_calls := (net_calls (net_of sock ip st pc cl))[0 := \<lparr>call_ip = ip, call_tran = 0, call_pc = pc'\<rparr>]\<rparr>)"
    by (rule net_step.server_call [where E = E and timed_out = t]) (use assms(2,3) sv in simp_all)
  then have "net_step inet_addr Q (net_of sock ip st pc cl) (net_of sock ip st' pc' cl)"
    by (simp add: net_of_def one_transfer_def)
  with assms(1) show ?thesis by (rule reachable.reachable_step)
qed

lemma net_runs_send:
  assumes "net_runs inet_addr Q sock ip st (Sending i) cl" "wf_message (senv_stack E)"
    and "server_SendMessage sock E i st = Inr st'"
  shows "net_runs inet_addr Q sock ip st' (after_send i) cl"
  using assms(1,2)
  by (rule net_runs_call [where t = False])
    (use assms(3) in \<open>simp add: StartFileTransfer_step_def one_transfer_def send_keeping_def set_tran_def\<close>)

lemma net_runs_load:
  assumes "net_runs inet_addr Q sock ip st (Loading i) cl" "wf_message (senv_stack (E :: senv))"
  shows "net_runs inet_addr Q sock ip st (Waiting i (s_status st)) cl"
  using assms
  by (rule net_runs_call [where t = False])
    (simp add: StartFileTransfer_step_def one_transfer_def wait_load_def)

lemma net_runs_wait:
  assumes "net_runs_from init inet_addr Q sock ip st (Waiting i old) cl" "wf_message (senv_stack (E :: senv))" "s_status st \<noteq> old"
  shows "net_runs_from init inet_addr Q sock ip st (after_wait i (Some (s_status st))) cl"
  using assms(1,2)
  by (rule net_runs_call [where t = False])
    (use assms(3) in \<open>simp add: StartFileTransfer_step_def one_transfer_def wait_poll_def\<close>)

lemma net_runs_receive:
  assumes run: "net_runs_from init inet_addr Q sock (inet_ntoa (s_addr addr)) st pc cl"
    and bs: "bs \<in> snd ` set (c_wire (cl_transaction cl))" "bs \<noteq> []" and m: "wf_message m"
  shows "net_runs_from init inet_addr Q sock (inet_ntoa (s_addr addr))
    (server_OnReceive (recv_into m bs) (recv_len bs) addr st) pc cl"
proof -
  let ?ip = "inet_ntoa (s_addr addr)" and ?st = "server_OnReceive (recv_into m bs) (recv_len bs) addr st"
  let ?n = "net_of sock ?ip st pc cl"
  let ?sv1 = "(net_sv ?n)\<lparr>sv_thread := Server_Receiving\<rparr>"
  let ?sv2 = "net_sv (net_of sock ?ip ?st pc cl)"
  have "server_main_test (net_sv ?n) = ?sv1" "sv_thread (net_sv ?n) = Server_Test"
    by (simp_all add: server_main_test_def net_of_def one_transfer_def)
  then have 1: "net_step inet_addr Q ?n (?n\<lparr>net_sv := ?sv1\<rparr>)"
    using net_step.server_test [of ?n inet_addr Q] by simp
  have body: "server_main_body (Recv_Datagram addr bs) m addr ?sv1 = Inr ?sv2"
    using bs(2) recv_len_pos [OF bs(2)]
    by (simp add: server_main_body_def udp_Receive_datagram server_route_def set_tran_def net_of_def one_transfer_def)
  have "net_step inet_addr Q (?n\<lparr>net_sv := ?sv1\<rparr>) (?n\<lparr>net_sv := ?sv1, net_sv := ?sv2\<rparr>)"
    by (rule net_step.server_receives [where ev = "Recv_Datagram addr bs" and m = m and a = addr])
      (use body bs(1) m in \<open>simp_all add: client_sent_def\<close>)
  moreover have "?n\<lparr>net_sv := ?sv1, net_sv := ?sv2\<rparr> = net_of sock ?ip ?st pc cl"
    by (simp add: net_of_def one_transfer_def)
  ultimately show ?thesis
    using run 1 by (metis reachable.reachable_step)
qed

lemma sender_step_path:
  assumes "sender_step sock E st = Inr st'" "server_inv st"
  shows "s_file_path st' = s_file_path st"
proof (cases "s_thr st")
  case Opening
  have "s_file_path st1 = s_file_path st" if "server_SendMessage sock E CXL st = Inr st1" for st1
    using that by (cases rule: server_SendMessage_Inr) simp_all
  then show ?thesis
    using assms(1) Opening by (auto simp: sender_step_def bind_result_eq_Inr split: option.splits)
next
  case Send_Data
  then have "send_data sock E st = Inr st'" using assms(1) by (simp add: sender_step_def)
  then show ?thesis by (cases rule: send_data_cases [OF _ assms(2) Send_Data]) (erule ssubst, simp)+
qed (use assms(1) in \<open>auto simp: sender_step_def take_rtx_def split: if_splits\<close>)

lemma net_runs_sender:
  assumes "net_runs_from init inet_addr Q sock ip st pc cl" "sender_run sock E n st = Inr st'" "server_inv st"
    and "wf_message (senv_stack E)" "Q (s_file_path st) (senv_files E)"
  shows "net_runs_from init inet_addr Q sock ip st' pc cl \<and> s_file_path st' = s_file_path st"
  using assms(1-3,5)
proof (induction n arbitrary: st)
  case (Suc n)
  then obtain st1 where st1: "sender_step sock E st = Inr st1" "sender_run sock E n st1 = Inr st'"
    by (auto simp: bind_result_eq_Inr)
  have p: "s_file_path st1 = s_file_path st" and inv: "server_inv st1"
    using sender_step_path [OF st1(1) Suc.prems(3)] sender_step_inv [OF st1(1) Suc.prems(3)] .
  let ?n = "net_of sock ip st pc cl"
  have "net_step inet_addr Q ?n (?n\<lparr>net_sv := set_tran 0 st1 (net_sv ?n)\<rparr>)"
    by (rule net_step.server_sends [where E = E and st = st]) (use st1(1) assms(4) Suc.prems(4) in simp_all)
  moreover have "?n\<lparr>net_sv := set_tran 0 st1 (net_sv ?n)\<rparr> = net_of sock ip st1 pc cl"
    by (simp add: net_of_def one_transfer_def set_tran_def)
  ultimately have "net_runs_from init inet_addr Q sock ip st1 pc cl"
    using Suc.prems(1) by (metis reachable.reachable_step)
  then show ?case using Suc.IH [OF _ st1(2) inv] Suc.prems(4) p by simp
qed simp

subsection \<open>The client's steps\<close>

lemma net_runs_client:
  assumes "net_runs_from init inet_addr Q sock ip st pc cl"
    and "net_step inet_addr Q (net_of sock ip st pc cl) (net_of sock ip st pc cl\<lparr>net_client := cl'\<rparr>)"
  shows "net_runs_from init inet_addr Q sock ip st pc cl'"
  using reachable.reachable_step [OF assms] by simp

lemma net_runs_body:
  assumes run: "net_runs_from init inet_addr Q sock ip st pc cl" and thr: "c_thread (cl_transaction cl) = Receiving"
    and rec: "client_OnReceive Transaction_Thread (Some (OnFileReceived cl)) E (recv_into m bs) (recv_len bs)
      addr (cl_transaction cl) = Inr ct'"
    and bs: "bs \<in> snd ` set (s_wire st)" "bs \<noteq> []" and wf: "wf_message m" "wf_message (env_stack E)"
  shows "net_runs_from init inet_addr Q sock ip st pc (cl\<lparr>cl_transaction := ct'\<lparr>c_thread := Loop_Test\<rparr>\<rparr>)"
proof -
  have "client_loop_body (Some (OnFileReceived cl)) E (Recv_Datagram addr bs) m addr (cl_transaction cl) =
      Inr (ct'\<lparr>c_thread := Loop_Test\<rparr>)"
    using rec bs(2) recv_len_pos [OF bs(2)] by (simp add: client_loop_body_def udp_Receive_datagram)
  then have "net_step inet_addr Q (net_of sock ip st pc cl) (net_of sock ip st pc cl\<lparr>net_client :=
      (net_client (net_of sock ip st pc cl))\<lparr>cl_transaction := ct'\<lparr>c_thread := Loop_Test\<rparr>\<rparr>\<rparr>)"
    by (intro net_step.tran_receives [where ev = "Recv_Datagram addr bs" and m = m and a = addr and E = E])
      (use thr bs(1) wf in simp_all)
  then show ?thesis using net_runs_client [OF run] by simp
qed

lemma net_runs_test:
  assumes run: "net_runs inet_addr Q sock ip st pc cl"
    and thr: "c_thread (cl_transaction cl) = Loop_Test" "c_is_active (cl_transaction cl)"
  shows "net_runs inet_addr Q sock ip st pc (cl\<lparr>cl_transaction := (cl_transaction cl)\<lparr>c_thread := Receiving\<rparr>\<rparr>)"
  using net_runs_client [OF run] net_step.tran_test [of "net_of sock ip st pc cl" inet_addr Q] thr
  by (simp add: client_loop_test_def)

lemma net_runs_deliver:
  assumes run: "net_runs inet_addr Q sock ip st pc cl" and thr: "c_thread (cl_transaction cl) = Receiving"
    and rec: "client_OnReceive Transaction_Thread (Some (OnFileReceived cl)) E (recv_into m bs) (recv_len bs)
      addr (cl_transaction cl) = Inr ct'"
    and bs: "bs \<in> snd ` set (s_wire st)" "bs \<noteq> []" and wf: "wf_message m" "wf_message (env_stack E)"
    and act: "c_is_active ct'"
  shows "net_runs inet_addr Q sock ip st pc (cl\<lparr>cl_transaction := ct'\<rparr>)" "c_thread ct' = Receiving"
proof -
  show thr': "c_thread ct' = Receiving"
    using client_OnReceive_thread [OF rec] thr by simp
  then have "ct'\<lparr>c_thread := Receiving\<rparr> = ct'" by simp
  with net_runs_test [OF net_runs_body [OF run thr rec bs wf]] act
  show "net_runs inet_addr Q sock ip st pc (cl\<lparr>cl_transaction := ct'\<rparr>)" by simp
qed

text \<open>Datagrams the server's transaction has sent, one after the other.\<close>

definition sent_delivery :: "ServerTransaction \<Rightarrow> delivery \<Rightarrow> bool" where
  "sent_delivery st d \<longleftrightarrow> wf_message (env_stack (del_env d)) \<and>
     (\<exists>m bs. wf_message m \<and> bs \<in> snd ` set (s_wire st) \<and> bs \<noteq> [] \<and>
        del_msg d = recv_into m bs \<and> del_len d = recv_len bs)"

lemma net_runs_feed:
  assumes "net_runs inet_addr Q sock ip st pc cl" "c_thread (cl_transaction cl) = Receiving"
    and "client_feed (Some (OnFileReceived cl)) ds (cl_transaction cl) = Inr ct'" "c_is_active ct'"
    and "\<And>d. d \<in> set ds \<Longrightarrow> sent_delivery st d"
  shows "net_runs inet_addr Q sock ip st pc (cl\<lparr>cl_transaction := ct'\<rparr>) \<and> c_thread ct' = Receiving"
  using assms
proof (induction ds arbitrary: cl)
  case Nil
  then have eq: "cl\<lparr>cl_transaction := ct'\<rparr> = cl" by auto
  show ?case unfolding eq using Nil by simp
next
  case (Cons d ds)
  then obtain ct1 where ct1: "client_OnReceive Transaction_Thread (Some (OnFileReceived cl)) (del_env d)
      (del_msg d) (del_len d) (del_addr d) (cl_transaction cl) = Inr ct1"
    "client_feed (Some (OnFileReceived cl)) ds ct1 = Inr ct'"
    by (auto simp: bind_result_eq_Inr)
  have "c_thread ct1 = Receiving"
    using client_OnReceive_thread [OF ct1(1)] Cons.prems(2) by simp
  then have act: "c_is_active ct1"
    using client_feed_active [OF ct1(2) _ Cons.prems(4)] by simp
  obtain m bs where d: "wf_message (env_stack (del_env d))" "wf_message m" "bs \<in> snd ` set (s_wire st)" "bs \<noteq> []"
    "del_msg d = recv_into m bs" "del_len d = recv_len bs"
    using Cons.prems(5) [of d] by (auto simp: sent_delivery_def)
  have "net_runs inet_addr Q sock ip st pc (cl\<lparr>cl_transaction := ct1\<rparr>)"
    by (rule net_runs_deliver(1) [OF Cons.prems(1,2) ct1(1) [unfolded d(5,6)] d(3,4,2,1) act])
  then show ?case
    using Cons.IH [of "cl\<lparr>cl_transaction := ct1\<rparr>"] \<open>c_thread ct1 = Receiving\<close> ct1(2) Cons.prems(4,5) by simp
qed

subsection \<open>Rounds\<close>

lemma client_feed_wire:
  assumes "client_feed cb ds ct = Inr ct'" "\<And>d. d \<in> set ds \<Longrightarrow> wf_message (env_stack (del_env d))"
  shows "\<exists>ws. c_wire ct' = c_wire ct @ ws \<and> (\<forall>w \<in> set ws. snd w \<noteq> [])"
proof -
  obtain wss where w: "c_wire ct' = c_wire ct @ concat wss"
    "list_all2 (\<lambda>d ws. replies (env_stack (del_env d)) (del_addr d) ws) ds wss"
    using client_feed_answers [OF assms(1)] by blast
  have "snd v \<noteq> []" if "v \<in> set (concat wss)" for v
    using answers_to_sender [OF w(2) that] assms(2) by (auto simp: client_image_nonempty)
  with w(1) show ?thesis by blast
qed

lemma net_runs_nonempty:
  assumes "net_runs inet_addr (serves_file bs) sock ip st pc cl" "length bs < 2 ^ 32" "w \<in> set (s_wire st)"
  shows "snd w \<noteq> []"
proof
  assume empty: "snd w = []"
  have "server_datagram bs (snd w)"
    using net_reachable_file_inv [OF assms(1,2)] assms(3) by (simp add: net_file_inv_def tran_serves_def)
  then have "from_server bs (recv_into junk []) (recv_len [])"
    using server_datagram_from_server [of bs _ junk] empty by fastforce
  then have "32 \<le> recv_len []"
  proof (cases rule: from_server_cases)
    case (control st j cj i)
    then show ?thesis using recv_len_server_image [OF control(1)] by simp
  qed simp
  then show False by (simp add: recv_len_def)
qed

lemma delivered_sent:
  assumes "net_runs inet_addr (serves_file bs) (l_sock L) ip st pc cl" "length bs < 2 ^ 32" "good_link L"
    and "w \<in> set (s_wire st)"
  shows "sent_delivery st (delivered L w)"
proof -
  have "snd w \<in> snd ` set (s_wire st)" using assms(4) by (rule imageI)
  moreover have "snd w \<noteq> []" using net_runs_nonempty [OF assms(1,2,4)] .
  ultimately show ?thesis
    using assms(3) unfolding sent_delivery_def good_link_def good_env_def delivery.select_convs delivered_def
    by (intro conjI exI [of _ "l_cj L"] exI [of _ "snd w"]) simp_all
qed

lemma net_runs_gets_each:
  assumes "net_runs inet_addr Q (l_sock L) (inet_ntoa (s_addr (l_caddr L))) st pc cl" "wf_message (l_j L)"
    and "set ds \<subseteq> set (c_wire (cl_transaction cl))" "\<forall>d \<in> set ds. snd d \<noteq> []"
  shows "net_runs inet_addr Q (l_sock L) (inet_ntoa (s_addr (l_caddr L))) (server_gets_each L ds st) pc cl"
  using assms
proof (induction ds arbitrary: st)
  case (Cons d ds)
  have "snd d \<in> snd ` set (c_wire (cl_transaction cl))" using Cons.prems(3) by auto
  then show ?case
    using net_runs_receive [OF Cons.prems(1), of "snd d" "l_j L"] Cons
    by (simp add: server_gets_each_def server_gets_def)
qed (simp add: server_gets_each_def)

lemma server_gets_each_same:
  "server_inv st \<Longrightarrow> server_inv (server_gets_each L ds st) \<and>
     s_file_path (server_gets_each L ds st) = s_file_path st"
proof (induction ds arbitrary: st)
  case (Cons d ds)
  have "s_file_path (server_OnReceive m l a st) = s_file_path st" for m l a
    by (cases rule: server_OnReceive_cases [of m l a st]) simp_all
  then show ?case
    using Cons.IH [of "server_gets L [d] st"] Cons.prems server_OnReceive_inv
    by (simp add: server_gets_each_def server_gets_def)
qed (simp add: server_gets_each_def)

lemma net_runs_round:
  assumes L: "good_link L" and len: "length bs < 2 ^ 32"
    and run: "net_runs inet_addr (serves_file bs) (l_sock L) (inet_ntoa (s_addr (l_caddr L))) st pc cl"
    and thr: "c_thread (cl_transaction cl) = Receiving" and inv: "server_inv st"
    and file': "serves_file bs (s_file_path st) (senv_files (l_senv L))"
    and round: "lossy_round L (Some (OnFileReceived cl)) r (st, cl_transaction cl) = Inr (st', ct')"
    and act: "c_is_active ct'"
  shows "net_runs inet_addr (serves_file bs) (l_sock L) (inet_ntoa (s_addr (l_caddr L))) st' pc
      (cl\<lparr>cl_transaction := ct'\<rparr>) \<and> c_thread ct' = Receiving \<and> server_inv st' \<and> s_file_path st' = s_file_path st"
proof -
  let ?ip = "inet_ntoa (s_addr (l_caddr L))" and ?ct = "cl_transaction cl"
  have wf: "wf_message (senv_stack (l_senv L))" "wf_message (l_j L)"
    using L by (simp_all add: good_link_def)
  obtain st1 where srun: "sender_run (l_sock L) (l_senv L) (fst r) st = Inr st1"
    and fed: "client_feed (Some (OnFileReceived cl))
      (losing (snd r) (map (delivered L) (drop (length (s_wire st)) (s_wire st1)))) ?ct = Inr ct'"
    and gets: "st' = server_gets_each L (drop (length (c_wire ?ct)) (c_wire ct')) st1"
    using round by (auto simp: lossy_round_def bind_result_eq_Inr)
  have 1: "net_runs inet_addr (serves_file bs) (l_sock L) ?ip st1 pc cl" "s_file_path st1 = s_file_path st"
    using net_runs_sender [OF run srun inv wf(1) file'] by blast+
  have inv1: "server_inv st1" by (rule sender_run_inv [OF srun inv])
  have sent: "sent_delivery st1 d"
    if "d \<in> set (losing (snd r) (map (delivered L) (drop (length (s_wire st)) (s_wire st1))))" for d
    using that delivered_sent [OF 1(1) len L] by (auto simp: losing_def dest: in_set_dropD)
  have 2: "net_runs inet_addr (serves_file bs) (l_sock L) ?ip st1 pc (cl\<lparr>cl_transaction := ct'\<rparr>)"
    "c_thread ct' = Receiving"
    using net_runs_feed [OF 1(1) thr fed act sent] by blast+
  have env: "wf_message (env_stack (del_env d))" if "d \<in> set (losing K (map (delivered L) w))" for d K w
    using that L by (auto simp: losing_def delivered_def good_link_def good_env_def)
  obtain ws where ws: "c_wire ct' = c_wire ?ct @ ws" "\<forall>w \<in> set ws. snd w \<noteq> []"
    using client_feed_wire [OF fed] env by blast
  have "net_runs inet_addr (serves_file bs) (l_sock L) ?ip st' pc (cl\<lparr>cl_transaction := ct'\<rparr>)"
    unfolding gets by (rule net_runs_gets_each [OF 2(1) wf(2)]) (use ws in auto)
  then show ?thesis
    using 2(2) 1(2) server_gets_each_same [OF inv1] gets by simp
qed

lemma client_feed_thread:
  assumes "client_feed cb ds ct = Inr ct'" "c_thread ct \<noteq> No_Thread"
  shows "c_thread ct' = c_thread ct"
  using assms
proof (induction ds arbitrary: ct)
  case (Cons d ds)
  then obtain ct1 where ct1: "client_OnReceive Transaction_Thread cb (del_env d) (del_msg d) (del_len d)
      (del_addr d) ct = Inr ct1" "client_feed cb ds ct1 = Inr ct'"
    by (auto simp: bind_result_eq_Inr)
  then show ?case
    using Cons.IH [OF ct1(2)] client_OnReceive_thread [OF ct1(1)] Cons.prems(2) by simp
qed simp

lemma lossy_round_feed:
  "lossy_round L cb r s = Inr s' \<Longrightarrow> \<exists>ds. client_feed cb ds (snd s) = Inr (snd s')"
  by (auto simp: lossy_round_def bind_result_eq_Inr)

lemma lossy_rounds_active:
  assumes "lossy_rounds L cb rs s = Inr s'" "c_thread (snd s) \<noteq> No_Thread" "c_is_active (snd s')"
  shows "c_is_active (snd s)"
  using assms
proof (induction rs arbitrary: s)
  case (Cons r rs)
  then obtain s1 where s1: "lossy_round L cb r s = Inr s1" "lossy_rounds L cb rs s1 = Inr s'"
    by (auto simp: bind_result_eq_Inr)
  obtain ds where ds: "client_feed cb ds (snd s) = Inr (snd s1)"
    using lossy_round_feed [OF s1(1)] by blast
  have "c_thread (snd s1) = c_thread (snd s)"
    using client_feed_thread [OF ds Cons.prems(2)] .
  then show ?case
    using Cons.IH [OF s1(2)] client_feed_active [OF ds Cons.prems(2)] Cons.prems(2,3) by simp
qed simp

lemma net_runs_rounds:
  assumes L: "good_link L" and len: "length bs < 2 ^ 32"
    and "net_runs inet_addr (serves_file bs) (l_sock L) (inet_ntoa (s_addr (l_caddr L))) st pc cl"
    and "c_thread (cl_transaction cl) = Receiving" "server_inv st"
    and "serves_file bs (s_file_path st) (senv_files (l_senv L))"
    and "lossy_rounds L (Some (OnFileReceived cl)) rs (st, cl_transaction cl) = Inr (st', ct')"
    and "c_is_active ct'"
  shows "net_runs inet_addr (serves_file bs) (l_sock L) (inet_ntoa (s_addr (l_caddr L))) st' pc
      (cl\<lparr>cl_transaction := ct'\<rparr>) \<and> c_thread ct' = Receiving \<and> server_inv st' \<and> s_file_path st' = s_file_path st"
  using assms(3-)
proof (induction rs arbitrary: st cl)
  case Nil
  then have eq: "cl\<lparr>cl_transaction := ct'\<rparr> = cl" by auto
  show ?case unfolding eq using Nil by auto
next
  case (Cons r rs)
  obtain st1 ct1 where r: "lossy_round L (Some (OnFileReceived cl)) r (st, cl_transaction cl) = Inr (st1, ct1)"
    "lossy_rounds L (Some (OnFileReceived cl)) rs (st1, ct1) = Inr (st', ct')"
    using Cons.prems(5) by (auto simp: bind_result_eq_Inr)
  have "c_thread ct1 \<noteq> No_Thread \<Longrightarrow> c_is_active ct1"
    using lossy_rounds_active [OF r(2)] Cons.prems(6) by simp
  moreover have "c_thread ct1 \<noteq> No_Thread"
    using lossy_round_feed [OF r(1)] client_feed_thread Cons.prems(2) by fastforce
  ultimately have step: "net_runs inet_addr (serves_file bs) (l_sock L) (inet_ntoa (s_addr (l_caddr L))) st1 pc
      (cl\<lparr>cl_transaction := ct1\<rparr>) \<and> c_thread ct1 = Receiving \<and> server_inv st1 \<and> s_file_path st1 = s_file_path st"
    using net_runs_round [OF L len Cons.prems(1-4) r(1)] by blast
  then show ?case
    using Cons.IH [of st1 "cl\<lparr>cl_transaction := ct1\<rparr>"] r(2) Cons.prems(4,6) by simp
qed

subsection \<open>The handshake\<close>

lemma net_runs_begin:
  assumes run: "net_runs inet_addr Q sock ip st pc cl"
    and cl: "cl_thread cl = Main_Test" "cl_is_running cl"
    and idle: "\<not> client_IsAlive (cl_transaction cl)" "join_returns (cl_transaction cl)"
    and beg: "client_Begin (Some (OnFileReceived cl)) E (recv_into m bs) (recv_len bs) addr (cl_transaction cl) = Inr ct'"
    and ntf: "bs \<in> snd ` set (s_wire st)" "bs \<noteq> []" "message_id (xid (header (recv_into m bs))) = NTF"
    and wf: "wf_message m" "wf_message (env_stack E)"
  shows "net_runs inet_addr Q sock ip st pc (cl\<lparr>cl_transaction := ct', cl_thread := Main_Test\<rparr>)"
proof -
  let ?n = "net_of sock ip st pc"
  let ?cl1 = "cl\<lparr>cl_thread := Main_Receiving\<rparr>"
  let ?reset = "Reset_fields E ((cl_transaction cl)\<lparr>c_is_active := True\<rparr>)"
  let ?cl2 = "cl\<lparr>cl_transaction := ?reset, cl_thread := Main_Joining (recv_into m bs) (recv_len bs) addr\<rparr>"
  have "net_step inet_addr Q (?n cl) (?n cl\<lparr>net_client := ?cl1\<rparr>)"
    using net_step.client_test [of "?n cl" inet_addr Q] cl by (simp add: client_main_test_def)
  from net_runs_client [OF run this] have 1: "net_runs inet_addr Q sock ip st pc ?cl1" .
  have "net_step inet_addr Q (?n ?cl1) (?n ?cl1\<lparr>net_client := ?cl2\<rparr>)"
    by (rule net_step.client_receives [where ev = "Recv_Datagram addr bs" and m = m and a = addr and E = E])
      (use idle(1) ntf recv_len_pos [OF ntf(2)] wf in \<open>simp_all add: client_main_body_def udp_Receive_datagram\<close>)
  from net_runs_client [OF 1 this] have 2: "net_runs inet_addr Q sock ip st pc ?cl2" .
  have "net_step inet_addr Q (?n ?cl2)
      (?n ?cl2\<lparr>net_client := cl\<lparr>cl_transaction := ct', cl_thread := Main_Test\<rparr>\<rparr>)"
  proof (rule net_step.client_joined [where msg = "recv_into m bs" and len = "recv_len bs" and addr = addr and E = E])
    show "join_returns (net_tran (?n ?cl2))"
      using idle(2) by (simp add: join_returns_def)
    show "client_main_joined E (recv_into m bs) (recv_len bs) addr (net_client (?n ?cl2)) =
        Inr (cl\<lparr>cl_transaction := ct', cl_thread := Main_Test\<rparr>)"
      using beg ntf(3) by (simp add: client_main_joined_def client_Begin_split)
  qed (use wf in simp_all)
  from net_runs_client [OF 2 this] show ?thesis .
qed

text \<open>One message of the server and the answer that changes its status.\<close>

lemma net_runs_sent:
  assumes "net_runs inet_addr Q (l_sock L) ip st (Sending i) cl" "good_link L" "i \<in> {NTF, INFO}"
  shows "net_runs inet_addr Q (l_sock L) ip (st\<lparr>s_status := i,
    s_wire := s_wire st @ [(s_client_address st, server_image i (senv_stack (l_senv L)) st)]\<rparr>) (Waiting i i) cl"
proof -
  have snd: "sends (l_sock L) (l_senv L)" "wf_message (senv_stack (l_senv L))"
    using assms(2) by (simp_all add: good_link_def)
  have "server_SendMessage (l_sock L) (l_senv L) i st = Inr (st\<lparr>s_status := i,
      s_wire := s_wire st @ [(s_client_address st, server_image i (senv_stack (l_senv L)) st)]\<rparr>)" (is "_ = Inr ?st")
    by (rule server_SendMessage_ok [OF _ snd(1)]) (use assms(3) in auto)
  from net_runs_send [OF assms(1) snd(2) this]
  have "net_runs inet_addr Q (l_sock L) ip ?st (Loading i) cl"
    using assms(3) by (auto simp: after_send_def)
  from net_runs_load [OF this snd(2)] show ?thesis by simp
qed

lemma net_runs_answered:
  assumes run: "net_runs inet_addr Q (l_sock L) (inet_ntoa (s_addr (l_caddr L))) st (Waiting i i) cl" and L: "good_link L"
    and w: "c_wire (cl_transaction cl) = ws @ [(a, client_image j (env_stack (l_env L)) x)]"
    and got: "server_gets L (c_wire (cl_transaction cl)) st = st'" "s_status st' = r" "r \<noteq> i"
  shows "net_runs inet_addr Q (l_sock L) (inet_ntoa (s_addr (l_caddr L))) st' (after_wait i (Some r)) cl"
proof -
  have wf: "wf_message (l_j L)" "wf_message (senv_stack (l_senv L))" "wf_message (env_stack (l_env L))"
    using L by (simp_all add: good_link_def good_env_def)
  have "net_runs inet_addr Q (l_sock L) (inet_ntoa (s_addr (l_caddr L))) (server_OnReceive
      (recv_into (l_j L) (client_image j (env_stack (l_env L)) x)) (recv_len (client_image j (env_stack (l_env L)) x))
      (l_caddr L) st) (Waiting i i) cl"
    by (rule net_runs_receive [OF run _ client_image_nonempty [OF wf(3)] wf(1)]) (simp add: w)
  then have "net_runs inet_addr Q (l_sock L) (inet_ntoa (s_addr (l_caddr L))) st' (Waiting i i) cl"
    using got(1) by (simp add: server_gets_def w)
  from net_runs_wait [OF this wf(2)] show ?thesis using got(2,3) by simp
qed

text \<open>The notification and its answer.\<close>

lemma net_runs_check:
  assumes start: "net_runs inet_addr Q (l_sock L) (inet_ntoa (s_addr (l_caddr L))) st (Sending NTF) cl"
    and L: "good_link L"
    and cl: "cl_thread cl = Main_Test" "cl_is_running cl"
    and idle: "\<not> client_IsAlive (cl_transaction cl)" "join_returns (cl_transaction cl)"
    and ct: "0 \<le> fd (c_udp_socket (cl_transaction cl))"
      "tmp_readable (temp_file (env_tmp (l_env L))) (c_files (cl_transaction cl))"
  shows "\<exists>v w ct'. net_runs inet_addr Q (l_sock L) (inet_ntoa (s_addr (l_caddr L)))
      (st\<lparr>s_client_address := l_caddr L, s_cur_file_version := v, s_status := CHK, s_wire := w\<rparr>) (Sending INFO)
      (cl\<lparr>cl_transaction := ct'\<rparr>) \<and> checked st ct' \<and> c_thread ct' = Receiving \<and>
    sent_psns w = sent_psns (s_wire st) \<and>
    requested_psns (c_wire ct') = requested_psns (c_wire (cl_transaction cl))"
proof -
  have wf: "wf_message (senv_stack (l_senv L))" "wf_message (l_cj L)" "wf_message (l_j L)"
    "wf_message (env_stack (l_env L))" and E: "good_env (l_env L)"
    using L by (simp_all add: good_link_def good_env_def)
  let ?m = "senv_stack (l_senv L)" and ?e = "env_stack (l_env L)" and ?cb = "Some (OnFileReceived cl)"
  let ?runs = "net_runs inet_addr Q (l_sock L) (inet_ntoa (s_addr (l_caddr L)))"
  define st1 where "st1 = st\<lparr>s_status := NTF,
    s_wire := s_wire st @ [(s_client_address st, server_image NTF ?m st)]\<rparr>"
  have 1: "?runs st1 (Waiting NTF NTF) cl"
    unfolding st1_def by (rule net_runs_sent [OF start L]) simp
  obtain ct1 x1 where c1: "client_Begin ?cb (l_env L) (recv_into (l_cj L) (server_image NTF ?m st))
      (recv_len (server_image NTF ?m st)) (l_saddr L) (cl_transaction cl) = Inr ct1" "checked st ct1"
    "c_thread ct1 = Loop_Test" "c_wire ct1 = c_wire (cl_transaction cl) @ [(l_saddr L, client_image CHK ?e x1)]"
    using client_gets_NTF [OF wf(1,2) E ct] by blast
  let ?cl1 = "cl\<lparr>cl_transaction := ct1, cl_thread := Main_Test\<rparr>"
  have 2: "?runs st1 (Waiting NTF NTF) ?cl1"
    by (rule net_runs_begin [OF 1 cl idle c1(1) _ server_image_nonempty [OF wf(1)] _ wf(2,4)])
      (simp_all add: st1_def server_image_received(2) [OF wf(1,2)])
  let ?cl2 = "?cl1\<lparr>cl_transaction := ct1\<lparr>c_thread := Receiving\<rparr>\<rparr>"
  have 3: "?runs st1 (Waiting NTF NTF) ?cl2"
    using net_runs_test [OF 2] c1(2,3) by (simp add: checked_def)
  obtain v where v: "server_gets L (c_wire ct1) st1 =
      st1\<lparr>s_client_address := l_caddr L, s_cur_file_version := v, s_status := CHK\<rparr>"
    using server_gets_CHK [OF wf(4,3), of st1 x1] by (auto simp: server_gets_def c1(4) st1_def)
  let ?st = "st1\<lparr>s_client_address := l_caddr L, s_cur_file_version := v, s_status := CHK\<rparr>"
  have "?runs ?st (Sending INFO) ?cl2"
    using net_runs_answered [OF 3 L, of "c_wire (cl_transaction cl)" "l_saddr L" CHK x1 ?st CHK] c1(4) v
    by (simp add: after_wait_def)
  moreover have "?cl2 = cl\<lparr>cl_transaction := ct1\<lparr>c_thread := Receiving\<rparr>\<rparr>" using cl(1) by (cases cl) simp
  moreover have "?st = st\<lparr>s_client_address := l_caddr L, s_cur_file_version := v, s_status := CHK, s_wire := s_wire st1\<rparr>"
    by (simp add: st1_def)
  moreover have "checked st (ct1\<lparr>c_thread := Receiving\<rparr>)" using c1(2) by (simp add: checked_def)
  moreover have "c_thread (ct1\<lparr>c_thread := Receiving\<rparr>) = Receiving" by simp
  moreover have "sent_psns (s_wire st1) = sent_psns (s_wire st)" by (simp add: st1_def)
  moreover have "requested_psns (c_wire (ct1\<lparr>c_thread := Receiving\<rparr>)) = requested_psns (c_wire (cl_transaction cl))"
    by (simp add: c1(4) requested_psns_image [OF wf(4)])
  ultimately show ?thesis by metis
qed

text \<open>The description of the file and its answer.\<close>

lemma net_runs_ready:
  assumes run: "net_runs inet_addr Q (l_sock L) (inet_ntoa (s_addr (l_caddr L))) st (Sending INFO) cl"
    and L: "good_link L" and ck: "checked st (cl_transaction cl)" and thr: "c_thread (cl_transaction cl) = Receiving"
    and size: "unat (s_new_file_size st) = length bs" and ne: "bs \<noteq> []" and inv: "server_inv st"
  shows "\<exists>g w ct'. net_runs inet_addr Q (l_sock L) (inet_ntoa (s_addr (l_caddr L)))
      (st\<lparr>s_client_address := l_caddr L, s_inter_packet_gap := g, s_status := RDY, s_wire := w\<rparr>) (Sending DATA)
      (cl\<lparr>cl_transaction := ct'\<rparr>) \<and>
    receiving bs st 0 ct' \<and> c_thread ct' = Receiving \<and> 100 \<le> g \<and> g \<le> 300 \<and>
    sent_psns w = sent_psns (s_wire st) \<and>
    requested_psns (c_wire ct') = requested_psns (c_wire (cl_transaction cl))"
proof -
  have wf: "wf_message (senv_stack (l_senv L))" "wf_message (l_cj L)" "wf_message (l_j L)"
    "wf_message (env_stack (l_env L))" and E: "good_env (l_env L)"
    using L by (simp_all add: good_link_def good_env_def)
  let ?m = "senv_stack (l_senv L)" and ?e = "env_stack (l_env L)" and ?cb = "Some (OnFileReceived cl)"
  let ?runs = "net_runs inet_addr Q (l_sock L) (inet_ntoa (s_addr (l_caddr L)))"
  define st1 where "st1 = st\<lparr>s_status := INFO,
    s_wire := s_wire st @ [(s_client_address st, server_image INFO ?m st)]\<rparr>"
  have 1: "?runs st1 (Waiting INFO INFO) cl"
    unfolding st1_def by (rule net_runs_sent [OF run L]) simp
  obtain ct x where c: "client_OnReceive Transaction_Thread ?cb (l_env L)
      (recv_into (l_cj L) (server_image INFO ?m st)) (recv_len (server_image INFO ?m st)) (l_saddr L)
      (cl_transaction cl) = Inr ct" "receiving bs st 0 ct"
    "c_wire ct = c_wire (cl_transaction cl) @ [(l_saddr L, client_image RDY ?e x)]"
    using client_gets_INFO [OF wf(1,2) E ck size ne] by blast
  have act: "c_is_active ct" using c(2) by (simp add: receiving_def)
  let ?cl = "cl\<lparr>cl_transaction := ct\<rparr>"
  have 2: "?runs st1 (Waiting INFO INFO) ?cl" "c_thread ct = Receiving"
    using net_runs_deliver [OF 1 _ _ _ server_image_nonempty [OF wf(1)] wf(2,4) act, of INFO st "l_saddr L"] c(1) thr
    by (simp_all add: st1_def)
  obtain g where g: "server_gets L (c_wire ct) st1 =
      st1\<lparr>s_client_address := l_caddr L, s_inter_packet_gap := g, s_status := RDY\<rparr>"
    using server_gets_RDY [OF wf(4,3), of st1 x] by (auto simp: server_gets_def c(3) st1_def)
  define st2 where "st2 = st1\<lparr>s_client_address := l_caddr L, s_inter_packet_gap := g, s_status := RDY\<rparr>"
  have 3: "?runs st2 (Sending DATA) ?cl"
    using net_runs_answered [OF 2(1) L, of "c_wire (cl_transaction cl)" "l_saddr L" RDY x st2 RDY] c(3) g
    by (simp add: st2_def after_wait_def)
  have "server_inv st1" using inv by (simp add: st1_def server_inv_def in_loop_def)
  then have "server_inv st2"
    unfolding st2_def g [symmetric] server_gets_def by (rule server_OnReceive_inv)
  then have gap: "100 \<le> g" "g \<le> 300" by (simp_all add: server_inv_def st2_def)
  have "st2 = st\<lparr>s_client_address := l_caddr L, s_inter_packet_gap := g, s_status := RDY, s_wire := s_wire st1\<rparr>"
    by (simp add: st2_def st1_def)
  moreover have "sent_psns (s_wire st1) = sent_psns (s_wire st)" by (simp add: st1_def)
  moreover have "requested_psns (c_wire ct) = requested_psns (c_wire (cl_transaction cl))"
    by (simp add: c(3) requested_psns_image [OF wf(4)])
  ultimately show ?thesis using 2(2) 3 c(2) gap by metis
qed

lemma net_runs_handshake:
  assumes start: "net_runs inet_addr Q (l_sock L) (inet_ntoa (s_addr (l_caddr L))) st (Sending NTF) cl"
    and L: "good_link L" and p: "prepared bs L st" and ne: "bs \<noteq> []"
    and cl: "cl_thread cl = Main_Test" "cl_is_running cl"
    and idle: "\<not> client_IsAlive (cl_transaction cl)" "join_returns (cl_transaction cl)"
    and ct: "0 \<le> fd (c_udp_socket (cl_transaction cl))"
      "tmp_readable (temp_file (env_tmp (l_env L))) (c_files (cl_transaction cl))"
  shows "\<exists>st' ct'. net_runs inet_addr Q (l_sock L) (inet_ntoa (s_addr (l_caddr L))) st' (Waiting DATA DATA)
      (cl\<lparr>cl_transaction := ct'\<rparr>) \<and>
    receiving bs st' 0 ct' \<and> c_thread ct' = Receiving \<and> started st st' \<and>
    requested_psns (c_wire ct') = requested_psns (c_wire (cl_transaction cl))"
proof -
  let ?runs = "net_runs inet_addr Q (l_sock L) (inet_ntoa (s_addr (l_caddr L)))"
  have wf: "wf_message (senv_stack (l_senv L))" using L by (simp add: good_link_def)
  obtain v w ct1 where 1: "?runs (st\<lparr>s_client_address := l_caddr L, s_cur_file_version := v, s_status := CHK, s_wire := w\<rparr>)
      (Sending INFO) (cl\<lparr>cl_transaction := ct1\<rparr>)" "checked st ct1" "c_thread ct1 = Receiving"
    "sent_psns w = sent_psns (s_wire st)" "requested_psns (c_wire ct1) = requested_psns (c_wire (cl_transaction cl))"
    using net_runs_check [OF start L cl idle ct] by blast
  define st1 where "st1 = st\<lparr>s_client_address := l_caddr L, s_cur_file_version := v, s_status := CHK, s_wire := w\<rparr>"
  have st1: "checked st1 ct1" "unat (s_new_file_size st1) = length bs" "server_inv st1"
    using 1(2) p by (simp_all add: st1_def checked_def prepared_def server_inv_def in_loop_def)
  obtain g w' ct2 where 2: "?runs (st1\<lparr>s_client_address := l_caddr L, s_inter_packet_gap := g, s_status := RDY, s_wire := w'\<rparr>)
      (Sending DATA) (cl\<lparr>cl_transaction := ct2\<rparr>)" "receiving bs st1 0 ct2" "c_thread ct2 = Receiving" "100 \<le> g" "g \<le> 300"
    "sent_psns w' = sent_psns (s_wire st1)" "requested_psns (c_wire ct2) = requested_psns (c_wire ct1)"
    using net_runs_ready [OF 1(1) [folded st1_def] L _ _ st1(2) ne st1(3)] st1(1) 1(3) by auto
  let ?st = "st1\<lparr>s_client_address := l_caddr L, s_inter_packet_gap := g, s_status := DATA, s_wire := w', s_thr := Opening\<rparr>"
  have "server_SendMessage (l_sock L) (l_senv L) DATA
      (st1\<lparr>s_client_address := l_caddr L, s_inter_packet_gap := g, s_status := RDY, s_wire := w'\<rparr>) = Inr ?st"
    using p by (simp add: server_SendMessage_def SendFileAsync_def st1_def prepared_def)
  from net_runs_send [OF 2(1) wf this] have "?runs ?st (Loading DATA) (cl\<lparr>cl_transaction := ct2\<rparr>)"
    by (simp add: after_send_def)
  from net_runs_load [OF this wf] have 3: "?runs ?st (Waiting DATA DATA) (cl\<lparr>cl_transaction := ct2\<rparr>)" by simp
  have "?st = st\<lparr>s_client_address := l_caddr L, s_inter_packet_gap := g, s_wire := w',
      s_cur_file_version := v, s_status := DATA, s_thr := Opening\<rparr>"
    by (simp add: st1_def)
  moreover have "sent_psns w' = sent_psns (s_wire st)" using 1(4) 2(6) by (simp add: st1_def)
  ultimately have "started st ?st"
    unfolding started_def using 2(4,5) by (intro exI conjI)
  moreover have "receiving bs ?st 0 ct2"
    using 2(2) by (simp add: receiving_def)
  ultimately show ?thesis using 3 2(3,7) 1(5) by (metis (no_types))
qed

subsection \<open>The whole transfer\<close>

lemma net_runs_start:
  assumes "port < 65536" "inet_addr (inet_ntoa a) = a"
    and "ServerTransaction_new \<lparr>sin_family = AF_INET, sin_port = htobe16 (of_nat port), s_addr = a\<rparr>
      p v (dev_id (d :: Device)) fs = Inr st" "Q p fs"
    and client: "cl = AttachFileHandler h (Client_new tmp csock tsock cv cfs [])"
  shows "net_runs inet_addr Q sock (inet_ntoa a) st (Sending NTF) cl"
proof -
  let ?f = "DefaultServerTransactionFactory_CreateTransaction"
  let ?n0 = "\<lparr>net_sv = Server_new sock ?f, net_calls = [], net_client = Client_new tmp csock tsock cv cfs []\<rparr>"
  let ?n1 = "?n0\<lparr>net_client := cl\<rparr>"
  have "net_init ?n0" unfolding net_init_def by blast
  then have "net_reachable inet_addr Q ?n0" by (rule reachable.reachable_init)
  moreover have "net_step inet_addr Q ?n0 ?n1"
    by (rule net_step.client_caller [where h = h]) (simp add: client)
  ultimately have 1: "net_reachable inet_addr Q ?n1" by (rule reachable.reachable_step)
  have "fs_exists p fs"
    using assms(3) by (auto simp: ServerTransaction_new_def fs_file_size_def fs_exists_def split: option.splits)
  then have enter: "StartFileTransfer_enter inet_addr fs (inet_ntoa a @ CHR '':'' # decimal port) p v d (net_sv ?n1) =
    Inr (\<lparr>call_ip = inet_ntoa a, call_tran = 0, call_pc = Sending NTF\<rparr>,
      (Server_new sock ?f)\<lparr>sv_heap := [st], sv_active_transactions := [inet_ntoa a \<mapsto> 0]\<rparr>)"
    using enter_canonical [of port p fs "net_sv ?n1" a d inet_addr v st] assms(1-3)
    by (simp add: Server_new_def DefaultServerTransactionFactory_CreateTransaction_def)
  have "net_step inet_addr Q ?n1 (?n1\<lparr>net_sv := (Server_new sock ?f)\<lparr>sv_heap := [st],
      sv_active_transactions := [inet_ntoa a \<mapsto> 0]\<rparr>, net_calls := net_calls ?n1 @
      [\<lparr>call_ip = inet_ntoa a, call_tran = 0, call_pc = Sending NTF\<rparr>]\<rparr>)"
    by (rule net_step.server_start [where n = ?n1 and Q = Q and p = p and fs = fs, OF enter assms(4)])
  then have "net_step inet_addr Q ?n1 (net_of sock (inet_ntoa a) st (Sending NTF) cl)"
    by (simp add: net_of_def one_transfer_def Server_new_def)
  with 1 show ?thesis by (rule reachable.reachable_step)
qed

lemma net_runs_finish:
  assumes run: "net_runs_from init inet_addr Q sock ip st (Erasing s) cl" and E: "wf_message (senv_stack (E :: senv))"
    and over: "ServerTransaction_delete_returns st"
  shows "\<exists>n c. reachable init (net_step inet_addr Q) n \<and> net_calls n = [c] \<and> call_pc c = Finished s \<and>
    sv_active_transactions (net_sv n) = Map.empty \<and> net_client n = cl \<and> sv_heap (net_sv n) = [st]"
proof -
  let ?c = "\<lparr>call_ip = ip, call_tran = 0, call_pc = Erasing s\<rparr>"
  let ?n = "net_of sock ip st (Erasing s) cl"
  let ?sv = "(net_sv ?n)\<lparr>sv_active_transactions := Map.empty\<rparr>"
  let ?n1 = "?n\<lparr>net_sv := ?sv, net_calls := [?c\<lparr>call_pc := Destroying s\<rparr>]\<rparr>"
  let ?n2 = "?n1\<lparr>net_sv := ?sv, net_calls := [?c\<lparr>call_pc := Finished s\<rparr>]\<rparr>"
  have "net_step inet_addr Q ?n (?n\<lparr>net_sv := ?sv, net_calls := (net_calls ?n)[0 := ?c\<lparr>call_pc := Destroying s\<rparr>]\<rparr>)"
    by (rule net_step.server_call [where E = E and timed_out = False])
      (use E in \<open>simp_all add: StartFileTransfer_step_def net_of_def one_transfer_def\<close>)
  then have 1: "net_step inet_addr Q ?n ?n1" by simp
  have "net_step inet_addr Q ?n1 (?n1\<lparr>net_sv := ?sv, net_calls := (net_calls ?n1)[0 := ?c\<lparr>call_pc := Finished s\<rparr>]\<rparr>)"
    by (rule net_step.server_call [where E = E and timed_out = False])
      (use E over in \<open>simp_all add: StartFileTransfer_step_def net_of_def one_transfer_def\<close>)
  then have 2: "net_step inet_addr Q ?n1 ?n2" by simp
  have "reachable init (net_step inet_addr Q) ?n2"
    using reachable.reachable_step [OF reachable.reachable_step [OF run 1] 2] .
  then show ?thesis
    by (rule_tac exI [of _ ?n2], rule_tac exI [of _ "?c\<lparr>call_pc := Finished s\<rparr>"])
      (simp add: net_of_def one_transfer_def)
qed

text \<open>The acknowledgement and what the server does with it.\<close>

lemma net_runs_acknowledged:
  assumes run: "net_runs inet_addr Q (l_sock L) (inet_ntoa (s_addr (l_caddr L))) st (Waiting DATA DATA) cl"
    and L: "good_link L" and d: "data_done bs L st0 (st, cl_transaction cl)" and st0: "s_status st0 = DATA"
  shows "\<exists>st' x. net_runs inet_addr Q (l_sock L) (inet_ntoa (s_addr (l_caddr L))) st' (Erasing FIN) cl \<and>
    s_thr st' = Returned \<and> server_image FIN (senv_stack (l_senv L)) x \<in> snd ` set (s_wire st') \<and>
    sent_psns (s_wire st') = sent_psns (s_wire st)"
proof -
  let ?runs = "net_runs inet_addr Q (l_sock L) (inet_ntoa (s_addr (l_caddr L)))" and ?ct = "cl_transaction cl"
  have wf: "wf_message (senv_stack (l_senv L))" using L by (simp add: good_link_def)
  obtain fin x where fin: "session_finish L (st, ?ct) = Inr (fin, ?ct)" "s_thr fin = Returned"
    "s_wire fin = s_wire st @ [(l_caddr L, server_image FIN (senv_stack (l_senv L)) x)]"
    using session_finish_result [OF L d st0] by auto
  obtain st1 where st1: "server_gets L (c_wire ?ct) st = st1" "s_status st1 = DONE"
    "server_SendMessage (l_sock L) (l_senv L) FIN st1 = Inr fin"
    using fin(1) by (auto simp: session_finish_def expect_def bind_result_eq_Inr split: if_splits)
  obtain y where y: "last (c_wire ?ct) = (l_saddr L, client_image DONE (env_stack (l_env L)) y)" "c_wire ?ct \<noteq> []"
    using d by (auto simp: data_done_def)
  then have wire: "c_wire ?ct = butlast (c_wire ?ct) @ [(l_saddr L, client_image DONE (env_stack (l_env L)) y)]"
    using append_butlast_last_id [OF y(2)] by simp
  have "?runs st1 (after_wait DATA (Some DONE)) cl"
    by (rule net_runs_answered [OF run L wire]) (use st1 in simp_all)
  then have "?runs st1 (Sending FIN) cl" by (simp add: after_wait_def)
  from net_runs_send [OF this wf st1(3)] have "?runs fin (Erasing FIN) cl"
    by (simp add: after_send_def)
  moreover have "server_image FIN (senv_stack (l_senv L)) x \<in> snd ` set (s_wire fin)"
    by (simp add: fin(3))
  moreover have "sent_psns (s_wire fin) = sent_psns (s_wire st)"
    by (simp add: fin(3))
  ultimately show ?thesis using fin(2) by blast
qed

text \<open>The packets after the last loss.\<close>

lemma net_runs_rest:
  assumes run: "net_runs inet_addr (serves_file bs) (l_sock L) (inet_ntoa (s_addr (l_caddr L))) st (Waiting DATA DATA) cl"
    and L: "good_link L" and tr: "transferable bs" and len: "length bs < 2 ^ 32"
    and at: "at_packet bs st0 a (st, cl_transaction cl)" and thr: "c_thread (cl_transaction cl) = Receiving"
    and inv: "server_inv st" and Q: "serves_file bs (s_file_path st) (senv_files (l_senv L))"
  shows "\<exists>st' ct'. net_runs inet_addr (serves_file bs) (l_sock L) (inet_ntoa (s_addr (l_caddr L))) st' (Waiting DATA DATA)
      (cl\<lparr>cl_transaction := ct'\<rparr>) \<and> data_done bs L st (st', ct') \<and> c_thread ct' = Receiving \<and>
    sent_psns (s_wire st') = sent_psns (s_wire st) @ [a ..< packets_of bs] \<and>
    requested_psns (c_wire ct') = requested_psns (c_wire (cl_transaction cl))"
proof -
  let ?runs = "net_runs inet_addr (serves_file bs) (l_sock L) (inet_ntoa (s_addr (l_caddr L)))"
  let ?cb = "Some (OnFileReceived cl)" and ?ct = "cl_transaction cl"
  have wf: "wf_message (senv_stack (l_senv L))" using L by (simp add: good_link_def)
  have w: "waits_at bs a st" "receiving bs st a ?ct" "s_new_file_crc32 st = CalculateCrc32 bs (length bs) 0"
    using at by (simp_all add: at_packet_def)
  have st: "unat (s_new_file_size st) = length bs" "a < packets_of bs"
    using w(1) by (simp_all add: waits_at_def holds_file_def)
  obtain i n where run1: "sender_run (l_sock L) (l_senv L) n st =
      Inr (advance st (s_total_packet_number st) Returned i
        (s_wire st @ map (data_datagram (senv_stack (l_senv L)) bs st) [a ..< packets_of bs]))"
    using waits_rest [OF w(1)] L unfolding good_link_def by blast
  obtain st' ct' where d: "session_data L ?cb n (st, ?ct) = Inr (st', ct')" "data_done bs L st (st', ct')"
    "sent_psns (s_wire st') = sent_psns (s_wire st) @ [a ..< packets_of bs]"
    "requested_psns (c_wire ct') = requested_psns (c_wire ?ct)"
    using session_data_ran [OF L tr run1 w(2) st(2,1) w(3), of ?cb] by auto
  have d': "sender_run (l_sock L) (l_senv L) n st = Inr st'"
    "client_feed ?cb (map (delivered L) (drop (length (s_wire st)) (s_wire st'))) ?ct = Inr ct'"
    using d(1) by (auto simp: session_data_def bind_result_eq_Inr)
  have 1: "?runs st' (Waiting DATA DATA) cl"
    using net_runs_sender [OF run d'(1) inv wf Q] by blast
  have sent: "sent_delivery st' x"
    if "x \<in> set (map (delivered L) (drop (length (s_wire st)) (s_wire st')))" for x
    using that delivered_sent [OF 1 len L] by (auto dest: in_set_dropD)
  have "?runs st' (Waiting DATA DATA) (cl\<lparr>cl_transaction := ct'\<rparr>)" "c_thread ct' = Receiving"
    using net_runs_feed [OF 1 _ _ _ sent, where ct' = ct' and
        ds = "map (delivered L) (drop (length (s_wire st)) (s_wire st'))"] d'(2) thr d(2)
    by (simp_all add: data_done_def acknowledged_def)
  then show ?thesis using d(2-4) by blast
qed

text \<open>From the notification to the first test of the sending thread's loop.\<close>

lemma net_runs_opened:
  assumes start: "net_runs inet_addr (serves_file bs) (l_sock L) (inet_ntoa (s_addr (l_caddr L))) st (Sending NTF) cl"
    and L: "good_link L" and p: "prepared bs L st" and tr: "transferable bs"
    and cl: "cl_thread cl = Main_Test" "cl_is_running cl"
    and idle: "\<not> client_IsAlive (cl_transaction cl)" "join_returns (cl_transaction cl)"
    and ct: "0 \<le> fd (c_udp_socket (cl_transaction cl))"
      "tmp_readable (temp_file (env_tmp (l_env L))) (c_files (cl_transaction cl))"
  shows "\<exists>st1 ct1. net_runs inet_addr (serves_file bs) (l_sock L) (inet_ntoa (s_addr (l_caddr L))) st1 (Waiting DATA DATA)
      (cl\<lparr>cl_transaction := ct1\<rparr>) \<and>
    at_packet bs st 0 (st1, ct1) \<and> c_thread ct1 = Receiving \<and> server_inv st1 \<and>
    serves_file bs (s_file_path st1) (senv_files (l_senv L)) \<and>
    sent_psns (s_wire st1) = sent_psns (s_wire st) \<and>
    requested_psns (c_wire ct1) = requested_psns (c_wire (cl_transaction cl))"
proof -
  let ?runs = "net_runs inet_addr (serves_file bs) (l_sock L) (inet_ntoa (s_addr (l_caddr L)))"
  have wf: "wf_message (senv_stack (l_senv L))" using L by (simp add: good_link_def)
  have ne: "bs \<noteq> []" and pos: "0 < packets_of bs"
    using tr unfolding transferable_def packets_of_def by auto
  obtain st1 ct1 where h: "?runs st1 (Waiting DATA DATA) (cl\<lparr>cl_transaction := ct1\<rparr>)" "receiving bs st1 0 ct1"
    "c_thread ct1 = Receiving" "started st st1"
    "requested_psns (c_wire ct1) = requested_psns (c_wire (cl_transaction cl))"
    using net_runs_handshake [OF start L p ne cl idle ct] by blast
  have status: "s_status st1 = DATA" using h(4) by (auto simp: started_def)
  have st1: "server_inv st1" "s_status st1 = DATA" "s_retransmit_psn st1 = no_rtx"
    "unat (s_new_file_size st1) = length bs" "unat (s_total_packet_number st1) = packets_of bs"
    "s_new_file_crc32 st1 = CalculateCrc32 bs (length bs) 0" "s_file_path st1 = s_file_path st"
    "s_new_file_version st1 = s_new_file_version st"
    using started_same [OF h(4)] status p by (simp_all add: prepared_def server_inv_def in_loop_def)
  obtain f where f: "senv_files (l_senv L) (s_file_path st1) = Some f" "readable f" "content f = bs"
    using p st1(7) by (auto simp: prepared_def)
  then have Q: "serves_file bs (s_file_path st1) (senv_files (l_senv L))"
    by (auto simp: serves_file_def)
  obtain st2 where st2: "sender_step (l_sock L) (l_senv L) st1 = Inr st2" "at_packet bs st1 0 (st2, ct1)"
    "s_wire st2 = s_wire st1"
    using opened_at [OF st1(1) started_same(8) [OF h(4)] st1(2-6) f pos h(2)] by blast
  have "sender_run (l_sock L) (l_senv L) 1 st1 = Inr st2" using st2(1) by simp
  from net_runs_sender [OF h(1) this st1(1) wf Q]
  have 2: "?runs st2 (Waiting DATA DATA) (cl\<lparr>cl_transaction := ct1\<rparr>)" "s_file_path st2 = s_file_path st1" by blast+
  have "at_packet bs st 0 (st2, ct1)" using st2(2) st1(8) by (simp add: at_packet_def)
  then show ?thesis
    using 2 h(3,5) Q st2(3) started_same(11) [OF h(4)] sender_step_inv [OF st2(1) st1(1)]
    by (intro exI [of _ st2] exI [of _ ct1]) simp
qed

text \<open>From the notification to \<open>FIN\<close>, with losses that are noticed.\<close>

lemma net_runs_data:
  assumes start: "net_runs inet_addr (serves_file bs) (l_sock L) (inet_ntoa (s_addr (l_caddr L))) st (Sending NTF) cl"
    and L: "good_link L" and p: "prepared bs L st" and tr: "transferable bs" and len: "length bs < 2 ^ 32"
    and cl: "cl_thread cl = Main_Test" "cl_is_running cl"
    and idle: "\<not> client_IsAlive (cl_transaction cl)" "join_returns (cl_transaction cl)"
    and ct: "0 \<le> fd (c_udp_socket (cl_transaction cl))"
      "tmp_readable (temp_file (env_tmp (l_env L))) (c_files (cl_transaction cl))"
    and ls: "noticed (packets_of bs) 0 ls"
  shows "\<exists>st' ct' x. net_runs inet_addr (serves_file bs) (l_sock L) (inet_ntoa (s_addr (l_caddr L))) st' (Erasing FIN)
      (cl\<lparr>cl_transaction := ct'\<rparr>) \<and>
    acknowledged bs st ct' \<and> c_thread ct' = Receiving \<and> s_thr st' = Returned \<and>
    server_image FIN (senv_stack (l_senv L)) x \<in> snd ` set (s_wire st') \<and>
    sent_psns (s_wire st') = sent_psns (s_wire st) @ psns_with_losses (packets_of bs) 0 ls \<and>
    requested_psns (c_wire ct') = requested_psns (c_wire (cl_transaction cl)) @ requests_for ls"
proof -
  let ?runs = "net_runs inet_addr (serves_file bs) (l_sock L) (inet_ntoa (s_addr (l_caddr L)))"
  let ?cb = "Some (OnFileReceived cl)" and ?cl = "\<lambda>ct. cl\<lparr>cl_transaction := ct\<rparr>"
  obtain st2 ct1 where 2: "?runs st2 (Waiting DATA DATA) (?cl ct1)" "at_packet bs st 0 (st2, ct1)"
    "c_thread ct1 = Receiving" "server_inv st2" "serves_file bs (s_file_path st2) (senv_files (l_senv L))"
    "sent_psns (s_wire st2) = sent_psns (s_wire st)"
    "requested_psns (c_wire ct1) = requested_psns (c_wire (cl_transaction cl))"
    using net_runs_opened [OF start L p tr cl idle ct] by blast
  obtain rs st3 ct3 a where r: "lossy_rounds L ?cb rs (st2, ct1) = Inr (st3, ct3)" "at_packet bs st a (st3, ct3)"
    "sent_psns (s_wire st3) @ [a ..< packets_of bs] = sent_psns (s_wire st2) @ psns_with_losses (packets_of bs) 0 ls"
    "requested_psns (c_wire ct3) = requested_psns (c_wire ct1) @ requests_for ls"
    using lossy_rounds_result [OF L tr 2(2) ls, of ?cb] by auto
  have w: "receiving bs st3 a ct3" "s_new_file_version st3 = s_new_file_version st" "s_status st3 = DATA"
    using r(2) by (simp_all add: at_packet_def waits_at_def holds_file_def)
  have 3: "?runs st3 (Waiting DATA DATA) (?cl ct3)" "c_thread ct3 = Receiving" "server_inv st3"
    "serves_file bs (s_file_path st3) (senv_files (l_senv L))"
    using net_runs_rounds [OF L len 2(1) _ 2(4), of rs st3 ct3] 2(3,5) r(1) w(1)
    by (simp_all add: receiving_def)
  obtain st4 ct4 where 4: "?runs st4 (Waiting DATA DATA) (?cl ct4)" "data_done bs L st3 (st4, ct4)" "c_thread ct4 = Receiving"
    "sent_psns (s_wire st4) = sent_psns (s_wire st) @ psns_with_losses (packets_of bs) 0 ls"
    "requested_psns (c_wire ct4) = requested_psns (c_wire (cl_transaction cl)) @ requests_for ls"
    using net_runs_rest [OF 3(1) L tr len _ _ 3(3,4), of st a] r(2-4) 3(2) 2(6,7) by auto
  have "acknowledged bs st ct4"
    using 4(2) w(2) by (simp add: data_done_def acknowledged_def)
  then show ?thesis
    using net_runs_acknowledged [OF 4(1) L _ w(3), of bs] 4(2-5) by (auto simp: acknowledged_def)
qed

text \<open>The complete transfer: the call returns \<open>FIN\<close>, the client's file handler gets the file.\<close>

lemma network_transfer:
  assumes call: "port < 65536" "inet_addr (inet_ntoa (s_addr (l_caddr L))) = s_addr (l_caddr L)"
    and new: "ServerTransaction_new
        \<lparr>sin_family = AF_INET, sin_port = htobe16 (of_nat port), s_addr = s_addr (l_caddr L)\<rparr>
        p v (dev_id (d :: Device)) (senv_files (l_senv L)) = Inr st"
    and f: "senv_files (l_senv L) p = Some f" "readable f" "length (content f) + 1407 < 2 ^ 32"
    and L: "good_link L" and tr: "transferable (content f)" and ls: "noticed (packets_of (content f)) 0 ls"
    and client: "0 \<le> fd (tsock :: UdpSocket)" "tmp_readable (temp_file (env_tmp (l_env L))) cfs"
    and h: "\<And>q fs. \<exists>fs'. (h :: file_handler) q v fs = Inr fs'"
  shows "\<exists>n c st' q fs g. net_reachable inet_addr (serves_file (content f)) n \<and>
    net_calls n = [c] \<and> call_pc c = Finished FIN \<and> sv_active_transactions (net_sv n) = Map.empty \<and>
    sv_heap (net_sv n) = [st'] \<and> sent_psns (s_wire st') = psns_with_losses (packets_of (content f)) 0 ls \<and>
    requested_psns (c_wire (net_tran n)) = requests_for ls \<and>
    c_status (net_tran n) = FIN \<and>
    fs q = Some g \<and> content g = content f \<and> h q v fs = Inr (c_files (net_tran n))"
proof -
  define cl where "cl = AttachFileHandler h (Client_new tmp csock tsock cv cfs [])"
  let ?runs = "net_runs inet_addr (serves_file (content f)) (l_sock L) (inet_ntoa (s_addr (l_caddr L)))"
  have wf: "wf_message (senv_stack (l_senv L))" "wf_message (l_cj L)" "wf_message (env_stack (l_env L))"
    using L by (simp_all add: good_link_def good_env_def)
  have len: "length (content f) < 2 ^ 32" using f(3) by simp
  have cl: "cl_thread cl = Main_Test" "cl_is_running cl" "\<not> client_IsAlive (cl_transaction cl)"
    "join_returns (cl_transaction cl)" "0 \<le> fd (c_udp_socket (cl_transaction cl))"
    "tmp_readable (temp_file (env_tmp (l_env L))) (c_files (cl_transaction cl))"
    using client by (simp_all add: cl_def AttachFileHandler_def Client_new_def ClientTransaction_new_def
        client_IsAlive_def join_returns_def)
  have handler: "OnFileReceived cl = h"
    by (simp add: cl_def AttachFileHandler_def OnFileReceived_def fun_eq_iff)
  have "serves_file (content f) p (senv_files (l_senv L))" using f(1) by (simp add: serves_file_def)
  from net_runs_start [where Q = "serves_file (content f)" and inet_addr = inet_addr and d = d and
      sock = "l_sock L", OF call new this cl_def]
  have 1: "?runs st (Sending NTF) cl" .
  have p: "prepared (content f) L st"
    by (rule prepared_new [OF new f(1,2) refl f(3)])
  obtain st' ct' x where t: "?runs st' (Erasing FIN) (cl\<lparr>cl_transaction := ct'\<rparr>)"
    "acknowledged (content f) st ct'" "c_thread ct' = Receiving" "s_thr st' = Returned"
    "server_image FIN (senv_stack (l_senv L)) x \<in> snd ` set (s_wire st')"
    "sent_psns (s_wire st') = sent_psns (s_wire st) @ psns_with_losses (packets_of (content f)) 0 ls"
    "requested_psns (c_wire ct') = requested_psns (c_wire (cl_transaction cl)) @ requests_for ls"
    using net_runs_data [OF 1 L p tr len cl ls] by blast
  have ver: "s_new_file_version st = v" and wires: "s_wire st = []" "c_wire (cl_transaction cl) = []"
    using new by (auto simp: ServerTransaction_new_def bind_result_eq_Inr cl_def AttachFileHandler_def
        Client_new_def ClientTransaction_new_def)
  obtain fs' where fs': "h (c_new_file_path ct') v (c_files ct') = Inr fs'" using h by blast
  let ?img = "server_image FIN (senv_stack (l_senv L)) x"
  let ?ct = "ct'\<lparr>c_server_address := l_saddr L, c_status := FIN, c_is_active := False, c_files := fs'\<rparr>"
  have rec: "client_OnReceive Transaction_Thread (Some (OnFileReceived (cl\<lparr>cl_transaction := ct'\<rparr>))) (l_env L)
      (recv_into (l_cj L) ?img) (recv_len ?img) (l_saddr L) (cl_transaction (cl\<lparr>cl_transaction := ct'\<rparr>)) = Inr ?ct"
    using client_gets_FIN [OF wf(1,2) t(2), of "Some h" "l_env L" x "l_saddr L"] fs' ver by (simp add: handler)
  have "?runs st' (Erasing FIN) (cl\<lparr>cl_transaction := ct', cl_transaction := ?ct\<lparr>c_thread := Loop_Test\<rparr>\<rparr>)"
    by (rule net_runs_body [OF t(1) _ rec t(5) server_image_nonempty [OF wf(1)] wf(2,3)]) (simp add: t(3))
  from net_runs_finish [OF this wf(1)] t(4) obtain n c where n: "net_reachable inet_addr (serves_file (content f)) n"
    "net_calls n = [c]" "call_pc c = Finished FIN" "sv_active_transactions (net_sv n) = Map.empty"
    "net_client n = cl\<lparr>cl_transaction := ct', cl_transaction := ?ct\<lparr>c_thread := Loop_Test\<rparr>\<rparr>"
    "sv_heap (net_sv n) = [st']"
    by (auto simp: ServerTransaction_delete_returns_def)
  obtain g where "c_files ct' (c_new_file_path ct') = Some g" "content g = content f"
    using t(2) by (auto simp: acknowledged_def)
  then show ?thesis
    using n fs' t(6,7) wires by (intro exI [of _ n] exI [of _ c] exI [of _ st'] exI [of _ "c_new_file_path ct'"] exI [of _ "c_files ct'"]
        exI [of _ g]) simp
qed

end
