(* ===== verification/Network_Samples.thy ===== *)
theory Network_Samples
  imports Network_Schedule Long_Sample
begin

text \<open>
  A complete transfer on the network, for the witnesses: the file of four packets, a handler
  that accepts every file.
\<close>

definition accepting_handler :: file_handler where
  "accepting_handler p v fs = Inr fs"

lemma sample_network:
  "\<exists>n c st' q fs g. net_reachable sample_inet_addr (serves_file long_file) n \<and>
    net_calls n = [c] \<and> call_pc c = Finished FIN \<and> sv_active_transactions (net_sv n) = Map.empty \<and>
    sv_heap (net_sv n) = [st'] \<and> sent_psns (s_wire st') = [0, 1, 2, 1, 2, 3] \<and>
    requested_psns (c_wire (net_tran n)) = [1] \<and>
    c_status (net_tran n) = FIN \<and>
    fs q = Some g \<and> content g = long_file \<and> accepting_handler q 1 fs = Inr (c_files (net_tran n))"
  using network_transfer [where inet_addr = sample_inet_addr and port = 4000 and ls = "[(1, 3)]" and L = long_link
      and h = accepting_handler and tsock = sample_sock and cfs = Map.empty, OF _ long_call]
  by (simp add: accepting_handler_def tmp_readable_def sample_sock_def del: psns_with_losses.simps requests_for.simps)

end
