(* ===== verification/Network_Messages.thy ===== *)
theory Network_Messages
  imports Network_File
begin

text \<open>
  The form of the datagrams on the network: their lengths and which of them pass the checks of
  the receivers.
\<close>

lemma send_image_length:
  "wf_message m \<Longrightarrow> len \<le> 1440 \<Longrightarrow> length (send_image m len) = len"
  by (simp add: send_image_def)

text \<open>A datagram of the server passes the client's check, the full last packet of a file apart.\<close>

definition full_last_packet :: "byte list \<Rightarrow> TrftpMessage \<Rightarrow> bool" where
  "full_last_packet bs msg \<longleftrightarrow> length bs mod 1408 = 0 \<and>
     message_id (xid (header msg)) = DATA \<and> Suc (unat (psn (header msg))) = packets_of bs"

lemma server_datagram_form:
  assumes "server_datagram bs d" "wf_message m"
  shows "32 \<le> length d" "length d \<le> 1440"
    and "client_ValidateMessageIntegrity (recv_into m d) (length d) \<longleftrightarrow> \<not> full_last_packet bs (recv_into m d)"
proof -
  obtain st j where st: "wf_message j" "unat (s_new_file_size st) = length bs"
    and d: "(\<exists>k < packets_of bs. d = snd (data_datagram j bs st k)) \<or>
      (\<exists>i \<in> {NTF, INFO, FIN, CXL}. d = server_image i j st)"
    using assms(1) unfolding server_datagram_def by blast
  have "32 \<le> length d \<and> length d \<le> 1440 \<and>
    (client_ValidateMessageIntegrity (recv_into m d) (length d) \<longleftrightarrow> \<not> full_last_packet bs (recv_into m d))"
    using d
  proof
    assume "\<exists>k < packets_of bs. d = snd (data_datagram j bs st k)"
    then obtain k where k: "k < packets_of bs" "d = snd (data_datagram j bs st k)" by blast
    have l: "length d = 32 + slice_len (length bs) k"
      unfolding k(2) data_datagram_def snd_conv
      by (rule send_image_length) (use st(1) slice_len_le [of "length bs" k] in \<open>simp_all add: data_packet_def\<close>)
    have r: "recv_into m d = recv_packet m j bs st k"
      using k(2) by (simp add: recv_packet_def)
    note h = recv_packet_header [OF st(1) assms(2) st(2) k(1)]
    have "client_ValidateMessageIntegrity (recv_into m d) (length d) \<longleftrightarrow>
        Suc k \<noteq> packets_of bs \<or> length bs mod 1408 \<noteq> 0"
      unfolding r l using data_packet_accepted [OF st(1) assms(2) st(2)] k(1) by (simp add: packets_of_def)
    then show ?thesis
      using l slice_len_le [of "length bs" k] h(1,2) by (auto simp: full_last_packet_def r)
  next
    assume "\<exists>i \<in> {NTF, INFO, FIN, CXL}. d = server_image i j st"
    then obtain i where i: "i \<in> {NTF, INFO, FIN, CXL}" "d = server_image i j st" by blast
    have l: "length d = 32 + fst (server_payload i st)"
      unfolding i(2) server_image_def
      by (rule send_image_length) (use st(1) wf_server_control server_payload_length [of i st] in simp_all)
    have "listed i" using i(1) by auto
    then have "message_id (xid (header (recv_into m d))) \<noteq> DATA"
      using server_image_received(2) [OF st(1) assms(2)] i by auto
    then show ?thesis
      using server_image_received(1) [OF st(1) assms(2)] server_payload_length(2) [of i st] l i(2)
      by (simp add: full_last_packet_def)
  qed
  then show "32 \<le> length d" "length d \<le> 1440"
    and "client_ValidateMessageIntegrity (recv_into m d) (length d) \<longleftrightarrow> \<not> full_last_packet bs (recv_into m d)"
    by blast+
qed

lemma net_server_sent:
  "net_reachable inet_addr (serves_file bs) n \<Longrightarrow> length bs < 2 ^ 32 \<Longrightarrow> d \<in> server_sent n \<Longrightarrow> server_datagram bs d"
  by (drule net_reachable_file_inv, assumption) (auto simp: net_file_inv_def tran_serves_def server_sent_def)

text \<open>A datagram of the client passes the server's check.\<close>

lemma client_datagram_form:
  assumes "net_reachable inet_addr Q n" "d \<in> client_sent n" "wf_message m"
  shows "32 \<le> length d" "length d \<le> 44" "server_ValidateMessageIntegrity (recv_into m d) (length d)"
    and "message_id (xid (header (recv_into m d))) \<in> {CHK, RDY, RTX, DONE, CXL}"
proof -
  obtain i j x where i: "i \<in> {CHK, RDY, RTX, DONE, CXL}" "wf_message j" "d = client_image i j x"
    using client_sent_truthful [OF assms(1,2)] unfolding truthful_def by blast
  have l: "length d = 32 + fst (client_payload i x)"
    unfolding i(3) client_image_def
    by (rule send_image_length) (use i(2) wf_client_message client_payload_length [of i x] in simp_all)
  show "32 \<le> length d" "length d \<le> 44" using l client_payload_length(2) [of i x] by simp_all
  show "server_ValidateMessageIntegrity (recv_into m d) (length d)"
    unfolding l unfolding i(3) by (rule client_image_received(1) [OF i(2) assms(3)])
  have "listed i" using i(1) by auto
  then show "message_id (xid (header (recv_into m d))) \<in> {CHK, RDY, RTX, DONE, CXL}"
    using client_image_received(2) [OF i(2) assms(3), of i x] i(1,3) by simp
qed

section \<open>What FIN tells\<close>

text \<open>At some moment before, the client was about to hand over the file of the call.\<close>

abbreviation stored_before ::
  "(string \<Rightarrow> u32) \<Rightarrow> byte list \<Rightarrow> start_call \<Rightarrow> network \<Rightarrow> bool" where
  "stored_before inet_addr bs c n \<equiv> earlier inet_addr (serves_file bs)
    (\<lambda>n0. c_status (net_tran n0) = DONE \<and>
       c_new_file_version (net_tran n0) = s_new_file_version (sv_heap (net_sv n) ! call_tran c) \<and>
       (\<exists>f. c_files (net_tran n0) (c_new_file_path (net_tran n0)) = Some f \<and> content f = bs)) n"

lemma net_FIN_stored:
  assumes "length bs < 2 ^ 32" "net_reachable inet_addr (serves_file bs) n"
    and "c \<in> set (net_calls n)" "call_pc c = Finished FIN"
  shows "stored_before inet_addr bs c n"
proof -
  have "told inet_addr (serves_file bs) n (sv_heap (net_sv n) ! call_tran c)"
    using net_reachable_agree [OF assms(2)] assms(3,4) by (simp add: net_agree_def)
  then show ?thesis
    unfolding told_def by (rule earlier_mono) (use net_DONE [OF _ assms(1)] in \<open>simp add: verified_def\<close>)
qed

end
