(* ===== verification/Prompt_Answer.thy ===== *)
theory Prompt_Answer
  imports Network_Schedule
begin

text \<open>
  The network when nothing is lost and every datagram arrives at once: the client acknowledges
  the last packet while the sending thread sleeps for a second with this packet not yet
  counted, and the server drops the acknowledgement. Then the server waits for a message that
  the client does not send again, until the client's time-out cancels the transfer.
\<close>

text \<open>The time-out of the client's socket on the network.\<close>

lemma net_runs_timeout:
  assumes run: "net_runs_from init inet_addr Q sock ip st pc cl" and E: "good_env E"
    and cl: "c_thread (cl_transaction cl) = Receiving" "0 \<le> fd (c_udp_socket (cl_transaction cl))"
  shows "\<exists>ct. net_runs_from init inet_addr Q sock ip st pc (cl\<lparr>cl_transaction := ct\<rparr>) \<and> c_status ct = CXL \<and>
    c_files ct = c_files (cl_transaction cl) \<and>
    c_wire ct = c_wire (cl_transaction cl) @
      [(c_server_address (cl_transaction cl), client_image CXL (env_stack E) (cl_transaction cl))]"
proof -
  have env: "EAGAIN \<in> {EAGAIN, EWOULDBLOCK, EINTR}" "0 \<le> env_sendto E" "wf_message (env_stack E)"
    using E by (simp_all add: good_env_def)
  obtain ct where ct: "client_loop_body (Some (OnFileReceived cl)) E (Recv_Failed EAGAIN) (env_stack E)
      (c_server_address (cl_transaction cl)) (cl_transaction cl) = Inr ct" "c_status ct = CXL"
    "c_wire ct = c_wire (cl_transaction cl) @
      [(c_server_address (cl_transaction cl), client_image CXL (env_stack E) (cl_transaction cl))]"
    "c_files ct = c_files (cl_transaction cl)"
    using client_timeout [OF env(1,2) cl(2)] by blast
  let ?n = "net_of sock ip st pc cl"
  have "net_step inet_addr Q ?n (?n\<lparr>net_client := (net_client ?n)\<lparr>cl_transaction := ct\<rparr>\<rparr>)"
    by (rule net_step.tran_receives [where ev = "Recv_Failed EAGAIN" and E = E and m = "env_stack E"
          and a = "c_server_address (cl_transaction cl)"])
      (use ct(1) cl(1) env(3) in simp_all)
  from net_runs_client [OF run] this show ?thesis using ct(2-4) by auto
qed

text \<open>From a thread that has only to return, and a client that times out, to the end of the call.\<close>

lemma net_runs_cancelled:
  assumes run: "net_runs_from init inet_addr Q (l_sock L) (inet_ntoa (s_addr (l_caddr L))) st (Waiting DATA DATA) cl"
    and L: "good_link L" and fin: "finishing st" "s_thr st = Tail_Wait" and inv: "server_inv st"
    and Q: "Q (s_file_path st) (senv_files (l_senv L))"
    and cl: "c_thread (cl_transaction cl) = Receiving" "0 \<le> fd (c_udp_socket (cl_transaction cl))"
  shows "\<exists>n c st' a x. reachable init (net_step inet_addr Q) n \<and> net_calls n = [c] \<and> call_pc c = Finished CXL \<and>
    sv_active_transactions (net_sv n) = Map.empty \<and> sv_heap (net_sv n) = [st'] \<and> s_wire st' = s_wire st \<and>
    c_status (net_tran n) = CXL \<and> c_files (net_tran n) = c_files (cl_transaction cl) \<and>
    c_wire (net_tran n) = c_wire (cl_transaction cl) @ [(a, client_image CXL (env_stack (l_env L)) x)]"
proof -
  let ?runs = "net_runs_from init inet_addr Q (l_sock L) (inet_ntoa (s_addr (l_caddr L)))"
  have wf: "wf_message (senv_stack (l_senv L))" "wf_message (l_j L)" "wf_message (env_stack (l_env L))"
    and E: "good_env (l_env L)"
    using L by (simp_all add: good_link_def good_env_def)
  obtain st2 where st2: "sender_run (l_sock L) (l_senv L) 3 st = Inr st2" "s_thr st2 = Returned"
    using finishing_returns [OF fin] by blast
  have rest: "s_status st2 = DATA" "s_wire st2 = s_wire st"
    using finishing_run [OF fin(1) st2(1)] by (simp_all add: finishing_def)
  have 1: "?runs st2 (Waiting DATA DATA) cl"
    using net_runs_sender [OF run st2(1) inv wf(1) Q] by blast
  let ?img = "client_image CXL (env_stack (l_env L)) (cl_transaction cl)"
  obtain ct where ct: "?runs st2 (Waiting DATA DATA) (cl\<lparr>cl_transaction := ct\<rparr>)" "c_status ct = CXL"
    "c_files ct = c_files (cl_transaction cl)"
    "c_wire ct = c_wire (cl_transaction cl) @ [(c_server_address (cl_transaction cl), ?img)]"
    using net_runs_timeout [OF 1 E cl] by blast
  let ?st = "st2\<lparr>s_client_address := l_caddr L, s_status := CXL\<rparr>"
  have "?runs (server_OnReceive (recv_into (l_j L) ?img) (recv_len ?img) (l_caddr L) st2) (Waiting DATA DATA)
      (cl\<lparr>cl_transaction := ct\<rparr>)"
    by (rule net_runs_receive [OF ct(1) _ client_image_nonempty [OF wf(3)] wf(2)]) (simp add: ct(4))
  then have "?runs ?st (Waiting DATA DATA) (cl\<lparr>cl_transaction := ct\<rparr>)"
    using server_gets_CXL [OF wf(3,2)] by simp
  from net_runs_wait [OF this wf(1)] have "?runs ?st (Erasing CXL) (cl\<lparr>cl_transaction := ct\<rparr>)"
    by (simp add: after_wait_def)
  from net_runs_finish [OF this wf(1)] obtain n c where n: "reachable init (net_step inet_addr Q) n"
    "net_calls n = [c]" "call_pc c = Finished CXL" "sv_active_transactions (net_sv n) = Map.empty"
    "net_client n = cl\<lparr>cl_transaction := ct\<rparr>" "sv_heap (net_sv n) = [?st]"
    using st2(2) by (auto simp: ServerTransaction_delete_returns_def)
  then show ?thesis
    using ct(2-4) rest(2) by (intro exI [of _ n] exI [of _ c] exI [of _ ?st] exI) (auto intro!: exI)
qed

text \<open>The whole execution.\<close>

lemma network_prompt_answer:
  assumes call: "port < 65536" "inet_addr (inet_ntoa (s_addr (l_caddr L))) = s_addr (l_caddr L)"
    and new: "ServerTransaction_new
        \<lparr>sin_family = AF_INET, sin_port = htobe16 (of_nat port), s_addr = s_addr (l_caddr L)\<rparr>
        p v (dev_id (d :: Device)) (senv_files (l_senv L)) = Inr st"
    and f: "senv_files (l_senv L) p = Some f" "readable f" "length (content f) + 1407 < 2 ^ 32"
    and L: "good_link L" and tr: "transferable (content f)"
    and client: "0 \<le> fd (tsock :: UdpSocket)" "tmp_readable (temp_file (env_tmp (l_env L))) cfs"
  shows "\<exists>n st' cl. net_reachable inet_addr (serves_file (content f)) n \<and>
    n = net_of (l_sock L) (inet_ntoa (s_addr (l_caddr L))) st' (Waiting DATA DATA) cl \<and>
    finishing st' \<and> s_thr st' = Tail_Wait \<and> server_inv st' \<and>
    serves_file (content f) (s_file_path st') (senv_files (l_senv L)) \<and>
    sent_psns (s_wire st') = [0 ..< packets_of (content f)] \<and>
    acknowledged (content f) st (cl_transaction cl) \<and> c_thread (cl_transaction cl) = Receiving \<and>
    requested_psns (c_wire (cl_transaction cl)) = [] \<and> OnFileReceived cl = h \<and>
    (\<exists>ws x. c_wire (cl_transaction cl) = ws @ [(l_saddr L, client_image DONE (env_stack (l_env L)) x)])"
proof -
  define cl where "cl = AttachFileHandler h (Client_new tmp csock tsock cv cfs [])"
  let ?runs = "net_runs inet_addr (serves_file (content f)) (l_sock L) (inet_ntoa (s_addr (l_caddr L)))"
  have wf: "wf_message (env_stack (l_env L))"
    using L by (simp add: good_link_def good_env_def)
  have len: "length (content f) < 2 ^ 32" using f(3) by simp
  have cl: "cl_thread cl = Main_Test" "cl_is_running cl" "\<not> client_IsAlive (cl_transaction cl)"
    "join_returns (cl_transaction cl)" "0 \<le> fd (c_udp_socket (cl_transaction cl))"
    "tmp_readable (temp_file (env_tmp (l_env L))) (c_files (cl_transaction cl))"
    using client by (simp_all add: cl_def AttachFileHandler_def Client_new_def ClientTransaction_new_def
        client_IsAlive_def join_returns_def)
  have handler: "OnFileReceived (cl\<lparr>cl_transaction := ct\<rparr>) = h" for ct
    by (simp add: cl_def AttachFileHandler_def OnFileReceived_def fun_eq_iff)
  have wires: "s_wire st = []" "c_wire (cl_transaction cl) = []"
    using new by (auto simp: ServerTransaction_new_def bind_result_eq_Inr cl_def AttachFileHandler_def
        Client_new_def ClientTransaction_new_def)
  have "serves_file (content f) p (senv_files (l_senv L))" using f(1) by (simp add: serves_file_def)
  from net_runs_start [where Q = "serves_file (content f)" and inet_addr = inet_addr and d = d and
      sock = "l_sock L", OF call new this cl_def]
  have 1: "?runs st (Sending NTF) cl" .
  obtain st1 ct1 where 2: "?runs st1 (Waiting DATA DATA) (cl\<lparr>cl_transaction := ct1\<rparr>)"
    "at_packet (content f) st 0 (st1, ct1)" "c_thread ct1 = Receiving" "server_inv st1"
    "serves_file (content f) (s_file_path st1) (senv_files (l_senv L))"
    "sent_psns (s_wire st1) = []" "requested_psns (c_wire ct1) = []"
    using net_runs_opened [OF 1 L prepared_new [OF new f(1,2) refl f(3)] tr cl] by (auto simp: wires)
  obtain m st2 ct2 x where 3: "lossy_round L (Some (OnFileReceived cl)) (m, {}) (st1, ct1) = Inr (st2, ct2)"
    "acknowledged (content f) st ct2" "finishing st2" "s_thr st2 = Tail_Wait"
    "sent_psns (s_wire st2) = sent_psns (s_wire st1) @ [0 ..< packets_of (content f)]"
    "c_wire ct2 = c_wire ct1 @ [(l_saddr L, client_image DONE (env_stack (l_env L)) x)]"
    using prompt_round [OF L tr 2(2), of "Some (OnFileReceived cl)"] by blast
  let ?cl = "cl\<lparr>cl_transaction := ct2\<rparr>"
  have 4: "?runs st2 (Waiting DATA DATA) ?cl" "c_thread ct2 = Receiving" "server_inv st2"
    "s_file_path st2 = s_file_path st1"
    using net_runs_round [OF L len 2(1) _ 2(4,5), of "(m, {})" st2 ct2] 2(3) 3(1,2)
    by (simp_all add: acknowledged_def)
  have "requested_psns (c_wire ct2) = []"
    by (simp add: 3(6) 2(7) requested_psns_image [OF wf])
  then show ?thesis
    using 4 3(2-6) 2(5,6) handler by (intro exI [of _ "net_of (l_sock L) (inet_ntoa (s_addr (l_caddr L))) st2 (Waiting DATA DATA) ?cl"]
        exI [of _ st2] exI [of _ ?cl]) auto
qed

end
