(* ===== verification/Network_Properties.thy ===== *)
theory Network_Properties
  imports Network_Samples Network_Messages Prompt_Answer
begin

text \<open>
  The properties of a whole server and a whole client on a network that loses, repeats,
  reorders, delays and damages datagrams.
\<close>

section \<open>Agreement\<close>

text \<open>C1: A server and a client on any such network, a file of fewer than \<open>2 ^ 32\<close> bytes that does
  not change, any number of calls of \<^verbatim>\<open>StartFileTransfer\<close> for it, in any order of the threads: if a call has returned
  \<open>FIN\<close>, then at some moment before the client was in status \<open>DONE\<close> for the version of that call
  and the file it was about to hand over was, byte for byte, the file of the server.\<close>

theorem network_FIN_means_stored:
  assumes "length bs < 2 ^ 32" "net_reachable inet_addr (serves_file bs) n"
    and "c \<in> set (net_calls n)" "call_pc c = Finished FIN"
  shows "stored_before inet_addr bs c n"
  by (rule net_FIN_stored [OF assms])

theorem network_FIN_means_stored_witness:
  "\<exists>n (c :: start_call). net_reachable sample_inet_addr (serves_file long_file) n \<and>
    c \<in> set (net_calls n) \<and> call_pc c = Finished FIN \<and>
    stored_before sample_inet_addr long_file c n"
proof -
  obtain n c where n: "net_reachable sample_inet_addr (serves_file long_file) n" "c \<in> set (net_calls n)"
    "call_pc c = Finished FIN"
    using sample_network by (auto simp: in_set_conv_nth)
  show ?thesis
    using network_FIN_means_stored [OF _ n] n by (intro exI [of _ n] exI [of _ c]) simp
qed

text \<open>C3: Whatever files the transfers are of, and even if these change while they are sent: if a
  call has returned \<open>FIN\<close>, then at some moment before the client was in status \<open>DONE\<close> for the
  version of that call, and the file it was about to hand over had the size and the checksum
  that the call had announced.\<close>

theorem acknowledged_transfer_is_verified:
  assumes "net_reachable inet_addr Q n" "c \<in> set (net_calls n)" "call_pc c = Finished FIN"
  shows "earlier inet_addr Q
    (\<lambda>n0. c_status (net_tran n0) = DONE \<and>
       c_new_file_version (net_tran n0) = s_new_file_version (sv_heap (net_sv n) ! call_tran c) \<and>
       fs_file_size (c_new_file_path (net_tran n0)) (c_files (net_tran n0)) =
         Inr (unat (s_new_file_size (sv_heap (net_sv n) ! call_tran c))) \<and>
       CalculateFileCrc32 (c_new_file_path (net_tran n0)) (c_files (net_tran n0)) =
         s_new_file_crc32 (sv_heap (net_sv n) ! call_tran c)) n"
  using net_reachable_agree [OF assms(1)] assms(2,3)
  by (simp add: net_agree_def told_def verified_def [abs_def])

theorem acknowledged_transfer_is_verified_witness:
  "\<exists>n (c :: start_call). net_reachable sample_inet_addr (serves_file long_file) n \<and>
    c \<in> set (net_calls n) \<and> call_pc c = Finished FIN \<and>
    earlier sample_inet_addr (serves_file long_file)
      (\<lambda>n0. CalculateFileCrc32 (c_new_file_path (net_tran n0)) (c_files (net_tran n0)) =
         s_new_file_crc32 (sv_heap (net_sv n) ! call_tran c)) n"
proof -
  obtain n c where n: "net_reachable sample_inet_addr (serves_file long_file) n" "c \<in> set (net_calls n)"
    "call_pc c = Finished FIN"
    using sample_network by (auto simp: in_set_conv_nth)
  have "earlier sample_inet_addr (serves_file long_file)
      (\<lambda>n0. CalculateFileCrc32 (c_new_file_path (net_tran n0)) (c_files (net_tran n0)) =
         s_new_file_crc32 (sv_heap (net_sv n) ! call_tran c)) n"
    by (rule earlier_mono [OF acknowledged_transfer_is_verified [OF n]]) simp
  then show ?thesis using n by blast
qed

section \<open>Completion\<close>

text \<open>C2: The other direction: for a file of more than one packet whose last packet is not full,
  and any noticed losses \<open>ls\<close> (of packets other than the first, in bursts that end before the
  last packet), the network has an execution from the start of both programs in which the call
  of \<^verbatim>\<open>StartFileTransfer\<close> returns \<open>FIN\<close> and its entry is gone. In it the server has sent exactly
  the data packets of \<^term>\<open>psns_with_losses\<close>, in this order: for each loss \<open>(k, m)\<close> it has sent
  on up to packet \<open>m\<close> and then again from packet \<open>k\<close> on; and the client has asked for exactly the
  packets of \<^term>\<open>requests_for\<close>: for packet \<open>k\<close> once for each later packet of the burst. The
  client is in status \<open>FIN\<close>, and its files are what its file handler made of the version of the
  call and the path of a file with the server's bytes.\<close>

theorem network_transfer_completes:
  assumes "port < 65536" "inet_addr (inet_ntoa (s_addr (l_caddr L))) = s_addr (l_caddr L)"
    and "ServerTransaction_new
        \<lparr>sin_family = AF_INET, sin_port = htobe16 (of_nat port), s_addr = s_addr (l_caddr L)\<rparr>
        p v (dev_id (d :: Device)) (senv_files (l_senv L)) = Inr st"
    and "senv_files (l_senv L) p = Some f" "readable f" "length (content f) + 1407 < 2 ^ 32"
    and "good_link L" "transferable (content f)" "noticed (packets_of (content f)) 0 ls"
    and "0 \<le> fd (tsock :: UdpSocket)" "tmp_readable (temp_file (env_tmp (l_env L))) cfs"
    and "\<And>q fs. \<exists>fs'. (h :: file_handler) q v fs = Inr fs'"
  shows "\<exists>n c st' q fs g. net_reachable inet_addr (serves_file (content f)) n \<and>
    net_calls n = [c] \<and> call_pc c = Finished FIN \<and> sv_active_transactions (net_sv n) = Map.empty \<and>
    sv_heap (net_sv n) = [st'] \<and> sent_psns (s_wire st') = psns_with_losses (packets_of (content f)) 0 ls \<and>
    requested_psns (c_wire (net_tran n)) = requests_for ls \<and>
    c_status (net_tran n) = FIN \<and>
    fs q = Some g \<and> content g = content f \<and> h q v fs = Inr (c_files (net_tran n))"
  by (rule network_transfer [where port = port and L = L and d = d and f = f and ls = ls and h = h]) (rule assms)+

theorem network_transfer_completes_witness:
  "\<exists>n c st'. net_reachable sample_inet_addr (serves_file long_file) n \<and>
    net_calls n = [c] \<and> call_pc c = Finished FIN \<and> sv_heap (net_sv n) = [st'] \<and>
    sent_psns (s_wire st') = [0, 1, 2, 1, 2, 3] \<and> requested_psns (c_wire (net_tran n)) = [1] \<and>
    c_status (net_tran n) = FIN"
  using network_transfer_completes [where inet_addr = sample_inet_addr and port = 4000 and ls = "[(1, 3)]"
      and L = long_link and h = accepting_handler and tsock = sample_sock and cfs = Map.empty, OF _ long_call]
  by (simp add: accepting_handler_def tmp_readable_def sample_sock_def
      del: psns_with_losses.simps requests_for.simps) blast

text \<open>C14: There is an execution of both programs in which nothing is lost and each datagram arrives
  at once, and the transfer fails. In it the client has stored the whole file, is in status
  \<open>DONE\<close> and has sent its acknowledgement, while the sending thread sleeps in the second after
  the last packet, which it has not counted yet: the server drops the \<open>DONE\<close>, from whatever
  address it arrives, and keeps nothing of it but that address. From there the thread sends
  nothing more and does not change the status, whatever steps it takes. The execution goes on
  from this very state: the client sends nothing but the \<open>CXL\<close> of its time-out, on which the call
  of \<^verbatim>\<open>StartFileTransfer\<close> returns \<open>CXL\<close>; the server has sent nothing in between, and the client's
  files are as they were when it had stored the file, whatever its handler \<open>h\<close> does with one.\<close>

theorem prompt_acknowledgement_is_lost:
  assumes "port < 65536" "inet_addr (inet_ntoa (s_addr (l_caddr L))) = s_addr (l_caddr L)"
    and "ServerTransaction_new
        \<lparr>sin_family = AF_INET, sin_port = htobe16 (of_nat port), s_addr = s_addr (l_caddr L)\<rparr>
        p v (dev_id (d :: Device)) (senv_files (l_senv L)) = Inr st"
    and "senv_files (l_senv L) p = Some f" "readable f" "length (content f) + 1407 < 2 ^ 32"
    and L: "good_link L" and "transferable (content f)"
    and "0 \<le> fd (tsock :: UdpSocket)" "tmp_readable (temp_file (env_tmp (l_env L))) cfs"
  shows "\<exists>n st1 ack. net_reachable inet_addr (serves_file (content f)) n \<and>
    net_calls n = [\<lparr>call_ip = inet_ntoa (s_addr (l_caddr L)), call_tran = 0, call_pc = Waiting DATA DATA\<rparr>] \<and>
    sv_heap (net_sv n) = [st1] \<and> s_thr st1 = Tail_Wait \<and> sent_psns (s_wire st1) = [0 ..< packets_of (content f)] \<and>
    acknowledged (content f) st (net_tran n) \<and> requested_psns (c_wire (net_tran n)) = [] \<and>
    OnFileReceived (net_client n) = h \<and>
    c_wire (net_tran n) \<noteq> [] \<and> last (c_wire (net_tran n)) = ack \<and> message_id (xid (sent_header ack)) = DONE \<and>
    (\<forall>m addr. wf_message m \<longrightarrow>
      server_OnReceive (recv_into m (snd ack)) (recv_len (snd ack)) addr st1 = st1\<lparr>s_client_address := addr\<rparr>) \<and>
    (\<forall>sock E k st2. sender_run sock E k st1 = Inr st2 \<longrightarrow> s_status st2 = DATA \<and> s_wire st2 = s_wire st1) \<and>
    (\<exists>n' c st2 w. reachable (\<lambda>x. x = n) (net_step inet_addr (serves_file (content f))) n' \<and>
      net_calls n' = [c] \<and> call_pc c = Finished CXL \<and> sv_active_transactions (net_sv n') = Map.empty \<and>
      sv_heap (net_sv n') = [st2] \<and> s_wire st2 = s_wire st1 \<and>
      c_status (net_tran n') = CXL \<and> c_files (net_tran n') = c_files (net_tran n) \<and>
      c_wire (net_tran n') = c_wire (net_tran n) @ [w] \<and> message_id (xid (sent_header w)) = CXL)"
proof -
  have wf: "wf_message (env_stack (l_env L))"
    using L by (simp add: good_link_def good_env_def)
  obtain n st1 cl ws x where n: "net_reachable inet_addr (serves_file (content f)) n"
    "n = net_of (l_sock L) (inet_ntoa (s_addr (l_caddr L))) st1 (Waiting DATA DATA) cl"
    and st1: "finishing st1" "s_thr st1 = Tail_Wait" "server_inv st1"
      "serves_file (content f) (s_file_path st1) (senv_files (l_senv L))"
      "sent_psns (s_wire st1) = [0 ..< packets_of (content f)]"
    and cl: "acknowledged (content f) st (cl_transaction cl)" "c_thread (cl_transaction cl) = Receiving"
      "requested_psns (c_wire (cl_transaction cl)) = []" "OnFileReceived cl = h"
      "c_wire (cl_transaction cl) = ws @ [(l_saddr L, client_image DONE (env_stack (l_env L)) x)]"
    using network_prompt_answer [where inet_addr = inet_addr and port = port and L = L and d = d and f = f and h = h
        and tsock = tsock, OF assms]
    by blast
  let ?ack = "(l_saddr L, client_image DONE (env_stack (l_env L)) x)"
  have dropped: "server_OnReceive (recv_into m (snd ?ack)) (recv_len (snd ?ack)) addr st1 =
      st1\<lparr>s_client_address := addr\<rparr>" if "wf_message m" for m addr
    using early_DONE [OF wf that _ st1(3)] st1(1,2) by (simp add: finishing_def in_loop_def)
  have rest: "s_status st2 = DATA \<and> s_wire st2 = s_wire st1" if "sender_run sock E k st1 = Inr st2" for sock E k st2
    using finishing_run [OF st1(1) that] by (simp add: finishing_def)
  have fd: "0 \<le> fd (c_udp_socket (cl_transaction cl))" using cl(1) by (simp add: acknowledged_def)
  have id: "message_id (xid (sent_header (b, client_image i (env_stack (l_env L)) z))) = i"
    if "i = DONE \<or> i = CXL" for b i z
    using that by (auto simp: sent_header_client client_message_eq client_header_def simp del: xid_of.simps)
  have "net_runs_from (\<lambda>x. x = n) inet_addr (serves_file (content f)) (l_sock L) (inet_ntoa (s_addr (l_caddr L)))
      st1 (Waiting DATA DATA) cl"
    unfolding n(2) by (rule reachable.reachable_init) (rule refl)
  from net_runs_cancelled [where Q = "serves_file (content f)", OF this L st1(1-4) cl(2) fd]
  obtain n' c st2 a y where n': "reachable (\<lambda>x. x = n) (net_step inet_addr (serves_file (content f))) n'"
    "net_calls n' = [c]" "call_pc c = Finished CXL" "sv_active_transactions (net_sv n') = Map.empty"
    "sv_heap (net_sv n') = [st2]" "s_wire st2 = s_wire st1" "c_status (net_tran n') = CXL"
    "c_files (net_tran n') = c_files (cl_transaction cl)"
    "c_wire (net_tran n') = c_wire (cl_transaction cl) @ [(a, client_image CXL (env_stack (l_env L)) y)]"
    by blast
  have fields: "net_client n = cl" "sv_heap (net_sv n) = [st1]"
    "net_calls n = [\<lparr>call_ip = inet_ntoa (s_addr (l_caddr L)), call_tran = 0, call_pc = Waiting DATA DATA\<rparr>]"
    by (simp_all add: n(2))
  show ?thesis
    by (rule exI [of _ n], rule exI [of _ st1], rule exI [of _ ?ack], unfold fields(1))
      (intro conjI allI impI exI [of _ n'] exI [of _ c] exI [of _ st2] exI
        [of _ "(a, client_image CXL (env_stack (l_env L)) y)"] n(1) fields st1 cl n' id dropped rest; simp add: cl(5) rest)
qed

theorem prompt_acknowledgement_is_lost_witness:
  "\<exists>n st1 n'. net_reachable sample_inet_addr (serves_file long_file) n \<and> sv_heap (net_sv n) = [st1] \<and>
    s_thr st1 = Tail_Wait \<and> sent_psns (s_wire st1) = [0 ..< 4] \<and> c_status (net_tran n) = DONE \<and>
    reachable (\<lambda>x. x = n) (net_step sample_inet_addr (serves_file long_file)) n' \<and>
    (\<exists>c. net_calls n' = [c] \<and> call_pc c = Finished CXL) \<and> c_status (net_tran n') = CXL"
  using prompt_acknowledgement_is_lost [where inet_addr = sample_inet_addr and port = 4000 and L = long_link
      and h = accepting_handler and tsock = sample_sock and cfs = Map.empty, OF _ long_call]
  by (simp add: tmp_readable_def sample_sock_def acknowledged_def) blast

section \<open>What is on the wire\<close>

text \<open>C10: On a network whose server has one file of fewer than \<open>2 ^ 32\<close> bytes, which does not
  change, both programs send well-formed messages only. Whatever has been lost or damaged before,
  each datagram of the server has 32 to 1440 bytes and passes the client's integrity check,
  unless it is the last packet of a file whose size is a multiple of 1408, which never does;
  each datagram of the client has 32 to 44 bytes, passes the server's check, and is one of the
  five messages that the server handles. (Without the bound on the size the first part fails: the
  size of a file of \<open>2 ^ 32 + 4224\<close> bytes is announced as 4224.)\<close>

theorem network_messages_are_well_formed:
  assumes "length bs < 2 ^ 32" "net_reachable inet_addr (serves_file bs) n" "wf_message m"
  shows "(\<forall>d \<in> server_sent n. 32 \<le> length d \<and> length d \<le> 1440 \<and>
      (client_ValidateMessageIntegrity (recv_into m d) (length d) \<longleftrightarrow> \<not> full_last_packet bs (recv_into m d))) \<and>
    (\<forall>d \<in> client_sent n. 32 \<le> length d \<and> length d \<le> 44 \<and>
      server_ValidateMessageIntegrity (recv_into m d) (length d) \<and>
      message_id (xid (header (recv_into m d))) \<in> {CHK, RDY, RTX, DONE, CXL})"
proof (intro conjI ballI)
  fix d assume "d \<in> server_sent n"
  note form = server_datagram_form [OF net_server_sent [OF assms(2,1) this] assms(3)]
  show "32 \<le> length d" "length d \<le> 1440"
    and "client_ValidateMessageIntegrity (recv_into m d) (length d) \<longleftrightarrow> \<not> full_last_packet bs (recv_into m d)"
    by (rule form)+
next
  fix d assume "d \<in> client_sent n"
  note form = client_datagram_form [OF assms(2) this assms(3)]
  show "32 \<le> length d" "length d \<le> 44" "server_ValidateMessageIntegrity (recv_into m d) (length d)"
    and "message_id (xid (header (recv_into m d))) \<in> {CHK, RDY, RTX, DONE, CXL}"
    by (rule form)+
qed

theorem network_messages_are_well_formed_witness:
  "\<exists>n (c :: start_call). net_reachable sample_inet_addr (serves_file long_file) n \<and> net_calls n = [c] \<and>
    call_pc c = Finished FIN \<and>
    (\<forall>d \<in> server_sent n. client_ValidateMessageIntegrity (recv_into junk d) (length d) \<longleftrightarrow>
      \<not> full_last_packet long_file (recv_into junk d)) \<and>
    (\<forall>d \<in> client_sent n. server_ValidateMessageIntegrity (recv_into junk d) (length d))"
proof -
  obtain n c where n: "net_reachable sample_inet_addr (serves_file long_file) n" "net_calls n = [c]"
    "call_pc c = Finished FIN"
    using sample_network by blast
  have "length long_file < 2 ^ 32" "wf_message junk"
    by (simp_all add: long_file_def)
  from network_messages_are_well_formed [OF this(1) n(1) this(2)] n show ?thesis by blast
qed

end
