(* ===== verification/Localhost.thy ===== *)
theory Localhost
  imports Server Samples
begin

text \<open>
  The two programs of \<^verbatim>\<open>examples/localhost\<close>: \<^verbatim>\<open>localhost_server.cpp\<close> sends one file to a client
  on the same machine, \<^verbatim>\<open>localhost_client.cpp\<close> waits for one file. What they print is left out.
\<close>

definition EXIT_SUCCESS :: int where "EXIT_SUCCESS = 0"
definition EXIT_FAILURE :: int where "EXIT_FAILURE = 1"

section \<open>The server\<close>

definition to_string :: "int \<Rightarrow> string" where
  "to_string n = (if n < 0 then CHR ''-'' # decimal (nat (- n)) else decimal (nat n))"

text \<open>\<open>argv\<close> has the name of the program first; \<open>is_regular_file\<close> is what the operating system
  tells. An exit code, or the client's URI and the path.\<close>

definition localhost_server_args ::
  "(path \<Rightarrow> bool) \<Rightarrow> filesystem \<Rightarrow> string list \<Rightarrow> (int + string \<times> path) result" where
  "localhost_server_args is_regular_file fs argv =
     (if length argv \<noteq> 3 then Inr (Inl EXIT_FAILURE)
      else
        let file_path = argv ! 1
        in bind_result (stoi (argv ! 2))
             (\<lambda>client_port.
                let client_uri = ''127.0.0.1:'' @ to_string client_port
                in if \<not> fs_exists file_path fs then Inr (Inl EXIT_FAILURE)
                   else if \<not> is_regular_file file_path then Inr (Inl EXIT_FAILURE)
                   else if client_port < 1024 \<or> 65535 < client_port then Inr (Inl EXIT_FAILURE)
                   else Inr (Inr (client_uri, file_path))))"

text \<open>Up to the call of \<^verbatim>\<open>StartFileTransfer\<close>, with \<^verbatim>\<open>Device()\<close>, and what follows it.\<close>

definition localhost_server_start ::
  "(string \<Rightarrow> u32) \<Rightarrow> (path \<Rightarrow> bool) \<Rightarrow> filesystem \<Rightarrow> UdpSocket \<Rightarrow> string list \<Rightarrow>
   (int + start_call \<times> Server) result" where
  "localhost_server_start inet_addr is_regular_file fs sock argv =
     bind_result (localhost_server_args is_regular_file fs argv)
       (\<lambda>r. case r of
          Inl code \<Rightarrow> Inr (Inl code)
        | Inr (client_uri, file_path) \<Rightarrow>
            bind_result
              (StartFileTransfer_enter inet_addr fs client_uri file_path 0 \<lparr>dev_id = 0\<rparr>
                 (Server_new sock DefaultServerTransactionFactory_CreateTransaction))
              (\<lambda>cs. Inr (Inr cs)))"

definition localhost_server_result :: "FtpStatus \<Rightarrow> int" where
  "localhost_server_result result =
     (if result = NTF then EXIT_FAILURE
      else if result = CXL then EXIT_FAILURE
      else EXIT_SUCCESS)"

definition localhost_server_exit :: "start_call \<Rightarrow> int option" where
  "localhost_server_exit c = (case call_pc c of Finished s \<Rightarrow> Some (localhost_server_result s) | _ \<Rightarrow> None)"

text \<open>The port survives the two conversions, and the address is found again.\<close>

lemma to_string_int [simp]: "to_string (int n) = decimal n"
  by (simp add: to_string_def)

lemma localhost_uri:
  "parse_uri (''127.0.0.1:'' @ to_string (int n)) = Some (''127.0.0.1'', decimal n)"
  using parse_uri_append [of "''127.0.0.1''" "decimal n"] by simp

lemma localhost_server_start_valid:
  assumes "length argv = 3" "stoi (argv ! 2) = Inr (int port)" "1024 \<le> port" "port \<le> 65535"
    and "fs_exists (argv ! 1) fs" "is_regular_file (argv ! 1)"
  shows "localhost_server_start inet_addr is_regular_file fs sock argv =
    bind_result
      (ServerTransaction_new
         \<lparr>sin_family = AF_INET, sin_port = htobe16 (of_nat port), s_addr = inet_addr ''127.0.0.1''\<rparr>
         (argv ! 1) 0 0 fs)
      (\<lambda>st. Inr (Inr (\<lparr>call_ip = ''127.0.0.1'', call_tran = 0, call_pc = Sending NTF\<rparr>,
         (Server_new sock DefaultServerTransactionFactory_CreateTransaction)
           \<lparr>sv_heap := [st], sv_active_transactions := [''127.0.0.1'' \<mapsto> 0]\<rparr>)))"
proof -
  have args: "localhost_server_args is_regular_file fs argv =
      Inr (Inr (''127.0.0.1:'' @ to_string (int port), argv ! 1))"
    using assms by (simp add: localhost_server_args_def)
  have c: "c_str ''127.0.0.1'' = ''127.0.0.1''"
    by (simp add: c_str_def)
  have "stoi (decimal port) = Inr (int port)"
    by (rule stoi_decimal) (use assms in simp)
  then have enter: "StartFileTransfer_enter inet_addr fs (''127.0.0.1:'' @ to_string (int port)) (argv ! 1) 0 \<lparr>dev_id = 0\<rparr>
      (Server_new sock DefaultServerTransactionFactory_CreateTransaction) =
    bind_result
      (ServerTransaction_new
         \<lparr>sin_family = AF_INET, sin_port = htobe16 (of_nat port), s_addr = inet_addr ''127.0.0.1''\<rparr>
         (argv ! 1) 0 0 fs)
      (\<lambda>st. Inr (\<lparr>call_ip = ''127.0.0.1'', call_tran = 0, call_pc = Sending NTF\<rparr>,
         (Server_new sock DefaultServerTransactionFactory_CreateTransaction)
           \<lparr>sv_heap := [st], sv_active_transactions := [''127.0.0.1'' \<mapsto> 0]\<rparr>))"
    unfolding StartFileTransfer_enter_def localhost_uri option.case prod.case
    using assms(5)
    by (simp add: INET_ADDRSTRLEN_def c DefaultServerTransactionFactory_CreateTransaction_def Server_new_def)
  show ?thesis
    unfolding localhost_server_start_def args bind_result_simps sum.case prod.case enter
    by (cases "ServerTransaction_new
         \<lparr>sin_family = AF_INET, sin_port = htobe16 (of_nat port), s_addr = inet_addr ''127.0.0.1''\<rparr>
         (argv ! 1) 0 0 fs") simp_all
qed

section \<open>The client\<close>

text \<open>The port as \<^verbatim>\<open>Client\<close> takes it, or an exit code.\<close>

definition localhost_client_args :: "string list \<Rightarrow> (int + 16 word) result" where
  "localhost_client_args argv =
     (if length argv \<noteq> 2 then Inr (Inl EXIT_FAILURE)
      else bind_result (stoi (argv ! 1))
        (\<lambda>port. if port < 1024 \<or> 65535 < port then Inr (Inl EXIT_FAILURE) else Inr (Inr (word_of_int port))))"

text \<open>\<open>rename_ok\<close>: whether the operating system lets the first path be renamed to the second (not
  so, for instance, from one file system to another).\<close>

definition fs_rename :: "(path \<Rightarrow> path \<Rightarrow> bool) \<Rightarrow> path \<Rightarrow> path \<Rightarrow> filesystem \<Rightarrow> filesystem result" where
  "fs_rename rename_ok p q fs =
     (case fs p of
        None \<Rightarrow> Inl (Filesystem_Error p)
      | Some f \<Rightarrow> if rename_ok p q then Inr ((fs(p := None))(q \<mapsto> f)) else Inl (Filesystem_Error p))"

definition rx_path :: path where
  "rx_path = ''trftp_file''"

text \<open>The handler, up to its \<^verbatim>\<open>notify_one\<close>.\<close>

definition localhost_handler :: "(path \<Rightarrow> path \<Rightarrow> bool) \<Rightarrow> file_handler" where
  "localhost_handler rename_ok file_path version fs = fs_rename rename_ok file_path rx_path fs"

text \<open>The main thread: before \<^verbatim>\<open>AttachFileHandler\<close>, before \<^verbatim>\<open>wait_for\<close>, in it, and when \<^verbatim>\<open>main\<close>
  has returned.\<close>

datatype localhost_pc = Attaching | Locking | Cv_Waiting | Exited_With int

record localhost_client =
  lh_client :: Client
  lh_pc :: localhost_pc

definition localhost_client_init :: "localhost_client \<Rightarrow> bool" where
  "localhost_client_init s \<longleftrightarrow>
     (\<exists>tmp sock tsock fs. s = \<lparr>lh_client = Client_new tmp sock tsock 0 fs [], lh_pc = Attaching\<rparr>)"

text \<open>A step of the client's threads that has called the handler; it ends with the
  notification.\<close>

definition handled :: "Client \<Rightarrow> Client \<Rightarrow> bool" where
  "handled cl cl' \<longleftrightarrow> cl_file_handler cl \<noteq> None \<and>
     c_status (cl_transaction cl) = DONE \<and> c_status (cl_transaction cl') = FIN"

definition notify_one :: "localhost_pc \<Rightarrow> localhost_pc" where
  "notify_one pc = (if pc = Cv_Waiting then Exited_With EXIT_SUCCESS else pc)"

text \<open>The wait has no predicate: it ends with the notification, after thirty seconds, or, as the
  standard allows, without any reason.\<close>

inductive localhost_step :: "(path \<Rightarrow> path \<Rightarrow> bool) \<Rightarrow> localhost_client \<Rightarrow> localhost_client \<Rightarrow> bool"
  for rename_ok :: "path \<Rightarrow> path \<Rightarrow> bool" where
  lh_threads:
    "thread_step (lh_client s) cl \<Longrightarrow> \<not> handled (lh_client s) cl \<Longrightarrow>
     localhost_step rename_ok s (s\<lparr>lh_client := cl\<rparr>)"
| lh_handler:
    "thread_step (lh_client s) cl \<Longrightarrow> handled (lh_client s) cl \<Longrightarrow>
     localhost_step rename_ok s (s\<lparr>lh_client := cl, lh_pc := notify_one (lh_pc s)\<rparr>)"
| lh_attach:
    "lh_pc s = Attaching \<Longrightarrow>
     localhost_step rename_ok s
       (s\<lparr>lh_client := AttachFileHandler (localhost_handler rename_ok) (lh_client s), lh_pc := Locking\<rparr>)"
| lh_wait:
    "lh_pc s = Locking \<Longrightarrow> localhost_step rename_ok s (s\<lparr>lh_pc := Cv_Waiting\<rparr>)"
| lh_spurious:
    "lh_pc s = Cv_Waiting \<Longrightarrow> localhost_step rename_ok s (s\<lparr>lh_pc := Exited_With EXIT_SUCCESS\<rparr>)"
| lh_timeout:
    "lh_pc s = Cv_Waiting \<Longrightarrow> localhost_step rename_ok s (s\<lparr>lh_pc := Exited_With EXIT_FAILURE\<rparr>)"

section \<open>When the handler is called\<close>

lemma on_ntf_not_FIN: "client_on_ntf t E msg n ct = Inr ct' \<Longrightarrow> c_status ct' \<noteq> FIN"
  by (auto dest: client_on_ntf_status)

lemma CXL_not_FIN: "client_SendMessage E CXL ct = Inr ct' \<Longrightarrow> c_status ct' \<noteq> FIN"
  by (simp add: client_SendMessage_CXL(1))

lemma OnReceive_handled:
  assumes "client_OnReceive t (Some h) E msg len addr ct = Inr ct'"
    and "c_status ct = DONE" "c_status ct' = FIN"
  shows "\<exists>fs. h (c_new_file_path ct) (c_new_file_version ct) (c_files ct) = Inr fs \<and>
    ct' = ct\<lparr>c_server_address := addr, c_status := FIN, c_is_active := False, c_files := fs\<rparr>"
proof -
  have valid: "client_ValidateMessageIntegrity msg len"
    using assms by (auto simp: client_OnReceive_def Let_def split: if_splits)
  note rec = assms(1) [unfolded client_OnReceive_def Let_def, simplified valid]
  show ?thesis
  proof (cases "message_id (xid (header msg)) = FIN")
    case True
    then show ?thesis
      using rec assms(2,3)
      by (auto simp: client_on_fin_def bind_result_eq_Inr dest: CXL_not_FIN split: if_splits)
  next
    case False
    have "c_status ct' \<noteq> FIN"
    proof (cases "message_id (xid (header msg)) \<in> {NTF, INFO, DATA, CXL}")
      case True
      then show ?thesis
        using rec assms(2) client_on_cxl_status(1)
        by (auto simp: client_on_info_def client_on_data_def client_data_admissible_def
            dest!: on_ntf_not_FIN CXL_not_FIN split: if_splits)
    next
      case other: False
      then have "ct' = ct\<lparr>c_server_address := addr\<rparr>"
        using rec False by (auto split: MessageId.splits)
      then show ?thesis using assms(2) by simp
    qed
    then show ?thesis using assms(3) by simp
  qed
qed

lemma handled_main_step:
  assumes "main_step cl cl'" "handled cl cl'"
  shows "\<exists>fs. OnFileReceived cl (c_new_file_path (cl_transaction cl)) (c_new_file_version (cl_transaction cl))
      (c_files (cl_transaction cl)) = Inr fs \<and> c_files (cl_transaction cl') = fs \<and>
    c_new_file_path (cl_transaction cl') = c_new_file_path (cl_transaction cl) \<and>
    c_new_file_size (cl_transaction cl') = c_new_file_size (cl_transaction cl) \<and>
    c_new_file_crc32 (cl_transaction cl') = c_new_file_crc32 (cl_transaction cl)"
proof -
  have st: "c_status (cl_transaction cl) = DONE" "c_status (cl_transaction cl') = FIN"
    using assms(2) by (simp_all add: handled_def)
  show ?thesis
    using assms(1)
  proof cases
    case (main_body E ev m a)
    then have "c_status (cl_transaction cl') = DONE"
      using st(1) by (auto simp: client_main_body_def bind_result_eq_Inr Reset_fields_def split: if_splits prod.splits)
    then show ?thesis using st(2) by simp
  next
    case (main_joined msg len addr E)
    then obtain ct where ct: "client_OnReceive Client_Thread (Some (OnFileReceived cl)) E msg len addr
        ((cl_transaction cl)\<lparr>c_thread := No_Thread\<rparr>) = Inr ct" "cl_transaction cl' = ct"
      by (auto simp: client_main_joined_def bind_result_eq_Inr)
    show ?thesis using OnReceive_handled [OF ct(1)] ct(2) st by auto
  next
    case (tran_body E ev m a ct)
    show ?thesis
    proof (cases "c_status ct = FIN")
      case True
      obtain len msg addr where r: "udp_Receive ev m a = Inr (len, msg, addr)"
        using tran_body(3) by (auto simp: client_loop_body_def bind_result_eq_Inr)
      have "len \<noteq> 0"
      proof
        assume "len = 0"
        then obtain ct0 where "client_SendMessage E CXL (cl_transaction cl) = Inr ct0" "c_status ct0 = FIN"
          using tran_body(3) r True by (auto simp: client_loop_body_def bind_result_eq_Inr)
        then show False using CXL_not_FIN by blast
      qed
      then obtain ct0 where ct0: "client_OnReceive Transaction_Thread (Some (OnFileReceived cl)) E msg len addr
          (cl_transaction cl) = Inr ct0" "ct = ct0\<lparr>c_thread := Loop_Test\<rparr>"
        using tran_body(3) r by (auto simp: client_loop_body_def bind_result_eq_Inr)
      show ?thesis using OnReceive_handled [OF ct0(1)] ct0(2) tran_body(1) True st(1) by auto
    qed (use tran_body(1) st in simp)
  qed (use st in \<open>simp_all add: client_main_test_def client_loop_test_def AttachFileHandler_def
      DetachFileHandler_def Client_stop_def\<close>)
qed

section \<open>Invariants\<close>

lemma localhost_main_reachable:
  "reachable localhost_client_init (localhost_step rename_ok) s \<Longrightarrow> reachable main_init main_step (lh_client s)"
proof (induction rule: reachable.induct)
  case (reachable_init s)
  then show ?case
    by (intro reachable.reachable_init) (fastforce simp: localhost_client_init_def main_init_def)
next
  case (reachable_step s t)
  have "main_step (lh_client s) (lh_client t) \<or> lh_client t = lh_client s"
    using reachable_step.hyps(2) by cases (auto simp: thread_step_def intro: main_step.attach)
  then show ?case
    using reachable_step.IH by (auto intro: reachable.reachable_step)
qed

text \<open>The handler is attached once and stays.\<close>

definition localhost_inv :: "(path \<Rightarrow> path \<Rightarrow> bool) \<Rightarrow> localhost_client \<Rightarrow> bool" where
  "localhost_inv rename_ok s \<longleftrightarrow> cl_file_handler (lh_client s) =
     (if lh_pc s = Attaching then None else Some (localhost_handler rename_ok))"

lemma localhost_step_inv: "localhost_inv rename_ok s \<Longrightarrow> localhost_step rename_ok s t \<Longrightarrow> localhost_inv rename_ok t"
  by (auto elim!: localhost_step.cases
      simp: localhost_inv_def thread_step_def handled_def notify_one_def AttachFileHandler_def split: if_splits)

interpretation localhost: invariant_system localhost_client_init "localhost_step rename_ok" "localhost_inv rename_ok"
  for rename_ok
  by unfold_locales
    (auto simp: localhost_client_init_def localhost_inv_def [of _ "\<lparr>lh_client = c, lh_pc = p\<rparr>" for c p]
        Client_new_def intro: localhost_step_inv)

text \<open>The renamed file is the one that was verified.\<close>

lemma fs_rename_Inr:
  assumes "fs_rename rename_ok p q fs = Inr fs'"
  shows "fs' q = fs p" "p \<noteq> q \<Longrightarrow> fs' p = None"
  using assms by (auto simp: fs_rename_def split: option.splits if_splits)

lemma CalculateFileCrc32_cong: "fs p = fs' q \<Longrightarrow> CalculateFileCrc32 p fs = CalculateFileCrc32 q fs'"
  by (cases "fs' q") (simp_all add: CalculateFileCrc32_def fs_exists_def ifstream_open_def fs_file_size_def)

lemma localhost_handled:
  assumes "reachable localhost_client_init (localhost_step rename_ok) s" "thread_step (lh_client s) cl"
    and "handled (lh_client s) cl"
  shows "fs_file_size rx_path (c_files (cl_transaction cl)) = Inr (unat (c_new_file_size (cl_transaction cl)))"
    and "CalculateFileCrc32 rx_path (c_files (cl_transaction cl)) = c_new_file_crc32 (cl_transaction cl)"
    and "c_new_file_path (cl_transaction cl) \<noteq> rx_path \<Longrightarrow>
      c_files (cl_transaction cl) (c_new_file_path (cl_transaction cl)) = None"
proof -
  let ?ct = "cl_transaction (lh_client s)" and ?ct' = "cl_transaction cl"
  have "client_inv ?ct"
    using client_main.reachable_inv [OF localhost_main_reachable [OF assms(1)]] by (rule main_inv_transaction)
  moreover have "c_status ?ct = DONE"
    using assms(3) by (simp add: handled_def)
  ultimately have complete: "client_file_complete ?ct" by (simp add: client_inv_def)
  have "localhost_inv rename_ok s" by (rule localhost.reachable_inv [OF assms(1)])
  then have handler: "cl_file_handler (lh_client s) = Some (localhost_handler rename_ok)"
    using assms(3) by (auto simp: localhost_inv_def handled_def split: if_splits)
  obtain fs where fs: "fs_rename rename_ok (c_new_file_path ?ct) rx_path (c_files ?ct) = Inr fs"
    "c_files ?ct' = fs" "c_new_file_path ?ct' = c_new_file_path ?ct" "c_new_file_size ?ct' = c_new_file_size ?ct"
    "c_new_file_crc32 ?ct' = c_new_file_crc32 ?ct"
    using handled_main_step [of "lh_client s" cl] assms(2,3)
    by (auto simp: OnFileReceived_def handler localhost_handler_def thread_step_def)
  note r = fs_rename_Inr [OF fs(1)]
  show "fs_file_size rx_path (c_files ?ct') = Inr (unat (c_new_file_size ?ct'))"
    using complete fs r(1) by (simp add: client_file_complete_def fs_file_size_def split: option.splits)
  show "CalculateFileCrc32 rx_path (c_files ?ct') = c_new_file_crc32 ?ct'"
    using complete fs CalculateFileCrc32_cong [where fs = fs and fs' = "c_files ?ct" and p = rx_path, OF r(1)] by (simp add: client_file_complete_def)
  show "c_new_file_path ?ct' \<noteq> rx_path \<Longrightarrow> c_files ?ct' (c_new_file_path ?ct') = None"
    using fs r(2) by simp
qed

section \<open>The two ways the wait goes wrong\<close>

text \<open>While the main thread stays where it is, the threads of the client go on.\<close>

lemma localhost_threads:
  assumes "pc \<noteq> Cv_Waiting"
  shows "client_threads (\<lambda>cl. reachable localhost_client_init (localhost_step rename_ok) \<lparr>lh_client = cl, lh_pc = pc\<rparr>)"
proof
  fix cl cl' :: Client
  let ?s = "\<lambda>cl. \<lparr>lh_client = cl, lh_pc = pc\<rparr>"
  assume r: "reachable localhost_client_init (localhost_step rename_ok) (?s cl)" and t: "thread_step cl cl'"
  have "localhost_step rename_ok (?s cl) (?s cl')"
  proof (cases "handled cl cl'")
    case True
    then show ?thesis
      using localhost_step.lh_handler [of "?s cl" cl' rename_ok] True t assms by (simp add: notify_one_def)
  next
    case False
    then show ?thesis
      using localhost_step.lh_threads [of "?s cl" cl' rename_ok] t by simp
  qed
  with r show "reachable localhost_client_init (localhost_step rename_ok) (?s cl')"
    by (rule reachable.reachable_step)
qed

text \<open>A transfer that ends while the main thread has not yet called \<^verbatim>\<open>wait_for\<close>.\<close>

lemma localhost_early_file:
  assumes "\<And>p. rename_ok p rx_path"
  shows "\<exists>cl cl' f. reachable localhost_client_init (localhost_step rename_ok) \<lparr>lh_client = cl, lh_pc = Locking\<rparr> \<and>
    thread_step cl cl' \<and> handled cl cl' \<and>
    c_files (cl_transaction cl') rx_path = Some f \<and> content f = sample_file"
proof -
  let ?R = "\<lambda>cl. reachable localhost_client_init (localhost_step rename_ok) \<lparr>lh_client = cl, lh_pc = Locking\<rparr>"
  let ?h = "localhost_handler rename_ok" and ?fin = "server_image FIN junk sample_server"
  let ?s0 = "\<lparr>lh_client = Client_new ''/tmp'' sample_sock sample_sock 0 Map.empty [], lh_pc = Attaching\<rparr>"
  define cl1 where "cl1 = AttachFileHandler ?h (lh_client ?s0)"
  have "localhost_client_init ?s0" unfolding localhost_client_init_def by blast
  then have "reachable localhost_client_init (localhost_step rename_ok) ?s0" by (rule reachable.reachable_init)
  moreover have "localhost_step rename_ok ?s0 \<lparr>lh_client = cl1, lh_pc = Locking\<rparr>"
    using localhost_step.lh_attach [of ?s0 rename_ok] by (simp add: cl1_def)
  ultimately have R1: "?R cl1" by (rule reachable.reachable_step)
  have cl1: "cl_transaction cl1 = sample_client" "cl_thread cl1 = Main_Test" "cl_is_running cl1"
    "cl_file_handler cl1 = Some ?h"
    by (simp_all add: cl1_def Client_new_def AttachFileHandler_def sample_client_def)
  have "client_threads ?R" by (rule localhost_threads) simp
  from client_threads.sample_run [OF this R1 cl1(1-3)] obtain cl where cl: "?R cl"
    "c_thread (cl_transaction cl) = Receiving" "cl_file_handler cl = Some ?h"
    "acknowledged sample_file sample_server (cl_transaction cl)"
    unfolding cl1(4) by blast
  let ?ct = "cl_transaction cl"
  obtain f where f: "c_files ?ct (c_new_file_path ?ct) = Some f" "content f = sample_file"
    using cl(4) by (auto simp: acknowledged_def)
  define fs where "fs = (c_files ?ct)(c_new_file_path ?ct := None, rx_path \<mapsto> f)"
  define ct' where "ct' = ?ct\<lparr>c_server_address := sample_addr, c_status := FIN, c_is_active := False,
    c_files := fs, c_thread := Loop_Test\<rparr>"
  have "client_loop_body (Some (OnFileReceived cl)) sample_env (Recv_Datagram sample_addr ?fin) junk sample_addr ?ct =
      Inr ct'"
    using client_gets_FIN [OF wf_junk wf_junk cl(4), of "Some (OnFileReceived cl)" sample_env sample_server sample_addr]
      f assms server_image_nonempty [OF wf_junk] cl(3)
    by (simp add: client_loop_body_def udp_Receive_datagram OnFileReceived_def localhost_handler_def fs_rename_def
        ct'_def fs_def recv_len_server_image)
  then have "main_step cl (cl\<lparr>cl_transaction := ct'\<rparr>)"
    using cl(2) by (intro main_step.tran_body)
  then have "thread_step cl (cl\<lparr>cl_transaction := ct'\<rparr>)" by (simp add: thread_step_def)
  moreover have "handled cl (cl\<lparr>cl_transaction := ct'\<rparr>)"
    using cl(3,4) by (simp add: handled_def acknowledged_def ct'_def)
  moreover have "c_files (cl_transaction (cl\<lparr>cl_transaction := ct'\<rparr>)) rx_path = Some f"
    by (simp add: ct'_def fs_def)
  ultimately show ?thesis using cl(1) f(2) by blast
qed

end
