(* ===== verification/Localhost_Properties.thy ===== *)
theory Localhost_Properties
  imports Localhost Network_Samples Network_Messages
begin

text \<open>
  The properties of the example programs.
\<close>

section \<open>The server\<close>

text \<open>C35: The program \<^verbatim>\<open>localhost_server\<close> accepts exactly the command lines with a file that
  exists and is regular and a number from 1024 to 65535; for these it starts the transfer of
  version 0 for device 0 to that port (through the text of the URI, which is parsed again) at
  the address of \<^verbatim>\<open>127.0.0.1\<close>, and on every other one it exits with \<^verbatim>\<open>EXIT_FAILURE\<close> or by an
  exception of \<^verbatim>\<open>std::stoi\<close>.\<close>

theorem localhost_server_main:
  "localhost_server_start inet_addr is_regular_file fs sock argv =
    (if length argv \<noteq> 3 then Inr (Inl EXIT_FAILURE)
     else case stoi (argv ! 2) of
       Inl e \<Rightarrow> Inl e
     | Inr port \<Rightarrow>
         if \<not> (fs_exists (argv ! 1) fs \<and> is_regular_file (argv ! 1) \<and> port \<in> {1024..65535}) then Inr (Inl EXIT_FAILURE)
         else bind_result
           (ServerTransaction_new
              \<lparr>sin_family = AF_INET, sin_port = htobe16 (word_of_int port), s_addr = inet_addr ''127.0.0.1''\<rparr>
              (argv ! 1) 0 0 fs)
           (\<lambda>st. Inr (Inr (\<lparr>call_ip = ''127.0.0.1'', call_tran = 0, call_pc = Sending NTF\<rparr>,
              (Server_new sock DefaultServerTransactionFactory_CreateTransaction)
                \<lparr>sv_heap := [st], sv_active_transactions := [''127.0.0.1'' \<mapsto> 0]\<rparr>))))"
proof (cases "length argv = 3 \<and> fs_exists (argv ! 1) fs \<and> is_regular_file (argv ! 1) \<and>
    (\<exists>port. stoi (argv ! 2) = Inr port \<and> port \<in> {1024..65535})")
  case True
  then obtain p where p: "stoi (argv ! 2) = Inr p" "1024 \<le> p" "p \<le> 65535" by auto
  define port where "port = nat p"
  have port: "p = int port" "1024 \<le> port" "port \<le> 65535" using p by (simp_all add: port_def)
  show ?thesis
    using localhost_server_start_valid [of argv port] True p(1) port by simp
next
  case False
  then show ?thesis
    by (cases "stoi (argv ! 2)")
      (auto simp: localhost_server_start_def localhost_server_args_def Let_def simp del: One_nat_def)
qed

text \<open>On a network with a file that does not change, an exit with \<^verbatim>\<open>EXIT_SUCCESS\<close> means that
  at some moment before the client had stored and acknowledged the whole file.\<close>

lemma localhost_server_success:
  assumes "length bs < 2 ^ 32" "net_reachable inet_addr (serves_file bs) n"
    and "c \<in> set (net_calls n)" "localhost_server_exit c = Some EXIT_SUCCESS"
  shows "stored_before inet_addr bs c n"
proof -
  obtain s where s: "call_pc c = Finished s" "s \<noteq> NTF" "s \<noteq> CXL"
    using assms(4) by (auto simp: localhost_server_exit_def localhost_server_result_def EXIT_SUCCESS_def
        EXIT_FAILURE_def split: start_pc.splits if_splits)
  have "pc_ok (call_pc c) (sv_heap (net_sv n) ! call_tran c)"
    by (rule reachable_call(2) [OF net_reachable_parts(1) [OF assms(2)] assms(3)])
  then have "call_pc c = Finished FIN" using s by (simp add: over_def)
  then show ?thesis by (rule net_FIN_stored [OF assms(1-3)])
qed

section \<open>The client\<close>

text \<open>C33: Whatever \<^verbatim>\<open>localhost_client\<close> receives and however its threads run, whenever its file
  handler has been called, \<^verbatim>\<open>trftp_file\<close> is a file of the announced size with the announced
  checksum and the temporary file is gone.\<close>

theorem localhost_client_stores:
  assumes "reachable localhost_client_init (localhost_step rename_ok) s"
    and "thread_step (lh_client s) cl" "handled (lh_client s) cl"
  shows "fs_file_size rx_path (c_files (cl_transaction cl)) = Inr (unat (c_new_file_size (cl_transaction cl))) \<and>
    CalculateFileCrc32 rx_path (c_files (cl_transaction cl)) = c_new_file_crc32 (cl_transaction cl) \<and>
    (c_new_file_path (cl_transaction cl) = rx_path \<or>
     c_files (cl_transaction cl) (c_new_file_path (cl_transaction cl)) = None)"
  using localhost_handled(1,2) [OF assms] localhost_handled(3) [OF assms]
  by (cases "c_new_file_path (cl_transaction cl) = rx_path") simp_all

theorem localhost_client_stores_witness:
  "\<exists>(cl :: Client) f. CalculateFileCrc32 rx_path (c_files (cl_transaction cl)) = c_new_file_crc32 (cl_transaction cl) \<and>
    c_files (cl_transaction cl) rx_path = Some f \<and> content f = sample_file"
proof -
  obtain cl cl' f where cl: "reachable localhost_client_init (localhost_step (\<lambda>_ _. True)) \<lparr>lh_client = cl, lh_pc = Locking\<rparr>"
    "thread_step cl cl'" "handled cl cl'" "c_files (cl_transaction cl') rx_path = Some f" "content f = sample_file"
    using localhost_early_file [of "\<lambda>_ _. True"] by blast
  have "CalculateFileCrc32 rx_path (c_files (cl_transaction cl')) = c_new_file_crc32 (cl_transaction cl')"
    using localhost_client_stores [OF cl(1), of cl'] cl(2,3) by simp
  then show ?thesis using cl(4,5) by blast
qed

text \<open>C34: The exit code of \<^verbatim>\<open>localhost_client\<close> says nothing about the file, because its wait has no
  predicate. It may exit with \<^verbatim>\<open>EXIT_SUCCESS\<close> although nothing has arrived: a spurious wake-up
  ends the wait. And it may exit with \<^verbatim>\<open>EXIT_FAILURE\<close> although the whole file has been received,
  verified and renamed before: when the handler has run and notified while the main thread has
  not begun to wait, the main thread waits all the same, and with no further step of the client
  its time-out ends it.\<close>

theorem localhost_wait_is_unreliable:
  "(\<exists>s s1. reachable localhost_client_init (localhost_step (\<lambda>_ _. True)) s \<and> lh_pc s = Cv_Waiting \<and>
     localhost_step (\<lambda>_ _. True) s s1 \<and> lh_pc s1 = Exited_With EXIT_SUCCESS \<and>
     lh_client s1 = lh_client s \<and> c_files (cl_transaction (lh_client s)) rx_path = None) \<and>
   (\<exists>s s1 s2 f. reachable localhost_client_init (localhost_step (\<lambda>_ _. True)) s \<and> lh_pc s = Locking \<and>
     c_status (cl_transaction (lh_client s)) = FIN \<and>
     c_files (cl_transaction (lh_client s)) rx_path = Some f \<and> content f = sample_file \<and>
     localhost_step (\<lambda>_ _. True) s s1 \<and> lh_pc s1 = Cv_Waiting \<and> lh_client s1 = lh_client s \<and>
     localhost_step (\<lambda>_ _. True) s1 s2 \<and> lh_pc s2 = Exited_With EXIT_FAILURE \<and> lh_client s2 = lh_client s)"
proof
  let ?r = "reachable localhost_client_init (localhost_step (\<lambda>_ _. True))"
  show "\<exists>s s1. ?r s \<and> lh_pc s = Cv_Waiting \<and> localhost_step (\<lambda>_ _. True) s s1 \<and>
      lh_pc s1 = Exited_With EXIT_SUCCESS \<and> lh_client s1 = lh_client s \<and>
      c_files (cl_transaction (lh_client s)) rx_path = None"
  proof -
    let ?s0 = "\<lparr>lh_client = Client_new ''/tmp'' sample_sock sample_sock 0 Map.empty [], lh_pc = Attaching\<rparr>"
    let ?s1 = "?s0\<lparr>lh_client := AttachFileHandler (localhost_handler (\<lambda>_ _. True)) (lh_client ?s0), lh_pc := Locking\<rparr>"
    let ?s2 = "?s1\<lparr>lh_pc := Cv_Waiting\<rparr>"
    have "localhost_client_init ?s0" unfolding localhost_client_init_def by blast
    then have "?r ?s0" by (rule reachable.reachable_init)
    then have "?r ?s1" by (rule reachable.reachable_step) (rule localhost_step.lh_attach, simp)
    then have "?r ?s2" by (rule reachable.reachable_step) (rule localhost_step.lh_wait, simp)
    moreover have "localhost_step (\<lambda>_ _. True) ?s2 (?s2\<lparr>lh_pc := Exited_With EXIT_SUCCESS\<rparr>)"
      by (rule localhost_step.lh_spurious) simp
    ultimately show ?thesis
      by (intro exI conjI) (assumption | simp add: Client_new_def ClientTransaction_new_def AttachFileHandler_def)+
  qed
  show "\<exists>s s1 s2 f. ?r s \<and> lh_pc s = Locking \<and> c_status (cl_transaction (lh_client s)) = FIN \<and>
      c_files (cl_transaction (lh_client s)) rx_path = Some f \<and> content f = sample_file \<and>
      localhost_step (\<lambda>_ _. True) s s1 \<and> lh_pc s1 = Cv_Waiting \<and> lh_client s1 = lh_client s \<and>
      localhost_step (\<lambda>_ _. True) s1 s2 \<and> lh_pc s2 = Exited_With EXIT_FAILURE \<and> lh_client s2 = lh_client s"
  proof -
    obtain cl cl' f where cl: "?r \<lparr>lh_client = cl, lh_pc = Locking\<rparr>" "thread_step cl cl'" "handled cl cl'"
      "c_files (cl_transaction cl') rx_path = Some f" "content f = sample_file"
      using localhost_early_file [of "\<lambda>_ _. True"] by blast
    let ?s = "\<lambda>pc. \<lparr>lh_client = cl', lh_pc = pc\<rparr>"
    have "localhost_step (\<lambda>_ _. True) \<lparr>lh_client = cl, lh_pc = Locking\<rparr> (?s Locking)"
      using localhost_step.lh_handler [of "\<lparr>lh_client = cl, lh_pc = Locking\<rparr>" cl'] cl(2,3) by (simp add: notify_one_def)
    with cl(1) have "?r (?s Locking)" by (rule reachable.reachable_step)
    moreover have "localhost_step (\<lambda>_ _. True) (?s Locking) (?s Cv_Waiting)"
      using localhost_step.lh_wait [of "?s Locking"] by simp
    moreover have "localhost_step (\<lambda>_ _. True) (?s Cv_Waiting) (?s (Exited_With EXIT_FAILURE))"
      using localhost_step.lh_timeout [of "?s Cv_Waiting"] by simp
    ultimately show ?thesis
      using cl(3-5) by (intro exI [of _ "?s Locking"] exI [of _ "?s Cv_Waiting"]
          exI [of _ "?s (Exited_With EXIT_FAILURE)"] exI [of _ f]) (simp add: handled_def)
  qed
qed

end
