(* ===== verification/Receiver_Spec.thy ===== *)
theory Receiver_Spec
  imports Session
begin

text \<open>
  What the receiving side promises, without messages, streams and counters: an offer is
  followed by the packets of the file, one after the other, then by the delivery; it can be
  cancelled at any time. The transaction's handler simulates this machine under whatever a
  channel from the server of the file delivers.
\<close>

section \<open>The machine\<close>

datatype phase = Offered | Storing nat | Stored | Delivered | Cancelled

inductive receiver_step :: "byte list \<Rightarrow> phase \<Rightarrow> phase \<Rightarrow> bool" for bs where
  announce: "receiver_step bs Offered (Storing 0)"
| store: "Suc k < packets_of bs \<Longrightarrow> receiver_step bs (Storing k) (Storing (Suc k))"
| complete: "Suc k = packets_of bs \<Longrightarrow> receiver_step bs (Storing k) Stored"
| deliver: "receiver_step bs Stored Delivered"
| cancel: "receiver_step bs p Cancelled"
| stay: "receiver_step bs p p"

inductive_simps receiver_step_simps [simp]:
  "receiver_step bs Offered p" "receiver_step bs (Storing k) p" "receiver_step bs Stored p"
  "receiver_step bs Delivered p" "receiver_step bs Cancelled p"

text \<open>Phases in the order of a transfer: the machine never goes back.\<close>

fun phase_key :: "phase \<Rightarrow> nat \<times> nat" where
  "phase_key Offered = (0, 0)"
| "phase_key (Storing k) = (1, k)"
| "phase_key Stored = (2, 0)"
| "phase_key Delivered = (3, 0)"
| "phase_key Cancelled = (4, 0)"

lemma phase_key_inject: "phase_key p = phase_key q \<Longrightarrow> p = q"
  by (cases p; cases q) simp_all

instantiation phase :: linorder
begin

definition less_eq_phase :: "phase \<Rightarrow> phase \<Rightarrow> bool" where
  "p \<le> q \<longleftrightarrow> fst (phase_key p) < fst (phase_key q) \<or>
     fst (phase_key p) = fst (phase_key q) \<and> snd (phase_key p) \<le> snd (phase_key q)"

definition less_phase :: "phase \<Rightarrow> phase \<Rightarrow> bool" where
  "p < q \<longleftrightarrow> fst (phase_key p) < fst (phase_key q) \<or>
     fst (phase_key p) = fst (phase_key q) \<and> snd (phase_key p) < snd (phase_key q)"

instance
proof
  show "p = q" if "p \<le> q" "q \<le> p" for p q :: phase
    using that by (intro phase_key_inject prod_eqI) (auto simp: less_eq_phase_def)
qed (auto simp: less_eq_phase_def less_phase_def)

end

lemma receiver_step_mono: "receiver_step bs p q \<Longrightarrow> p \<le> q"
proof (induction rule: receiver_step.induct)
  case (cancel p)
  then show ?case by (cases p) (simp_all add: less_eq_phase_def)
qed (simp_all add: less_eq_phase_def)

lemma receiver_trace_sorted: "successively (receiver_step bs) ps \<Longrightarrow> sorted ps"
proof -
  assume "successively (receiver_step bs) ps"
  then have "successively (\<le>) ps"
    by (rule successively_mono) (rule receiver_step_mono)
  then show "sorted ps"
    by (simp add: successively_conv_sorted_wrt transp_on_le)
qed

definition receiver_phase :: "ClientTransaction \<Rightarrow> phase" where
  "receiver_phase ct =
     (if c_status ct = CHK then Offered
      else if c_status ct \<in> {RDY, DATA} then Storing (unat (c_packet_sequence_number ct))
      else if c_status ct = DONE then Stored
      else if c_status ct = FIN then Delivered
      else Cancelled)"

lemma cancelled_step:
  "client_SendMessage E CXL ct0 = Inr ct' \<Longrightarrow> receiver_step bs p (receiver_phase ct')"
  by (drule client_SendMessage_CXL(1)) (simp add: receiver_phase_def receiver_step.cancel)

section \<open>Simulation\<close>

lemma serves_storing:
  assumes "serves bs ct" "c_status ct \<in> {RDY, DATA}" "\<not> out_fail (c_new_file_stream ct)"
  obtains k where "k < packets_of bs" "holds_prefix bs k ct" "unat (c_packet_sequence_number ct) = k"
    "unat (c_total_packet_number ct) = packets_of bs"
proof -
  obtain k where k: "k < packets_of bs" "holds_prefix bs k ct"
    using assms by (auto simp: serves_def stores_only_def)
  then show thesis
    by (intro that [of k])
      (simp_all add: holds_prefix_def client_receiving_def unat_client_packets packets_of_def)
qed

lemma data_step:
  assumes "client_on_data E msg n ct = Inr ct'" "serves bs ct" "serves bs ct'"
  shows "receiver_step bs (receiver_phase ct) (receiver_phase ct')"
  using assms(1)
proof (cases rule: client_on_data_cases)
  case (cancelled ct0)
  then show ?thesis by (rule cancelled_step)
next
  case retransmit
  then have "receiver_phase ct' = receiver_phase ct"
    using client_SendMessage_frame [OF retransmit(3)] by (auto simp: receiver_phase_def client_sent_status_def)
  then show ?thesis by (simp add: receiver_step.stay)
next
  case stored
  have status: "c_status ct \<in> {RDY, DATA}"
    using stored(1) by (auto simp: client_data_admissible_def split: if_splits)
  obtain k where k: "unat (c_packet_sequence_number ct) = k"
    using serves_storing [OF assms(2) status client_data_state_ok [OF stored(3)]] by metis
  have new: "c_status ct' = DATA" "c_packet_sequence_number ct' = c_packet_sequence_number ct + 1"
    using stored(5) by (simp_all add: client_data_state_def)
  obtain k' where k': "k' < packets_of bs" "holds_prefix bs k' ct'" "unat (c_packet_sequence_number ct') = k'"
    using serves_storing [OF assms(3)] new(1) stored(3,5) by (metis insertCI)
  have "c_status ct' = (if k' = 0 then RDY else DATA)" using k'(2) by (simp add: holds_prefix_def)
  then have "k' \<noteq> 0" using new(1) by (auto split: if_splits)
  then have "1 + c_packet_sequence_number ct \<noteq> 0" using k'(3) new(2) by (auto simp: add.commute)
  then have "k' = Suc k" using k k'(3) new(2) by (simp add: unatSuc add.commute)
  then show ?thesis
    using k k' status new(1) by (auto simp: receiver_phase_def)
next
  case last
  have status: "c_status ct \<in> {RDY, DATA}"
    using last(1) by (auto simp: client_data_admissible_def split: if_splits)
  obtain k where k: "k < packets_of bs" "unat (c_packet_sequence_number ct) = k"
    "unat (c_total_packet_number ct) = packets_of bs"
    using serves_storing [OF assms(2) status client_data_state_ok [OF last(3)]] by metis
  have "1 + c_packet_sequence_number ct \<noteq> 0" using k(1,3) last(4) by (auto simp: add.commute)
  then have "Suc k = packets_of bs"
    using k last(4) by (metis unatSuc add.commute)
  then show ?thesis
    using client_complete_status(2) [OF last(5)] status k(2)
    by (auto simp: receiver_phase_def)
qed

lemma info_step:
  assumes "client_on_info E msg n ct = Inr ct'" "serves bs ct"
  shows "receiver_step bs (receiver_phase ct) (receiver_phase ct')"
  using assms(1)
proof (cases rule: client_on_info_cases)
  case (cancelled ct0)
  then show ?thesis by (rule cancelled_step)
next
  case ready
  have "c_status ct' = RDY" "c_packet_sequence_number ct' = 0"
    using client_SendMessage_frame [OF ready(6)] ready(1) assms(2)
    by (auto simp: client_sent_status_def client_info_state_def Let_def serves_def split: prod.splits)
  then show ?thesis using ready(1) by (simp add: receiver_phase_def)
qed

lemma fin_step:
  assumes "client_on_fin cb E n ct = Inr ct'"
  shows "receiver_step bs (receiver_phase ct) (receiver_phase ct')"
proof -
  consider "client_SendMessage E CXL ct = Inr ct'" | "c_status ct = DONE" "c_status ct' = FIN"
    using assms by (auto simp: client_on_fin_def Let_def bind_result_eq_Inr split: option.splits if_splits)
  then show ?thesis
    by cases (rule cancelled_step, assumption, simp add: receiver_phase_def)
qed

lemma receiver_simulates:
  assumes "client_OnReceive Transaction_Thread cb E msg len addr ct = Inr ct'" "serves bs ct"
    and "genuine bs msg len"
  shows "receiver_step bs (receiver_phase ct) (receiver_phase ct')"
proof -
  let ?ct = "ct\<lparr>c_server_address := addr\<rparr>" and ?n = "len - sizeof_TrftpHeader"
  have s: "serves bs ?ct" and same: "receiver_phase ?ct = receiver_phase ct"
    using assms(2) by (simp_all add: serves_def receiver_phase_def)
  have s': "serves bs ct'" by (rule client_OnReceive_serves [OF assms])
  have thr: "c_thread ?ct \<noteq> No_Thread" using s by (simp add: serves_def)
  have ntf: "receiver_step bs (receiver_phase ?ct) (receiver_phase ct')"
    if "client_on_ntf Transaction_Thread E msg ?n ?ct = Inr ct'"
    using that thr cancelled_step by (auto simp: client_on_ntf_def split: if_splits)
  have cxl: "receiver_step bs (receiver_phase ?ct) (receiver_phase ct')" if "client_on_cxl E ?ct = Inr ct'"
    using client_on_cxl_status(1) [OF that] by (simp add: receiver_phase_def receiver_step.cancel)
  show ?thesis
  proof (cases "client_ValidateMessageIntegrity msg len")
    case False
    then show ?thesis
      using assms(1) same by (auto simp: client_OnReceive_def receiver_step.stay)
  next
    case True
    note handled = assms(1) [unfolded client_OnReceive_def Let_def if_not_P [OF not_not [THEN iffD2, OF True]]]
    have "receiver_step bs (receiver_phase ?ct) (receiver_phase ct')"
      using handled ntf cxl info_step [OF _ s] data_step [OF _ s s'] fin_step
      by (cases "message_id (xid (header msg))") (auto intro: receiver_step.stay)
    with same show ?thesis by simp
  qed
qed

section \<open>Runs\<close>

text \<open>The states of a transaction before, between and after the datagrams of a list.\<close>

fun client_states :: "on_file_received \<Rightarrow> delivery list \<Rightarrow> ClientTransaction \<Rightarrow> ClientTransaction list" where
  "client_states cb [] ct = [ct]"
| "client_states cb (d # ds) ct =
     ct #
     (case client_OnReceive Transaction_Thread cb (del_env d) (del_msg d) (del_len d) (del_addr d) ct of
        Inl e \<Rightarrow> []
      | Inr ct1 \<Rightarrow> client_states cb ds ct1)"

text \<open>What a phase means: the stream holds the packets counted, the stored file is the one offered.\<close>

definition phase_holds :: "byte list \<Rightarrow> ClientTransaction \<Rightarrow> bool" where
  "phase_holds bs ct \<longleftrightarrow>
     (case receiver_phase ct of
        Storing k \<Rightarrow> k < packets_of bs \<and> out_data (c_new_file_stream ct) = take (k * 1408) bs \<or>
          out_fail (c_new_file_stream ct)
      | Stored \<Rightarrow> \<exists>f. c_files ct (c_new_file_path ct) = Some f \<and> content f = bs
      | _ \<Rightarrow> True)"

lemma serves_phase_holds: "serves bs ct \<Longrightarrow> phase_holds bs ct"
  by (auto simp: phase_holds_def receiver_phase_def serves_def stores_only_def holds_prefix_def)

lemma client_states_feed:
  assumes "client_feed cb ds ct = Inr ct'"
  shows "length (client_states cb ds ct) = Suc (length ds)"
    and "k \<le> length ds \<Longrightarrow> client_feed cb (take k ds) ct = Inr (client_states cb ds ct ! k)"
  using assms
proof (induction ds arbitrary: ct k)
  case (Cons d ds)
  {
    case 1
    then show ?case using Cons.IH(1) by (auto simp: bind_result_eq_Inr)
  next
    case 2
    then show ?case using Cons.IH(2) by (cases k) (auto simp: bind_result_eq_Inr)
  }
qed simp_all

lemma client_states_nonempty [simp]: "client_states cb ds ct \<noteq> []"
  by (cases ds) simp_all

lemma hd_client_states [simp]: "hd (client_states cb ds ct) = ct"
  by (cases ds) simp_all

lemma client_states_serve:
  assumes "client_feed cb ds ct = Inr ct'" "serves bs ct"
    and "\<And>d. d \<in> set ds \<Longrightarrow> genuine bs (del_msg d) (del_len d)"
  shows "successively (receiver_step bs) (map receiver_phase (client_states cb ds ct)) \<and>
    (\<forall>ct1 \<in> set (client_states cb ds ct). serves bs ct1)"
  using assms
proof (induction ds arbitrary: ct)
  case Nil
  then show ?case by simp
next
  case (Cons d ds)
  then obtain ct1 where ct1: "client_OnReceive Transaction_Thread cb (del_env d) (del_msg d) (del_len d)
      (del_addr d) ct = Inr ct1" "client_feed cb ds ct1 = Inr ct'"
    by (auto simp: bind_result_eq_Inr)
  have g: "genuine bs (del_msg d) (del_len d)" using Cons.prems(3) by simp
  have s1: "serves bs ct1" using client_OnReceive_serves [OF ct1(1) Cons.prems(2) g] .
  show ?case
    using Cons.IH [OF ct1(2) s1] Cons.prems(2,3) ct1(1) receiver_simulates [OF ct1(1) Cons.prems(2) g]
    by (simp add: successively_Cons hd_map)
qed

end
