(* ===== verification/Thread_Safe_Log.thy ===== *)
theory Thread_Safe_Log
  imports Prelude "HOL-Library.Multiset"
begin

text \<open>
  \<^verbatim>\<open>src/thread_safe_log.cpp\<close>: the streams behind \<^verbatim>\<open>tout\<close>, \<^verbatim>\<open>terr\<close> and \<^verbatim>\<open>tfout\<close>. A
  \<^verbatim>\<open>ThreadStream\<close> collects a message in its own buffer; its destructor writes the message
  to the output under the mutex of that output. Any number of threads create, fill and
  destroy streams; characters are written one at a time. The application may change the
  format of an output at any moment.
\<close>

section \<open>Outputs and their mutexes\<close>

text \<open>\<open>Other n\<close>: a \<^verbatim>\<open>std::ostream\<close> that is neither \<^verbatim>\<open>std::cout\<close> nor \<^verbatim>\<open>std::cerr\<close>.\<close>

datatype sink = Cout | Cerr | Other nat | Log_File path

datatype mutex = Cout_Mutex | Cerr_Mutex | File_Mutex nat

definition GetConsoleMutex :: "sink \<Rightarrow> mutex result" where
  "GetConsoleMutex os =
     (if os = Cout then Inr Cout_Mutex
      else if os = Cerr then Inr Cerr_Mutex
      else Inl (Runtime_Error ''Unknown console stream''))"

text \<open>The static map \<^verbatim>\<open>file_mutexes\<close>, and how many mutexes it has allocated.\<close>

record file_mutexes =
  fm_map :: "path \<rightharpoonup> nat"
  fm_next :: nat

definition GetFileMutex :: "path \<Rightarrow> file_mutexes \<Rightarrow> mutex \<times> file_mutexes" where
  "GetFileMutex file_path fm =
     (case fm_map fm file_path of
        Some k \<Rightarrow> (File_Mutex k, fm)
      | None \<Rightarrow> (File_Mutex (fm_next fm),
                  fm\<lparr>fm_map := (fm_map fm)(file_path \<mapsto> fm_next fm), fm_next := Suc (fm_next fm)\<rparr>))"

section \<open>Formats\<close>

text \<open>What the code reads or sets of a \<^verbatim>\<open>std::ios_base\<close>, and what the insertion of a text uses of it;
  its state when it is constructed.\<close>

record ios_props =
  ip_loc :: string
  ip_precision :: int
  ip_width :: nat
  ip_fixed :: bool
  ip_fill :: char
  ip_left :: bool

definition ios_init :: ios_props where
  "ios_init = \<lparr>ip_loc = ''C'', ip_precision = 6, ip_width = 0, ip_fixed = False, ip_fill = CHR '' '',
     ip_left = False\<rparr>"

text \<open>\<open>out\<close>: the output; \<open>own\<close>: the stream's own properties.\<close>

definition InitializeStreamProperties :: "ios_props \<Rightarrow> ios_props \<Rightarrow> ios_props" where
  "InitializeStreamProperties out own =
     own\<lparr>ip_loc := ip_loc out, ip_precision := ip_precision out, ip_width := ip_width out,
         ip_fixed := True\<rparr>"

text \<open>The insertion of a text pads it to the width, which it then resets.\<close>

definition pad :: "ios_props \<Rightarrow> string \<Rightarrow> string" where
  "pad p s =
     (let fill = replicate (ip_width p - length s) (ip_fill p)
      in if ip_left p then s @ fill else fill @ s)"

lemma pad_no_width: "ip_width p \<le> length s \<Longrightarrow> pad p s = s"
  by (simp add: pad_def)

section \<open>Streams\<close>

text \<open>\<open>ts_text\<close> is not in the code: what the destructor of the stream inserts into the output.
  A stream is in use; in the destructor with the mutex held and \<open>rest\<close> still to be written; gone.\<close>

datatype stream_pc = In_Use | Writing string | Destroyed

record ThreadStream =
  ts_os :: sink
  ts_os_mutex :: mutex
  ts_owns_file :: bool
  ts_props :: ios_props
  ts_str :: string
  ts_pc :: stream_pc
  ts_text :: string

definition ThreadStream_console :: "ios_props \<Rightarrow> sink \<Rightarrow> ThreadStream result" where
  "ThreadStream_console props os =
     bind_result (GetConsoleMutex os)
       (\<lambda>m. Inr \<lparr>ts_os = os, ts_os_mutex = m, ts_owns_file = False,
          ts_props = InitializeStreamProperties props ios_init, ts_str = [], ts_pc = In_Use, ts_text = []\<rparr>)"

text \<open>\<open>ok\<close>: whether the file can be opened for appending. The output is the stream's own file stream.\<close>

definition ThreadStream_file :: "bool \<Rightarrow> path \<Rightarrow> file_mutexes \<Rightarrow> ThreadStream result \<times> file_mutexes" where
  "ThreadStream_file ok file_path fm =
     (let (m, fm) = GetFileMutex file_path fm
      in (if \<not> ok then Inl (Runtime_Error (''Failed to open file: '' @ file_path))
          else Inr \<lparr>ts_os = Log_File file_path, ts_os_mutex = m, ts_owns_file = True,
                    ts_props = InitializeStreamProperties ios_init ios_init, ts_str = [], ts_pc = In_Use,
                    ts_text = []\<rparr>, fm))"

text \<open>\<^verbatim>\<open>operator<<\<close>\<close>

definition stream_put :: "string \<Rightarrow> ThreadStream \<Rightarrow> ThreadStream" where
  "stream_put s ts =
     ts\<lparr>ts_str := ts_str ts @ pad (ts_props ts) s, ts_props := (ts_props ts)\<lparr>ip_width := 0\<rparr>\<rparr>"

section \<open>The process\<close>

text \<open>Who holds a mutex, what the outputs have received, the streams in the order of their
  creation, and (not in the code) the messages each output has received.\<close>

record log_sys =
  lg_mutexes :: file_mutexes
  lg_holder :: "mutex \<Rightarrow> nat option"
  lg_props :: "sink \<Rightarrow> ios_props"
  lg_out :: "sink \<Rightarrow> string"
  lg_streams :: "ThreadStream list"
  lg_messages :: "sink \<Rightarrow> string list"

definition set_stream :: "nat \<Rightarrow> ThreadStream \<Rightarrow> log_sys \<Rightarrow> log_sys" where
  "set_stream k ts s = s\<lparr>lg_streams := (lg_streams s)[k := ts]\<rparr>"

definition log_init :: "log_sys \<Rightarrow> bool" where
  "log_init s \<longleftrightarrow>
     s = \<lparr>lg_mutexes = \<lparr>fm_map = Map.empty, fm_next = 0\<rparr>, lg_holder = (\<lambda>_. None),
          lg_props = (\<lambda>_. ios_init), lg_out = (\<lambda>_. []), lg_streams = [], lg_messages = (\<lambda>_. [])\<rparr>"

text \<open>The properties of the output when a stream is destroyed: a file stream is its own.\<close>

definition sink_props :: "log_sys \<Rightarrow> sink \<Rightarrow> ios_props" where
  "sink_props s os = (case os of Log_File p \<Rightarrow> ios_init | _ \<Rightarrow> lg_props s os)"

inductive log_step :: "log_sys \<Rightarrow> log_sys \<Rightarrow> bool" where
  console:
    "ThreadStream_console (lg_props s os) os = Inr ts \<Longrightarrow> log_step s (s\<lparr>lg_streams := lg_streams s @ [ts]\<rparr>)"
| open_file:
    "ThreadStream_file ok p (lg_mutexes s) = (Inr ts, fm) \<Longrightarrow>
     log_step s (s\<lparr>lg_mutexes := fm, lg_streams := lg_streams s @ [ts]\<rparr>)"
| open_fails:
    "ThreadStream_file ok p (lg_mutexes s) = (Inl e, fm) \<Longrightarrow> log_step s (s\<lparr>lg_mutexes := fm\<rparr>)"
| put:
    "k < length (lg_streams s) \<Longrightarrow> ts_pc (lg_streams s ! k) = In_Use \<Longrightarrow>
     log_step s (set_stream k (stream_put c (lg_streams s ! k)) s)"
| set_format:
    "log_step s (s\<lparr>lg_props := (lg_props s)(os := p)\<rparr>)"
| lock:
    "k < length (lg_streams s) \<Longrightarrow> ts = lg_streams s ! k \<Longrightarrow> ts_pc ts = In_Use \<Longrightarrow>
     lg_holder s (ts_os_mutex ts) = None \<Longrightarrow> body = pad (sink_props s (ts_os ts)) (ts_str ts) \<Longrightarrow>
     log_step s ((set_stream k (ts\<lparr>ts_pc := Writing body, ts_text := body\<rparr>) s)
       \<lparr>lg_holder := (lg_holder s)(ts_os_mutex ts := Some k),
        lg_props := (lg_props s)(ts_os ts := (lg_props s (ts_os ts))\<lparr>ip_width := 0\<rparr>)\<rparr>)"
| put_char:
    "k < length (lg_streams s) \<Longrightarrow> ts = lg_streams s ! k \<Longrightarrow> ts_pc ts = Writing (c # rest) \<Longrightarrow>
     log_step s ((set_stream k (ts\<lparr>ts_pc := Writing rest\<rparr>) s)
       \<lparr>lg_out := (lg_out s)(ts_os ts := lg_out s (ts_os ts) @ [c])\<rparr>)"
| unlock:
    "k < length (lg_streams s) \<Longrightarrow> ts = lg_streams s ! k \<Longrightarrow> ts_pc ts = Writing [] \<Longrightarrow>
     log_step s ((set_stream k (ts\<lparr>ts_pc := Destroyed\<rparr>) s)
       \<lparr>lg_holder := (lg_holder s)(ts_os_mutex ts := None),
        lg_messages := (lg_messages s)(ts_os ts := lg_messages s (ts_os ts) @ [ts_text ts])\<rparr>)"

section \<open>The invariant\<close>

text \<open>The mutex of an output: one per output.\<close>

definition mutex_of :: "file_mutexes \<Rightarrow> sink \<Rightarrow> mutex option" where
  "mutex_of fm os =
     (case os of
        Cout \<Rightarrow> Some Cout_Mutex
      | Cerr \<Rightarrow> Some Cerr_Mutex
      | Other n \<Rightarrow> None
      | Log_File p \<Rightarrow> map_option File_Mutex (fm_map fm p))"

definition fm_ok :: "file_mutexes \<Rightarrow> bool" where
  "fm_ok fm \<longleftrightarrow>
     (\<forall>p k. fm_map fm p = Some k \<longrightarrow> k < fm_next fm) \<and>
     (\<forall>p q k. fm_map fm p = Some k \<longrightarrow> fm_map fm q = Some k \<longrightarrow> p = q)"

lemma mutex_of_inject:
  "fm_ok fm \<Longrightarrow> mutex_of fm os = Some m \<Longrightarrow> mutex_of fm os' = Some m \<Longrightarrow> os = os'"
  by (auto simp: mutex_of_def fm_ok_def split: sink.splits)

lemma GetFileMutex_ok:
  assumes "GetFileMutex p fm = (m, fm')" "fm_ok fm"
  shows "fm_ok fm'" "mutex_of fm' (Log_File p) = Some m"
    "mutex_of fm os = Some m' \<Longrightarrow> mutex_of fm' os = Some m'"
proof -
  have "fm_ok fm' \<and> mutex_of fm' (Log_File p) = Some m \<and>
    (mutex_of fm os = Some m' \<longrightarrow> mutex_of fm' os = Some m')"
  proof (cases "fm_map fm p")
    case None
    have old: "k < fm_next fm" if "fm_map fm q = Some k" for q k
      using assms(2) that by (simp add: fm_ok_def)
    have inj: "q = r" if "fm_map fm q = Some k" "fm_map fm r = Some k" for q r k
      using assms(2) that unfolding fm_ok_def by blast
    have new: "m = File_Mutex (fm_next fm)" "fm_map fm' = (fm_map fm)(p \<mapsto> fm_next fm)"
      "fm_next fm' = Suc (fm_next fm)"
      using assms(1) None by (auto simp: GetFileMutex_def)
    have "fm_ok fm'"
      unfolding fm_ok_def new using old inj by (auto simp: less_Suc_eq)
    moreover have "mutex_of fm os = Some m' \<Longrightarrow> mutex_of fm' os = Some m'"
      using None by (auto simp: mutex_of_def new split: sink.splits)
    ultimately show ?thesis by (simp add: mutex_of_def new)
  next
    case (Some k)
    then show ?thesis using assms by (auto simp: GetFileMutex_def mutex_of_def)
  qed
  then show "fm_ok fm'" "mutex_of fm' (Log_File p) = Some m"
    "mutex_of fm os = Some m' \<Longrightarrow> mutex_of fm' os = Some m'" by blast+
qed

text \<open>Stream \<open>k\<close> is in the critical section, with \<open>rest\<close> to write.\<close>

definition writing :: "log_sys \<Rightarrow> nat \<Rightarrow> string \<Rightarrow> bool" where
  "writing s k rest \<longleftrightarrow> k < length (lg_streams s) \<and> ts_pc (lg_streams s ! k) = Writing rest"

definition destroyed_messages :: "sink \<Rightarrow> ThreadStream list \<Rightarrow> string list" where
  "destroyed_messages os tss = map ts_text (filter (\<lambda>ts. ts_os ts = os \<and> ts_pc ts = Destroyed) tss)"

definition log_inv :: "log_sys \<Rightarrow> bool" where
  "log_inv s \<longleftrightarrow>
     fm_ok (lg_mutexes s) \<and>
     (\<forall>ts \<in> set (lg_streams s). mutex_of (lg_mutexes s) (ts_os ts) = Some (ts_os_mutex ts)) \<and>
     (\<forall>k rest. writing s k rest \<longrightarrow>
        lg_holder s (ts_os_mutex (lg_streams s ! k)) = Some k \<and>
        lg_out s (ts_os (lg_streams s ! k)) @ rest =
          concat (lg_messages s (ts_os (lg_streams s ! k))) @ ts_text (lg_streams s ! k) \<and>
        length rest \<le> length (ts_text (lg_streams s ! k))) \<and>
     (\<forall>os. (\<forall>k rest. writing s k rest \<longrightarrow> ts_os (lg_streams s ! k) \<noteq> os) \<longrightarrow>
        lg_out s os = concat (lg_messages s os)) \<and>
     (\<forall>os. mset (lg_messages s os) = mset (destroyed_messages os (lg_streams s)))"

lemma log_invD:
  assumes "log_inv s"
  shows "fm_ok (lg_mutexes s)"
    and "\<And>k. k < length (lg_streams s) \<Longrightarrow>
      mutex_of (lg_mutexes s) (ts_os (lg_streams s ! k)) = Some (ts_os_mutex (lg_streams s ! k))"
    and "\<And>k rest. writing s k rest \<Longrightarrow> lg_holder s (ts_os_mutex (lg_streams s ! k)) = Some k"
    and "\<And>k rest. writing s k rest \<Longrightarrow> lg_out s (ts_os (lg_streams s ! k)) @ rest =
      concat (lg_messages s (ts_os (lg_streams s ! k))) @ ts_text (lg_streams s ! k)"
    and "\<And>os. (\<And>k rest. writing s k rest \<Longrightarrow> ts_os (lg_streams s ! k) \<noteq> os) \<Longrightarrow>
      lg_out s os = concat (lg_messages s os)"
    and "\<And>os. mset (lg_messages s os) = mset (destroyed_messages os (lg_streams s))"
    and "\<And>k rest. writing s k rest \<Longrightarrow> length rest \<le> length (ts_text (lg_streams s ! k))"
  using assms unfolding log_inv_def all_set_conv_all_nth by blast+

text \<open>Mutual exclusion: two streams of one output are not both in the critical section.\<close>

lemma writing_unique:
  assumes "log_inv s" "writing s k rest" "writing s k' rest'"
    and "ts_os (lg_streams s ! k) = ts_os (lg_streams s ! k')"
  shows "k = k'"
proof -
  have "ts_os_mutex (lg_streams s ! k) = ts_os_mutex (lg_streams s ! k')"
    using log_invD(2) [OF assms(1), of k] log_invD(2) [OF assms(1), of k'] assms(2-4)
    by (simp add: writing_def)
  then show ?thesis
    using log_invD(3) [OF assms(1,2)] log_invD(3) [OF assms(1,3)] by (metis option.inject)
qed

section \<open>Preservation\<close>

lemma set_stream_simps [simp]:
  "lg_streams (set_stream k ts s) = (lg_streams s)[k := ts]"
  "lg_mutexes (set_stream k ts s) = lg_mutexes s"
  "lg_holder (set_stream k ts s) = lg_holder s"
  "lg_out (set_stream k ts s) = lg_out s"
  "lg_messages (set_stream k ts s) = lg_messages s"
  by (simp_all add: set_stream_def)

lemma writing_update:
  assumes "lg_streams s' = (lg_streams s)[k := ts]" "k < length (lg_streams s)"
  shows "writing s' j rest \<longleftrightarrow> (if j = k then ts_pc ts = Writing rest else writing s j rest)"
  using assms by (auto simp: writing_def)

lemma destroyed_update:
  assumes "k < length tss" "ts_pc (tss ! k) \<noteq> Destroyed"
  shows "mset (destroyed_messages os (tss[k := ts])) = mset (destroyed_messages os tss) +
    (if ts_os ts = os \<and> ts_pc ts = Destroyed then {#ts_text ts#} else {#})"
proof -
  have "tss = take k tss @ tss ! k # drop (Suc k) tss"
    using assms(1) by (rule id_take_nth_drop)
  then have old: "destroyed_messages os tss =
      destroyed_messages os (take k tss @ tss ! k # drop (Suc k) tss)" by simp
  show ?thesis
    unfolding old upd_conv_take_nth_drop [OF assms(1)]
    using assms(2) by (simp add: destroyed_messages_def)
qed

text \<open>A new stream changes nothing for the others.\<close>

lemma new_stream_inv:
  assumes "log_inv s" "fm_ok fm" "mutex_of fm (ts_os ts) = Some (ts_os_mutex ts)" "ts_pc ts = In_Use"
    and "\<And>os m. mutex_of (lg_mutexes s) os = Some m \<Longrightarrow> mutex_of fm os = Some m"
  shows "log_inv (s\<lparr>lg_mutexes := fm, lg_streams := lg_streams s @ [ts]\<rparr>)"
proof -
  let ?s = "s\<lparr>lg_mutexes := fm, lg_streams := lg_streams s @ [ts]\<rparr>"
  have w: "writing ?s k rest \<longleftrightarrow> writing s k rest" for k rest
    using assms(4) by (auto simp: writing_def nth_append less_Suc_eq)
  have same: "lg_streams ?s ! k = lg_streams s ! k" if "writing s k rest" for k rest
    using that by (simp add: writing_def nth_append)
  have "destroyed_messages os (lg_streams ?s) = destroyed_messages os (lg_streams s)" for os
    using assms(4) by (simp add: destroyed_messages_def)
  moreover have "\<forall>t \<in> set (lg_streams ?s). mutex_of fm (ts_os t) = Some (ts_os_mutex t)"
    using assms(1,3,5) by (auto simp: log_inv_def)
  ultimately show ?thesis
    using assms(1,2) w same unfolding log_inv_def by simp
qed

text \<open>A stream that moves: what is to be shown of it, and of the outputs, when the others stay.\<close>

lemma stream_step_inv:
  assumes inv: "log_inv s" and k: "k < length (lg_streams s)"
    and frame: "lg_streams s' = (lg_streams s)[k := ts]" "lg_mutexes s' = lg_mutexes s"
    and ts: "ts_os ts = ts_os (lg_streams s ! k)" "ts_os_mutex ts = ts_os_mutex (lg_streams s ! k)"
    and others: "\<And>j rest. j \<noteq> k \<Longrightarrow> writing s j rest \<Longrightarrow>
      lg_holder s' (ts_os_mutex (lg_streams s ! j)) = lg_holder s (ts_os_mutex (lg_streams s ! j)) \<and>
      lg_out s' (ts_os (lg_streams s ! j)) = lg_out s (ts_os (lg_streams s ! j)) \<and>
      lg_messages s' (ts_os (lg_streams s ! j)) = lg_messages s (ts_os (lg_streams s ! j))"
    and own: "\<And>rest. ts_pc ts = Writing rest \<Longrightarrow> lg_holder s' (ts_os_mutex ts) = Some k \<and>
      lg_out s' (ts_os ts) @ rest = concat (lg_messages s' (ts_os ts)) @ ts_text ts \<and>
      length rest \<le> length (ts_text ts)"
    and out: "\<And>os. (\<And>j rest. j \<noteq> k \<Longrightarrow> writing s j rest \<Longrightarrow> ts_os (lg_streams s ! j) \<noteq> os) \<Longrightarrow>
      (\<And>rest. ts_pc ts = Writing rest \<Longrightarrow> ts_os ts \<noteq> os) \<Longrightarrow> lg_out s' os = concat (lg_messages s' os)"
    and messages: "\<And>os. mset (lg_messages s' os) = mset (destroyed_messages os (lg_streams s'))"
  shows "log_inv s'"
proof -
  note w = writing_update [OF frame(1) k]
  note D = log_invD [OF inv]
  have nth: "lg_streams s' ! j = (if j = k then ts else lg_streams s ! j)" for j
    using frame(1) k by simp
  have mutexes: "\<forall>t \<in> set (lg_streams s'). mutex_of (lg_mutexes s') (ts_os t) = Some (ts_os_mutex t)"
    unfolding frame all_set_conv_all_nth using D(2) ts k by (simp add: nth_list_update)
  have streams: "lg_holder s' (ts_os_mutex (lg_streams s' ! j)) = Some j \<and>
      lg_out s' (ts_os (lg_streams s' ! j)) @ rest =
        concat (lg_messages s' (ts_os (lg_streams s' ! j))) @ ts_text (lg_streams s' ! j) \<and>
      length rest \<le> length (ts_text (lg_streams s' ! j))"
    if "writing s' j rest" for j rest
    using that own others [of j] D(3,4,7) [of j rest] by (cases "j = k") (simp_all add: w nth)
  have outs: "lg_out s' os = concat (lg_messages s' os)"
    if quiet: "\<And>j rest. writing s' j rest \<Longrightarrow> ts_os (lg_streams s' ! j) \<noteq> os" for os
  proof (rule out)
    show "ts_os (lg_streams s ! j) \<noteq> os" if "j \<noteq> k" "writing s j rest" for j rest
      using quiet [of j rest] that by (simp add: w nth)
    show "ts_os ts \<noteq> os" if "ts_pc ts = Writing rest" for rest
      using quiet [of k rest] that by (simp add: w nth)
  qed
  show ?thesis
    unfolding log_inv_def
  proof (intro conjI allI impI)
    show "fm_ok (lg_mutexes s')" using D(1) frame(2) by simp
    show "lg_out s' os = concat (lg_messages s' os)"
      if "\<forall>j rest. writing s' j rest \<longrightarrow> ts_os (lg_streams s' ! j) \<noteq> os" for os
      using outs [of os] that by blast
  qed (use mutexes streams messages in simp_all)
qed

text \<open>A stream of output \<open>os\<close> in the critical section holds the mutex the others wait for.\<close>

lemma other_output:
  assumes "log_inv s" "writing s j rest" "k < length (lg_streams s)"
    and "lg_holder s (ts_os_mutex (lg_streams s ! k)) \<noteq> Some j"
  shows "ts_os_mutex (lg_streams s ! j) \<noteq> ts_os_mutex (lg_streams s ! k)"
    and "ts_os (lg_streams s ! j) \<noteq> ts_os (lg_streams s ! k)"
proof -
  note D = log_invD [OF assms(1)]
  show m: "ts_os_mutex (lg_streams s ! j) \<noteq> ts_os_mutex (lg_streams s ! k)"
    using D(3) [OF assms(2)] assms(4) by auto
  have "j < length (lg_streams s)" using assms(2) by (simp add: writing_def)
  then show "ts_os (lg_streams s ! j) \<noteq> ts_os (lg_streams s ! k)"
    using m D(2) [of j] D(2) [OF assms(3)] by auto
qed

lemma put_inv:
  assumes inv: "log_inv s" and k: "k < length (lg_streams s)" and pc: "ts_pc (lg_streams s ! k) = In_Use"
  shows "log_inv (set_stream k (stream_put c (lg_streams s ! k)) s)"
proof (rule stream_step_inv [OF inv k, where ts = "stream_put c (lg_streams s ! k)"])
  note D = log_invD [OF inv]
  show "lg_out (set_stream k (stream_put c (lg_streams s ! k)) s) os =
      concat (lg_messages (set_stream k (stream_put c (lg_streams s ! k)) s) os)"
    if "\<And>j rest. j \<noteq> k \<Longrightarrow> writing s j rest \<Longrightarrow> ts_os (lg_streams s ! j) \<noteq> os" for os
    using D(5) [of os] that pc by (force simp: writing_def)
qed (use pc k log_invD(6) [OF inv] in \<open>simp_all add: stream_put_def destroyed_update\<close>)

lemma lock_inv:
  assumes inv: "log_inv s" and k: "k < length (lg_streams s)" and ts: "ts = lg_streams s ! k"
    and pc: "ts_pc ts = In_Use" and free: "lg_holder s (ts_os_mutex ts) = None"
  shows "log_inv ((set_stream k (ts\<lparr>ts_pc := Writing body, ts_text := body\<rparr>) s)
    \<lparr>lg_holder := (lg_holder s)(ts_os_mutex ts := Some k), lg_props := p\<rparr>)" (is "log_inv ?s")
proof (rule stream_step_inv [OF inv k, where ts = "ts\<lparr>ts_pc := Writing body, ts_text := body\<rparr>"])
  note D = log_invD [OF inv]
  have other: "ts_os_mutex (lg_streams s ! j) \<noteq> ts_os_mutex ts" "ts_os (lg_streams s ! j) \<noteq> ts_os ts"
    if "writing s j rest" for j rest
    using other_output [OF inv that k] free ts by simp_all
  show "lg_holder ?s (ts_os_mutex (lg_streams s ! j)) = lg_holder s (ts_os_mutex (lg_streams s ! j)) \<and>
      lg_out ?s (ts_os (lg_streams s ! j)) = lg_out s (ts_os (lg_streams s ! j)) \<and>
      lg_messages ?s (ts_os (lg_streams s ! j)) = lg_messages s (ts_os (lg_streams s ! j))"
    if "writing s j rest" for j rest
    using other(1) [OF that] by simp
  have quiet: "lg_out s (ts_os ts) = concat (lg_messages s (ts_os ts))"
    using D(5) [of "ts_os ts"] other(2) by blast
  show "lg_holder ?s (ts_os_mutex (ts\<lparr>ts_pc := Writing body, ts_text := body\<rparr>)) = Some k \<and>
      lg_out ?s (ts_os (ts\<lparr>ts_pc := Writing body, ts_text := body\<rparr>)) @ rest =
        concat (lg_messages ?s (ts_os (ts\<lparr>ts_pc := Writing body, ts_text := body\<rparr>))) @
          ts_text (ts\<lparr>ts_pc := Writing body, ts_text := body\<rparr>) \<and>
      length rest \<le> length (ts_text (ts\<lparr>ts_pc := Writing body, ts_text := body\<rparr>))"
    if "ts_pc (ts\<lparr>ts_pc := Writing body, ts_text := body\<rparr>) = Writing rest" for rest
    using that quiet by simp
  show "lg_out ?s os = concat (lg_messages ?s os)"
    if "\<And>j rest. j \<noteq> k \<Longrightarrow> writing s j rest \<Longrightarrow> ts_os (lg_streams s ! j) \<noteq> os" for os
    using D(5) [of os] that pc ts by (force simp: writing_def)
qed (use ts pc k log_invD(6) [OF inv] in \<open>simp_all add: destroyed_update\<close>)

lemma put_char_inv:
  assumes inv: "log_inv s" and k: "k < length (lg_streams s)" and ts: "ts = lg_streams s ! k"
    and pc: "ts_pc ts = Writing (c # rest)"
  shows "log_inv ((set_stream k (ts\<lparr>ts_pc := Writing rest\<rparr>) s)
    \<lparr>lg_out := (lg_out s)(ts_os ts := lg_out s (ts_os ts) @ [c])\<rparr>)" (is "log_inv ?s")
proof (rule stream_step_inv [OF inv k, where ts = "ts\<lparr>ts_pc := Writing rest\<rparr>"])
  note D = log_invD [OF inv]
  have w: "writing s k (c # rest)" using k ts pc by (simp add: writing_def)
  have other: "ts_os (lg_streams s ! j) \<noteq> ts_os ts" if "j \<noteq> k" "writing s j r" for j r
    using writing_unique [OF inv that(2) w] that(1) ts by auto
  show "lg_holder ?s (ts_os_mutex (lg_streams s ! j)) = lg_holder s (ts_os_mutex (lg_streams s ! j)) \<and>
      lg_out ?s (ts_os (lg_streams s ! j)) = lg_out s (ts_os (lg_streams s ! j)) \<and>
      lg_messages ?s (ts_os (lg_streams s ! j)) = lg_messages s (ts_os (lg_streams s ! j))"
    if "j \<noteq> k" "writing s j r" for j r
    using other [OF that] by simp
  show "lg_holder ?s (ts_os_mutex (ts\<lparr>ts_pc := Writing rest\<rparr>)) = Some k \<and>
      lg_out ?s (ts_os (ts\<lparr>ts_pc := Writing rest\<rparr>)) @ r =
        concat (lg_messages ?s (ts_os (ts\<lparr>ts_pc := Writing rest\<rparr>))) @ ts_text (ts\<lparr>ts_pc := Writing rest\<rparr>) \<and>
      length r \<le> length (ts_text (ts\<lparr>ts_pc := Writing rest\<rparr>))"
    if "ts_pc (ts\<lparr>ts_pc := Writing rest\<rparr>) = Writing r" for r
    using that D(3,4,7) [OF w] ts by simp
  show "lg_out ?s os = concat (lg_messages ?s os)"
    if "\<And>j r. j \<noteq> k \<Longrightarrow> writing s j r \<Longrightarrow> ts_os (lg_streams s ! j) \<noteq> os"
      "\<And>r. ts_pc (ts\<lparr>ts_pc := Writing rest\<rparr>) = Writing r \<Longrightarrow> ts_os (ts\<lparr>ts_pc := Writing rest\<rparr>) \<noteq> os" for os
  proof -
    have "os \<noteq> ts_os ts" using that(2) by auto
    moreover from this have "lg_out s os = concat (lg_messages s os)"
      using D(5) [of os] that(1) ts by metis
    ultimately show ?thesis by simp
  qed
qed (use ts pc k log_invD(6) [OF inv] in \<open>simp_all add: destroyed_update\<close>)

lemma unlock_inv:
  assumes inv: "log_inv s" and k: "k < length (lg_streams s)" and ts: "ts = lg_streams s ! k"
    and pc: "ts_pc ts = Writing []"
  shows "log_inv ((set_stream k (ts\<lparr>ts_pc := Destroyed\<rparr>) s)
    \<lparr>lg_holder := (lg_holder s)(ts_os_mutex ts := None),
     lg_messages := (lg_messages s)(ts_os ts := lg_messages s (ts_os ts) @ [ts_text ts])\<rparr>)" (is "log_inv ?s")
proof (rule stream_step_inv [OF inv k, where ts = "ts\<lparr>ts_pc := Destroyed\<rparr>"])
  note D = log_invD [OF inv]
  have w: "writing s k []" using k ts pc by (simp add: writing_def)
  have other: "ts_os_mutex (lg_streams s ! j) \<noteq> ts_os_mutex ts" "ts_os (lg_streams s ! j) \<noteq> ts_os ts"
    if "j \<noteq> k" "writing s j r" for j r
    using other_output [OF inv that(2) k] D(3) [OF w] that(1) ts by simp_all
  show "lg_holder ?s (ts_os_mutex (lg_streams s ! j)) = lg_holder s (ts_os_mutex (lg_streams s ! j)) \<and>
      lg_out ?s (ts_os (lg_streams s ! j)) = lg_out s (ts_os (lg_streams s ! j)) \<and>
      lg_messages ?s (ts_os (lg_streams s ! j)) = lg_messages s (ts_os (lg_streams s ! j))"
    if "j \<noteq> k" "writing s j r" for j r
    using other [OF that] by simp
  show "lg_out ?s os = concat (lg_messages ?s os)"
    if quiet: "\<And>j r. j \<noteq> k \<Longrightarrow> writing s j r \<Longrightarrow> ts_os (lg_streams s ! j) \<noteq> os" for os
  proof (cases "os = ts_os ts")
    case True
    then show ?thesis using D(4) [OF w] ts by simp
  next
    case False
    then have "lg_out s os = concat (lg_messages s os)"
      using D(5) [of os] quiet ts by metis
    then show ?thesis using False by simp
  qed
qed (use ts pc k log_invD(6) [OF inv] in \<open>simp_all add: destroyed_update\<close>)

lemma log_step_inv:
  assumes "log_inv s" "log_step s t"
  shows "log_inv t"
  using assms(2)
proof cases
  case (console os ts)
  then have "log_inv (s\<lparr>lg_mutexes := lg_mutexes s, lg_streams := lg_streams s @ [ts]\<rparr>)"
    using log_invD(1) [OF assms(1)]
    by (intro new_stream_inv [OF assms(1)])
      (auto simp: ThreadStream_console_def GetConsoleMutex_def mutex_of_def bind_result_eq_Inr split: if_splits)
  then show ?thesis using console(1) by simp
next
  case (open_file ok p ts fm)
  then obtain m where m: "GetFileMutex p (lg_mutexes s) = (m, fm)" "ts_os ts = Log_File p" "ts_os_mutex ts = m"
    "ts_pc ts = In_Use"
    by (auto simp: ThreadStream_file_def split: prod.splits if_splits)
  note G = GetFileMutex_ok [OF m(1) log_invD(1) [OF assms(1)]]
  show ?thesis
    unfolding open_file(1) using G m by (intro new_stream_inv [OF assms(1)]) simp_all
next
  case (open_fails ok p e fm)
  then obtain m where m: "GetFileMutex p (lg_mutexes s) = (m, fm)"
    by (auto simp: ThreadStream_file_def split: prod.splits)
  note G = GetFileMutex_ok [OF m log_invD(1) [OF assms(1)]]
  have w: "writing (s\<lparr>lg_mutexes := fm\<rparr>) k rest = writing s k rest" for k rest
    by (simp add: writing_def)
  show ?thesis
    unfolding open_fails(1) using assms(1) G by (simp add: log_inv_def w)
next
  case put
  then show ?thesis using put_inv [OF assms(1)] by simp
next
  case (set_format os p)
  then show ?thesis using assms(1) by (simp add: log_inv_def writing_def)
next
  case lock
  then show ?thesis using lock_inv [OF assms(1)] by simp
next
  case put_char
  then show ?thesis using put_char_inv [OF assms(1)] by simp
next
  case unlock
  then show ?thesis using unlock_inv [OF assms(1)] by simp
qed

lemma log_init_inv: "log_init s \<Longrightarrow> log_inv s"
  by (simp add: log_init_def log_inv_def fm_ok_def writing_def destroyed_messages_def)

interpretation log_lines: invariant_system log_init log_step log_inv
  by unfold_locales (auto intro: log_init_inv log_step_inv)

text \<open>What a destructor inserts is the message of the stream, padded.\<close>

definition text_inv :: "log_sys \<Rightarrow> bool" where
  "text_inv s \<longleftrightarrow>
     (\<forall>ts \<in> set (lg_streams s). ts_pc ts \<noteq> In_Use \<longrightarrow> (\<exists>p. ts_text ts = pad p (ts_str ts)))"

lemma text_inv_update:
  assumes "text_inv s" "lg_streams s' = (lg_streams s)[k := ts]"
    and "ts_pc ts \<noteq> In_Use \<Longrightarrow> \<exists>p. ts_text ts = pad p (ts_str ts)"
  shows "text_inv s'"
  using assms set_update_subset_insert [of "lg_streams s" k ts] unfolding text_inv_def by auto

lemma log_step_text:
  assumes "text_inv s" "log_step s t"
  shows "text_inv t"
  using assms(2)
proof cases
  case (console os ts)
  then show ?thesis
    using assms(1) by (auto simp: text_inv_def ThreadStream_console_def bind_result_eq_Inr)
next
  case (open_file ok p ts fm)
  then show ?thesis
    using assms(1) by (auto simp: text_inv_def ThreadStream_file_def split: prod.splits if_splits)
next
  case (put k c)
  then show ?thesis
    by (intro text_inv_update [OF assms(1), of _ k]) (auto simp: stream_put_def)
next
  case (lock k ts body)
  then show ?thesis
    by (intro text_inv_update [OF assms(1), of _ k]) auto
next
  case (put_char k ts c rest)
  then have "\<exists>p. ts_text ts = pad p (ts_str ts)"
    using assms(1) nth_mem [of k "lg_streams s"] unfolding text_inv_def by (metis stream_pc.distinct(1))
  then show ?thesis
    using put_char by (intro text_inv_update [where k = k and ts = "ts\<lparr>ts_pc := Writing rest\<rparr>", OF assms(1)]) auto
next
  case (unlock k ts)
  then have "\<exists>p. ts_text ts = pad p (ts_str ts)"
    using assms(1) nth_mem [of k "lg_streams s"] unfolding text_inv_def by (metis stream_pc.distinct(1))
  then show ?thesis
    using unlock by (intro text_inv_update [where k = k and ts = "ts\<lparr>ts_pc := Destroyed\<rparr>", OF assms(1)]) auto
qed (use assms(1) in \<open>simp_all add: text_inv_def\<close>)

lemma log_init_text: "log_init s \<Longrightarrow> text_inv s"
  by (simp add: log_init_def text_inv_def)

interpretation log_texts: invariant_system log_init log_step text_inv
  by unfold_locales (auto intro: log_init_text log_step_text)

text \<open>What an output has received.\<close>

lemma log_inv_output:
  assumes "log_inv s"
  shows "\<exists>part. lg_out s os = concat (lg_messages s os) @ part \<and>
    (part = [] \<or> (\<exists>k rest. writing s k rest \<and> ts_os (lg_streams s ! k) = os \<and>
      part @ rest = ts_text (lg_streams s ! k)))"
proof (cases "\<exists>k rest. writing s k rest \<and> ts_os (lg_streams s ! k) = os")
  case False
  then have "lg_out s os = concat (lg_messages s os)"
    by (intro log_invD(5) [OF assms]) blast
  then show ?thesis by simp
next
  case True
  then obtain k rest where k: "writing s k rest" "ts_os (lg_streams s ! k) = os" by blast
  let ?str = "ts_text (lg_streams s ! k)"
  have eq: "lg_out s os @ rest = concat (lg_messages s os) @ ?str"
    and le: "length rest \<le> length ?str"
    using log_invD(4,7) [OF assms k(1)] k(2) by simp_all
  from eq obtain us where "lg_out s os = concat (lg_messages s os) @ us \<and> us @ rest = ?str \<or>
      lg_out s os @ us = concat (lg_messages s os) \<and> rest = us @ ?str"
    by (auto simp: append_eq_append_conv2)
  then have "lg_out s os = concat (lg_messages s os) @ us \<and> us @ rest = ?str"
  proof
    assume longer: "lg_out s os @ us = concat (lg_messages s os) \<and> rest = us @ ?str"
    with le have "us = []" by simp
    with longer show ?thesis by simp
  qed
  with k show ?thesis by (intro exI [of _ us]) auto
qed

end
