(* ===== verification/Log_Lines.thy ===== *)
theory Log_Lines
  imports Wire Udp_Socket
begin

text \<open>
  The text of the log lines: \<^verbatim>\<open>ClientLog\<close> and \<^verbatim>\<open>ServerLog\<close> (\<^verbatim>\<open>src/client/client_log.cpp\<close>,
  \<^verbatim>\<open>src/server/server_log.cpp\<close>) and the \<^verbatim>\<open>PrintRecvLog\<close> and \<^verbatim>\<open>PrintSendLog\<close> of the two
  transactions. The local time, as \<^verbatim>\<open>std::put_time\<close> prints it, is an argument.
\<close>

section \<open>Colours and numbers\<close>

definition escape :: "string \<Rightarrow> string" where
  "escape code = CHR 0x1B # CHR ''['' # code @ ''m''"

definition RESET :: string where "RESET = escape ''0''"
definition BLACK :: string where "BLACK = escape ''30''"
definition RED :: string where "RED = escape ''31''"
definition GREEN :: string where "GREEN = escape ''32''"
definition YELLOW :: string where "YELLOW = escape ''33''"
definition BLUE :: string where "BLUE = escape ''34''"
definition MAGENTA :: string where "MAGENTA = escape ''35''"
definition CYAN :: string where "CYAN = escape ''36''"
definition WHITE :: string where "WHITE = escape ''37''"
definition BOLDBLACK :: string where "BOLDBLACK = escape ''1'' @ escape ''30''"
definition BOLDRED :: string where "BOLDRED = escape ''1'' @ escape ''31''"
definition BOLDGREEN :: string where "BOLDGREEN = escape ''1'' @ escape ''32''"
definition BOLDYELLOW :: string where "BOLDYELLOW = escape ''1'' @ escape ''33''"
definition BOLDBLUE :: string where "BOLDBLUE = escape ''1'' @ escape ''34''"
definition BOLDMAGENTA :: string where "BOLDMAGENTA = escape ''1'' @ escape ''35''"
definition BOLDCYAN :: string where "BOLDCYAN = escape ''1'' @ escape ''36''"
definition BOLDWHITE :: string where "BOLDWHITE = escape ''1'' @ escape ''37''"

text \<open>\<^verbatim>\<open>std::setw(n)\<close> with \<^verbatim>\<open>std::setfill('0')\<close>, and \<^verbatim>\<open>std::hex\<close>.\<close>

definition setw0 :: "nat \<Rightarrow> string \<Rightarrow> string" where
  "setw0 n s = replicate (n - length s) (CHR ''0'') @ s"

fun hex :: "nat \<Rightarrow> string" where
  "hex n =
     (if n < 16 then [''0123456789abcdef'' ! n]
      else hex (n div 16) @ [''0123456789abcdef'' ! (n mod 16)])"

declare hex.simps [simp del]

section \<open>Prefixes\<close>

text \<open>The objects that \<^verbatim>\<open>operator<<\<close> inserts into a stream, here one without a width, given by the
  text it holds. \<open>hms\<close>: the local time; \<open>us\<close>: microseconds since the epoch.\<close>

record ClientLog =
  client_log_message :: string

definition ClientLog_new :: "string \<Rightarrow> nat \<Rightarrow> ClientLog" where
  "ClientLog_new hms us =
     \<lparr>client_log_message =
        ''[TRFTP|'' @ BOLDMAGENTA @ ''C'' @ RESET @ ''] ['' @ BLUE @ hms @ ''.'' @
        setw0 6 (decimal (us mod 1000000)) @ RESET @ ''] ''\<rparr>"

definition ClientLog_move :: "ClientLog \<Rightarrow> ClientLog" where
  "ClientLog_move other = \<lparr>client_log_message = client_log_message other\<rparr>"

definition ClientLog_put :: "ClientLog \<Rightarrow> string \<Rightarrow> string" where
  "ClientLog_put log os = os @ client_log_message log"

record ServerLog =
  server_log_message :: string

definition ServerLog_new :: "string \<Rightarrow> nat \<Rightarrow> ServerLog" where
  "ServerLog_new hms us =
     \<lparr>server_log_message =
        ''[TRFTP|'' @ BOLDCYAN @ ''S'' @ RESET @ ''] ['' @ BLUE @ hms @ ''.'' @
        setw0 6 (decimal (us mod 1000000)) @ RESET @ ''] ''\<rparr>"

definition ServerLog_move :: "ServerLog \<Rightarrow> ServerLog" where
  "ServerLog_move other = \<lparr>server_log_message = server_log_message other\<rparr>"

definition ServerLog_put :: "ServerLog \<Rightarrow> string \<Rightarrow> string" where
  "ServerLog_put log os = os @ server_log_message log"

section \<open>Messages\<close>

fun client_recv_id :: "MessageId \<Rightarrow> string" where
  "client_recv_id NTF = ''NTF''"
| "client_recv_id INFO = ''INFO''"
| "client_recv_id DATA = ''DATA''"
| "client_recv_id FIN = ''FIN''"
| "client_recv_id CXL = ''CXL''"
| "client_recv_id _ = ''UNKNOWN''"

fun client_send_id :: "MessageId \<Rightarrow> string" where
  "client_send_id CHK = ''CHK''"
| "client_send_id RDY = ''RDY''"
| "client_send_id RTX = ''RTX''"
| "client_send_id DONE = ''DONE''"
| "client_send_id CXL = ''CXL''"
| "client_send_id _ = ''UNKNOWN''"

fun server_recv_id :: "MessageId \<Rightarrow> string" where
  "server_recv_id CHK = ''CHK''"
| "server_recv_id RDY = ''RDY''"
| "server_recv_id RTX = ''RTX''"
| "server_recv_id DONE = ''DONE''"
| "server_recv_id CXL = ''CXL''"
| "server_recv_id _ = ''UNKNOWN''"

fun server_send_id :: "MessageId \<Rightarrow> string" where
  "server_send_id NTF = ''NTF''"
| "server_send_id INFO = ''INFO''"
| "server_send_id DATA = ''DATA''"
| "server_send_id FIN = ''FIN''"
| "server_send_id CXL = ''CXL''"
| "server_send_id _ = ''UNKNOWN''"

text \<open>The rest of a line: the peer (its port with \<^verbatim>\<open>be16toh\<close>, which is \<^verbatim>\<open>htobe16\<close>) and the
  header.\<close>

definition log_peer :: "sockaddr_in \<Rightarrow> string" where
  "log_peer addr = inet_ntoa (s_addr addr) @ '':'' @ decimal (unat (htobe16 (sin_port addr)))"

definition log_header :: "TrftpHeader \<Rightarrow> string" where
  "log_header h =
     ''> (xid='' @ hex (unat (xid h)) @ '', tpn='' @ decimal (unat (tpn h)) @ '', psn='' @
     decimal (unat (psn h)) @ '', tpl='' @ decimal (unat (tpl h)) @ '', pl='' @
     decimal (unat (pl h)) @ '')'' @ [CHR 0x0A]"

definition client_PrintRecvLog :: "string \<Rightarrow> nat \<Rightarrow> sockaddr_in \<Rightarrow> TrftpMessage \<Rightarrow> string" where
  "client_PrintRecvLog hms us server_address msg =
     ClientLog_put (ClientLog_new hms us) [] @ ''recv '' @ YELLOW @ client_recv_id (message_id (xid (header msg))) @ RESET @
     '' from <'' @ log_peer server_address @ log_header (header msg)"

definition client_PrintSendLog :: "string \<Rightarrow> nat \<Rightarrow> sockaddr_in \<Rightarrow> TrftpMessage \<Rightarrow> string" where
  "client_PrintSendLog hms us server_address msg =
     ClientLog_put (ClientLog_new hms us) [] @ ''send '' @ YELLOW @ client_send_id (message_id (xid (header msg))) @ RESET @
     '' to <'' @ log_peer server_address @ log_header (header msg)"

definition server_PrintRecvLog :: "string \<Rightarrow> nat \<Rightarrow> sockaddr_in \<Rightarrow> TrftpMessage \<Rightarrow> string" where
  "server_PrintRecvLog hms us client_address msg =
     ServerLog_put (ServerLog_new hms us) [] @ ''recv '' @ YELLOW @ server_recv_id (message_id (xid (header msg))) @ RESET @
     '' from <'' @ log_peer client_address @ log_header (header msg)"

definition server_PrintSendLog :: "string \<Rightarrow> nat \<Rightarrow> sockaddr_in \<Rightarrow> TrftpMessage \<Rightarrow> string" where
  "server_PrintSendLog hms us client_address msg =
     ServerLog_put (ServerLog_new hms us) [] @ ''send '' @ YELLOW @ server_send_id (message_id (xid (header msg))) @ RESET @
     '' to <'' @ log_peer client_address @ log_header (header msg)"

section \<open>The copies agree\<close>

text \<open>A message is logged by its receiver under the name its sender logged.\<close>

lemma client_send_server_recv: "client_send_id i = server_recv_id i"
  by (cases i) simp_all

lemma server_send_client_recv: "server_send_id i = client_recv_id i"
  by (cases i) simp_all

text \<open>Each name is the one of \<^verbatim>\<open>FtpStatusToString\<close> or unknown.\<close>

lemma log_id_names:
  "client_recv_id i = (if i \<in> {NTF, INFO, DATA, FIN, CXL} then FtpStatusToString i else ''UNKNOWN'')"
  "client_send_id i = (if i \<in> {CHK, RDY, RTX, DONE, CXL} then FtpStatusToString i else ''UNKNOWN'')"
  by (cases i; simp)+

text \<open>The fraction of a second has six digits.\<close>

lemma length_decimal_less: "n < 10 ^ Suc k \<Longrightarrow> length (decimal n) \<le> Suc k"
proof (induction k arbitrary: n)
  case 0
  then show ?case by (subst decimal.simps) simp
next
  case (Suc k)
  then have "n div 10 < 10 ^ Suc k" by (simp add: less_mult_imp_div_less)
  then have "length (decimal (n div 10)) \<le> Suc k" by (rule Suc.IH)
  then show ?case by (subst decimal.simps) auto
qed

lemma length_setw0: "length (setw0 6 (decimal (us mod 1000000))) = 6"
  using length_decimal_less [of "us mod 1000000" 5] by (simp add: setw0_def)

end
