(* ===== verification/Log_Properties.thy ===== *)
theory Log_Properties
  imports Thread_Safe_Log Log_Lines
begin

text \<open>
  The property of the log streams: what an output shows, in every interleaving.
\<close>

text \<open>C40: In every interleaving of threads that create, fill and destroy streams, an output has
  received whole messages only, each destroyed stream of the output exactly once, and then at
  most the beginning of the message of one stream that is in its destructor. A message is
  what was put into its stream, padded to a width that the output may have had.\<close>

theorem log_messages_stay_whole:
  assumes "reachable log_init log_step s"
  shows "\<exists>msgs part. lg_out s os = concat msgs @ part \<and>
    mset msgs = mset (destroyed_messages os (lg_streams s)) \<and>
    (part = [] \<or> (\<exists>k rest. writing s k rest \<and> ts_os (lg_streams s ! k) = os \<and>
      part @ rest = ts_text (lg_streams s ! k))) \<and>
    (\<forall>ts \<in> set (lg_streams s). ts_pc ts \<noteq> In_Use \<longrightarrow> (\<exists>p. ts_text ts = pad p (ts_str ts)))"
proof -
  have inv: "log_inv s" by (rule log_lines.reachable_inv [OF assms])
  from log_inv_output [OF inv, of os] log_invD(6) [OF inv, of os] log_texts.reachable_inv [OF assms]
  show ?thesis unfolding text_inv_def by blast
qed

text \<open>One stream to \<^verbatim>\<open>std::cout\<close> that has written half of the line of a received message.\<close>

definition sample_line :: string where
  "sample_line = client_PrintRecvLog ''12:00:00'' 42 null_addr
     \<lparr>header = \<lparr>magic = TRFTP_MAGIC, spid = 0, dpid = 0, tpn = 1, tpl = 4, xid = xid_of NTF, crc32 = 0,
        psn = 0, pl = 4\<rparr>, payload = []\<rparr>"

definition sample_stream :: "stream_pc \<Rightarrow> string \<Rightarrow> string \<Rightarrow> ThreadStream" where
  "sample_stream pc s text =
     \<lparr>ts_os = Cout, ts_os_mutex = Cout_Mutex, ts_owns_file = False,
      ts_props = InitializeStreamProperties ios_init ios_init, ts_str = s, ts_pc = pc, ts_text = text\<rparr>"

definition sample_log :: "(mutex \<Rightarrow> nat option) \<Rightarrow> ThreadStream list \<Rightarrow> log_sys" where
  "sample_log h tss =
     \<lparr>lg_mutexes = \<lparr>fm_map = Map.empty, fm_next = 0\<rparr>, lg_holder = h, lg_props = (\<lambda>_. ios_init),
      lg_out = (\<lambda>_. []), lg_streams = tss, lg_messages = (\<lambda>_. [])\<rparr>"

lemma pad_init [simp]: "pad ios_init s = s" "pad (InitializeStreamProperties ios_init ios_init) s = s"
  by (simp_all add: pad_no_width ios_init_def InitializeStreamProperties_def)

lemma no_width [simp]:
  "(InitializeStreamProperties ios_init ios_init)\<lparr>ip_width := 0\<rparr> = InitializeStreamProperties ios_init ios_init"
  "ios_init\<lparr>ip_width := 0\<rparr> = ios_init"
  by (simp_all add: ios_init_def InitializeStreamProperties_def)

theorem log_messages_stay_whole_witness:
  "\<exists>s msgs part. reachable log_init log_step s \<and> writing s 0 sample_line \<and>
     lg_out s Cout = concat msgs @ part \<and> msgs = []"
proof -
  let ?h = "\<lambda>_ :: mutex. None :: nat option"
  let ?s = "sample_log (?h(Cout_Mutex := Some 0)) [sample_stream (Writing sample_line) sample_line sample_line]"
  have "log_init (sample_log ?h [])" by (simp add: log_init_def sample_log_def)
  then have 0: "reachable log_init log_step (sample_log ?h [])" by (rule reachable.reachable_init)
  have "log_step (sample_log ?h []) (sample_log ?h [sample_stream In_Use [] []])"
    using log_step.console [of "sample_log ?h []" Cout "sample_stream In_Use [] []"]
    by (simp add: ThreadStream_console_def GetConsoleMutex_def sample_stream_def sample_log_def)
  with 0 have 1: "reachable log_init log_step (sample_log ?h [sample_stream In_Use [] []])"
    by (rule reachable.reachable_step)
  have "log_step (sample_log ?h [sample_stream In_Use [] []]) (sample_log ?h [sample_stream In_Use sample_line []])"
    using log_step.put [of 0 "sample_log ?h [sample_stream In_Use [] []]" sample_line]
    by (simp add: sample_log_def sample_stream_def stream_put_def set_stream_def)
  with 1 have 2: "reachable log_init log_step (sample_log ?h [sample_stream In_Use sample_line []])"
    by (rule reachable.reachable_step)
  have "log_step (sample_log ?h [sample_stream In_Use sample_line []]) ?s"
    using log_step.lock [of 0 "sample_log ?h [sample_stream In_Use sample_line []]"
        "sample_stream In_Use sample_line []" sample_line]
    by (simp add: sample_log_def sample_stream_def set_stream_def sink_props_def fun_upd_idem)
  with 2 have 3: "reachable log_init log_step ?s" by (rule reachable.reachable_step)
  have w: "writing ?s 0 sample_line" by (simp add: writing_def sample_log_def sample_stream_def)
  obtain msgs part where "lg_out ?s Cout = concat msgs @ part"
    "mset msgs = mset (destroyed_messages Cout (lg_streams ?s))"
    using log_messages_stay_whole [OF 3, of Cout] by blast
  then show ?thesis
    using 3 w
    by (intro exI [of _ ?s] exI [of _ msgs] exI [of _ part])
      (simp add: destroyed_messages_def sample_log_def sample_stream_def)
qed

end
