(* ===== verification/Construction.thy ===== *)
theory Construction
  imports Client Server
begin

text \<open>
  The constructors with the sockets they open: \<^verbatim>\<open>ClientTransaction\<close> opens one on any port and
  sets its time-out to three seconds, \<^verbatim>\<open>Client\<close> and \<^verbatim>\<open>Server\<close> open the one they are known by.
  Arguments: what the system calls of each socket return.
\<close>

record socket_calls =
  sc_socket :: int
  sc_rcvtimeo :: int
  sc_reuse :: int
  sc_bind :: int

definition UdpSocket_open :: "socket_calls \<Rightarrow> UdpSocket result" where
  "UdpSocket_open c = fst (UdpSocket_new (sc_socket c) (sc_rcvtimeo c) (sc_reuse c) (sc_bind c))"

text \<open>The result of \<^verbatim>\<open>SetReadTimeout\<close> (in microseconds) is ignored, an exception is not.\<close>

definition ClientTransaction_construct ::
  "socket_calls \<Rightarrow> int \<Rightarrow> path \<Rightarrow> u32 \<Rightarrow> filesystem \<Rightarrow> datagram list \<Rightarrow> ClientTransaction result" where
  "ClientTransaction_construct c ret_timeout tmp file_version fs wire =
     bind_result (UdpSocket_open c)
       (\<lambda>sock. bind_result (udp_SetReadTimeout 3000000 ret_timeout sock)
          (\<lambda>_. Inr (ClientTransaction_new tmp sock file_version fs wire)))"

definition Client_construct ::
  "socket_calls \<Rightarrow> socket_calls \<Rightarrow> int \<Rightarrow> path \<Rightarrow> u32 \<Rightarrow> filesystem \<Rightarrow> datagram list \<Rightarrow> Client result" where
  "Client_construct c tc ret_timeout tmp cur_version fs wire =
     bind_result (UdpSocket_open c)
       (\<lambda>sock. bind_result (ClientTransaction_construct tc ret_timeout tmp cur_version fs wire)
          (\<lambda>ct. Inr (Client_new tmp sock (c_udp_socket ct) cur_version fs wire)))"

definition Server_construct :: "socket_calls \<Rightarrow> factory \<Rightarrow> Server result" where
  "Server_construct c factory = bind_result (UdpSocket_open c) (\<lambda>sock. Inr (Server_new sock factory))"

lemma UdpSocket_open_Inr: "UdpSocket_open c = Inr s \<Longrightarrow> 0 \<le> fd s \<and> fd s = sc_socket c"
  by (auto simp: UdpSocket_open_def dest: UdpSocket_new_Inr)

text \<open>The time-out call cannot throw: the socket is open.\<close>

lemma ClientTransaction_construct_iff:
  "ClientTransaction_construct c t tmp v fs w = Inr ct \<longleftrightarrow>
     (\<exists>s. UdpSocket_open c = Inr s \<and> ct = ClientTransaction_new tmp s v fs w)"
proof (cases "UdpSocket_open c")
  case (Inr s)
  then have "\<not> fd s < 0" using UdpSocket_open_Inr [OF Inr] by simp
  then show ?thesis
    using Inr by (auto simp: ClientTransaction_construct_def udp_SetReadTimeout_def)
qed (simp add: ClientTransaction_construct_def)

text \<open>The objects the constructors return are the initial states of the systems.\<close>

lemma Client_construct_init:
  assumes "Client_construct c tc t tmp v fs w = Inr cl"
  shows "main_init cl" "0 \<le> fd (cl_udp_socket cl)" "0 \<le> fd (c_udp_socket (cl_transaction cl))"
proof -
  obtain s ts where s: "UdpSocket_open c = Inr s" "UdpSocket_open tc = Inr ts"
    "cl = Client_new tmp s ts v fs w"
    using assms by (auto simp: Client_construct_def ClientTransaction_construct_iff bind_result_eq_Inr
        ClientTransaction_new_def)
  then show "main_init cl" unfolding main_init_def by blast
  show "0 \<le> fd (cl_udp_socket cl)" "0 \<le> fd (c_udp_socket (cl_transaction cl))"
    using s UdpSocket_open_Inr [OF s(1)] UdpSocket_open_Inr [OF s(2)]
    by (simp_all add: Client_new_def ClientTransaction_new_def)
qed

lemma Server_construct_init:
  "Server_construct c f = Inr sv \<Longrightarrow> sys_init f (sv, []) \<and> 0 \<le> fd (sv_udp_socket sv)"
  using UdpSocket_open_Inr [of c]
  by (auto simp: Server_construct_def sys_init_def bind_result_eq_Inr Server_new_def)

end
