(* ===== verification/Spec2Isabelle.thy ===== *)
theory Spec2Isabelle
  imports Codec_Properties Client_Properties Server_Properties Server_System_Properties
    Recovery_Properties Network_Properties Localhost_Properties Receiver_Spec Log_Properties Construction
begin

text \<open>
  A model of trftp, a library that transfers one file at a time from a server to a client
  over UDP, and the theorems that hold of it.

  \<^bold>\<open>The program.\<close> \<^verbatim>\<open>Server::StartFileTransfer\<close> makes a \<^verbatim>\<open>ServerTransaction\<close> for a client's
  address, enters it into \<^verbatim>\<open>active_transactions_\<close> and drives it: \<open>NTF\<close>, wait for \<open>CHK\<close>, \<open>INFO\<close>,
  wait for \<open>RDY\<close>, the packets of the file from a thread of their own, wait for \<open>DONE\<close>, \<open>FIN\<close>.
  The server's receiver thread hands what arrives to the transaction of its sender. On the
  other side \<^verbatim>\<open>Client\<close> receives the \<open>NTF\<close> on its public socket and calls
  \<^verbatim>\<open>ClientTransaction::Begin\<close>; the rest of the transfer is handled by the transaction's thread
  on a socket of its own, which stores the packets, asks for those that are missing (\<open>RTX\<close>),
  checks the file and calls the file handler.

  \<^bold>\<open>The theories\<close> and the code they model:
  \<^item> \<^verbatim>\<open>Prelude\<close>: machine types, exceptions as values, little-endian images with the contract of a
    codec, reachable states with the contract of an invariant.
  \<^item> \<^verbatim>\<open>Wire\<close>: \<^verbatim>\<open>include/trftp/common.h\<close>, message identifiers and packed structs, and the names of
    statuses (\<^verbatim>\<open>src/util.cpp\<close>).
  \<^item> \<^verbatim>\<open>Crc32\<close>, \<^verbatim>\<open>File_Io\<close>: the checksums of \<^verbatim>\<open>src/util.cpp\<close>, and what the program uses of the file
    streams of C++.
  \<^item> \<^verbatim>\<open>Udp_Socket\<close>: \<^verbatim>\<open>src/udp_socket.cpp\<close>; the results of system calls are arguments, the datagrams
    sent are a log.
  \<^item> \<^verbatim>\<open>Integrity\<close>: the checksum field of a message, and the contract of a receiver's
    \<^verbatim>\<open>ValidateMessageIntegrity\<close>.
  \<^item> \<^verbatim>\<open>Client_Transaction\<close>, \<^verbatim>\<open>Client_Invariant\<close>: \<^verbatim>\<open>src/client/client_transaction.cpp\<close>, one
    definition per message, and the invariant of its two threads.
  \<^item> \<^verbatim>\<open>Client\<close>: \<^verbatim>\<open>src/client/client.cpp\<close>; the whole client refines its transaction.
  \<^item> \<^verbatim>\<open>Server_Transaction\<close>, \<^verbatim>\<open>Server_Invariant\<close>, \<^verbatim>\<open>Sender_Run\<close>: \<^verbatim>\<open>src/server/server_transaction.cpp\<close>,
    the sending thread as a program counter, its invariant, and its run over a whole file.
  \<^item> \<^verbatim>\<open>Coverage\<close>: which packets have been on the wire at each position of the sending thread.
  \<^item> \<^verbatim>\<open>Server\<close>, \<^verbatim>\<open>Server_System\<close>, \<^verbatim>\<open>Routing\<close>: \<^verbatim>\<open>src/server/server.cpp\<close> and the transaction factory;
    calls as program counters over a heap of transactions, the map, the receiver thread.
  \<^item> \<^verbatim>\<open>Wait_For_Status\<close>: \<^verbatim>\<open>ServerTransaction::WaitForStatus\<close> statement by statement, with the loop
    of \<^verbatim>\<open>wait_for\<close>, against the two atomic steps of it that a call of \<^verbatim>\<open>Server\<close> takes.
  \<^item> \<^verbatim>\<open>Construction\<close>: the constructors with the sockets they open.
  \<^item> \<^verbatim>\<open>Reception\<close>, \<^verbatim>\<open>Exchange\<close>: how each side sees the other's messages, byte by byte.
  \<^item> \<^verbatim>\<open>Replies\<close>: what the client sends in answer to what it gets.
  \<^item> \<^verbatim>\<open>Session\<close>, \<^verbatim>\<open>Receiver_Spec\<close>: transfers over a channel that loses, repeats, reorders and damages;
    the abstract machine the receiving side refines.
  \<^item> \<^verbatim>\<open>Lossless\<close>, \<^verbatim>\<open>Schedule\<close>: transfers over a channel that delivers, and how they are schedules of
    the whole client and the whole server.
  \<^item> \<^verbatim>\<open>Wire_History\<close>: the data packets and the requests that a history of sent datagrams holds, read
    off its bytes.
  \<^item> \<^verbatim>\<open>Recovery\<close>: transfers in which packets are lost and asked for again, in rounds of the sending
    thread, the client and the requests on their way back.
  \<^item> \<^verbatim>\<open>Rtx_Race\<close>, \<^verbatim>\<open>Rtx_Overtaken\<close>: the handler of \<open>RTX\<close> at the granularity of its two atomics, its
    invariant, and a run in which a stored request is ahead of the sending thread.
  \<^item> \<^verbatim>\<open>Network\<close>, \<^verbatim>\<open>Network_File\<close>, \<^verbatim>\<open>Network_Messages\<close>, \<^verbatim>\<open>Network_Schedule\<close>,
    \<^verbatim>\<open>Prompt_Answer\<close>: a whole server and a whole client, each with all its threads and callers, and a network that may deliver what was sent at any
    time, any number of times or never, and anything that fails the integrity check; what one side
    may conclude from what it hears of the other, for any files and for one that does not change;
    the form of all datagrams; a complete transfer with losses as an execution, and one that fails
    without any.
  \<^item> \<^verbatim>\<open>Thread_Safe_Log\<close>, \<^verbatim>\<open>Log_Lines\<close>: \<^verbatim>\<open>src/thread_safe_log.cpp\<close>, the log prefixes and the lines
    for messages.
  \<^item> \<^verbatim>\<open>Localhost\<close>: the two programs of \<^verbatim>\<open>examples/localhost\<close>, their command lines, the file handler and
    the wait of the client's main thread.
  \<^item> \<^verbatim>\<open>Samples\<close>, \<^verbatim>\<open>Long_Sample\<close>, \<^verbatim>\<open>Network_Samples\<close>: files of two and of four packets, their servers,
    clients and links, and an execution of the network, at which the properties are instantiated.
  \<^item> \<^verbatim>\<open>Codec_Properties\<close>, \<^verbatim>\<open>Client_Properties\<close>, \<^verbatim>\<open>Server_Properties\<close>,
    \<^verbatim>\<open>Server_System_Properties\<close>, \<^verbatim>\<open>Recovery_Properties\<close>, \<^verbatim>\<open>Network_Properties\<close>,
    \<^verbatim>\<open>Localhost_Properties\<close>, \<^verbatim>\<open>Log_Properties\<close> and this theory: the properties, numbered by importance.

  \<^bold>\<open>State and operations.\<close> A class is a record with its members in order; a member function
  \<^verbatim>\<open>f\<close> of the client's or the server's transaction is \<^verbatim>\<open>client_f\<close> or \<^verbatim>\<open>server_f\<close>. A handler is one
  atomic step, with one exception: \<^verbatim>\<open>Rtx_Race\<close> splits \<^verbatim>\<open>ServerTransaction::OnReceive\<close> between the
  load of \<^verbatim>\<open>packet_sequence_number_\<close> and the store of \<^verbatim>\<open>retransmit_psn_\<close>, where it matters. Elsewhere,
  the end of \<^verbatim>\<open>client_on_fin\<close> included, what another thread could do between two statements of a
  handler is not a step of the model. Threads are program counters: the receiver threads, the transaction's thread, the
  sending thread, and the calls of \<^verbatim>\<open>StartFileTransfer\<close>, whose waits end by a change of status or,
  at any moment, by their time. The step relations (\<^verbatim>\<open>main_step\<close>, \<^verbatim>\<open>client_step\<close>, \<^verbatim>\<open>server_step\<close>,
  \<^verbatim>\<open>sys_step\<close>, \<^verbatim>\<open>net_step\<close>, \<^verbatim>\<open>wait_step\<close>, \<^verbatim>\<open>localhost_step\<close>, \<^verbatim>\<open>log_step\<close>) interleave them without a scheduler; what the operating system answers
  (\<^verbatim>\<open>env\<close>, \<^verbatim>\<open>senv\<close>, \<^verbatim>\<open>recv_event\<close>) and the bytes of uninitialised messages are arbitrary in every
  step. A step that throws out of a thread function has no successor (the process ends); an
  exception that leaves \<^verbatim>\<open>StartFileTransfer\<close> is a position of the call.

  \<^bold>\<open>What is shown.\<close> Agreement of the two programs on a faulty network: a call that returns \<open>FIN\<close> was
  preceded by a moment at which the client had the server's file, byte for byte (for a file that does
  not change), or a file of the announced size and checksum (for any files). Safety of the receiving side
  over any channel, with the abstract machine it refines. Completion: with any noticed losses the network
  has an execution in which the call returns \<open>FIN\<close>, the entry is gone and the file handler has got the
  file, and the packets sent and the requests made are those that the losses ask for. The form of every
  datagram. What \<open>FIN\<close> means in every interleaving; bounds of the sending
  thread, its termination and that of calls; that the model of \<^verbatim>\<open>WaitForStatus\<close> is one of its statements;
  detection of damaged datagrams; the table-driven checksum against its definition; round trips of
  the structs. The theorems also show where transfers cannot
  succeed: sizes up to one packet or that are a multiple of 1408, sizes near 4 GiB, addresses that are
  not spelled as \<^verbatim>\<open>inet_ntoa\<close> spells them, answers that arrive before the server waits for them or
  whose notification is lost, acknowledgements within the second after the last packet, a request
  that is stored after the sending thread has gone back, the loss of the first packet or of one of the last two, a failed send, a damaged \<open>NTF\<close>; and that the exit code
  of the example client does not depend on the file.

  \<^bold>\<open>Bounds and fuel.\<close> \<^verbatim>\<open>sender_run\<close> executes a given number of steps of the sending thread. A packet
  takes at most six (test, two checks, send, wait, increment), so that six per packet and two, for
  opening and the last test, suffice; the theorems say so. The same bound serves \<^verbatim>\<open>session\<close> and the
  rounds of \<^verbatim>\<open>lossy_session\<close>. The loop
  over a file terminates by a measure on the unread bytes.

  \<^bold>\<open>Assumptions.\<close> The host is little-endian (the library sends host order). A file is read as it was
  when it was opened, and the temporary file of the client is not changed from outside. \<^verbatim>\<open>inet_addr\<close>
  is a parameter; the theorem that needs it to invert \<^verbatim>\<open>inet_ntoa\<close> at the client's address says so.
  In \<^verbatim>\<open>WaitForStatus\<close> the last evaluation of the predicate and the read of the result are one step.
  A receiver thread starts when its constructor has returned.

  \<^bold>\<open>Not modelled.\<close> The unsynchronised accesses to \<^verbatim>\<open>active_transactions_\<close> from several threads are a data
  race in C++; here each access is a step. Apart from \<^verbatim>\<open>Rtx_Race\<close> two threads never meet inside a
  handler. In \<^verbatim>\<open>localhost_step\<close> the client's threads may go on after the end of the main thread's wait: the
  return of \<^verbatim>\<open>main\<close> and its destructors are not modelled. Times (\<^verbatim>\<open>sleep_until\<close>, time-outs) are not measured. The network is an environment, not code. The
  messages of the error paths on \<^verbatim>\<open>terr\<close>, what the examples print and do after the end of \<^verbatim>\<open>main\<close>, and
  the build files are left out: they are output and glue.
\<close>

section \<open>Whole transfers\<close>

text \<open>C4: Whatever the channel loses, repeats, delays or damages: when the client's transaction,
  begun by any \<open>NTF\<close> and fed any sequence of the datagrams of a server that sends \<open>bs\<close> and of
  datagrams that fail the integrity check, comes to \<open>DONE\<close>, the file it has stored is \<open>bs\<close>.\<close>

theorem lossy_channel_stores_file:
  assumes "client_Begin cb E msg len addr ct0 = Inr ct" "message_id (xid (header msg)) = NTF"
    and "c_thread ct \<noteq> No_Thread"
    and "\<forall>d \<in> set ds. channel bs d" "client_feed cb ds ct = Inr ct'" "c_status ct' = DONE"
  shows "\<exists>f. c_files ct' (c_new_file_path ct') = Some f \<and> content f = bs"
proof -
  have "serves bs ct'"
    using client_feed_serves [OF assms(5) client_Begin_serves [OF assms(1-3)]] assms(4) channel_genuine
    by blast
  then show ?thesis using assms(6) by (simp add: serves_def stores_only_def)
qed

theorem lossy_channel_stores_file_witness:
  "\<exists>ct ct'. client_Begin None sample_env (recv_into junk (server_image NTF junk sample_server))
       (recv_len (server_image NTF junk sample_server)) sample_addr sample_client = Inr ct \<and>
     client_feed None (sample_deliveries sample_server) ct = Inr ct' \<and> c_status ct' = DONE \<and>
     (\<exists>f. c_files ct' (c_new_file_path ct') = Some f \<and> content f = sample_file)"
proof -
  obtain ct where ct: "client_Begin None sample_env (recv_into junk (server_image NTF junk sample_server))
      (recv_len (server_image NTF junk sample_server)) sample_addr sample_client = Inr ct"
    "checked sample_server ct"
    using sample_begin by blast
  obtain ct' where ct': "client_feed None (sample_deliveries sample_server) ct = Inr ct'" "c_status ct' = DONE"
    using sample_feed [OF ct(2)] by (auto simp: acknowledged_def)
  have ntf: "message_id (xid (header (recv_into junk (server_image NTF junk sample_server)))) = NTF"
    by (rule server_image_received(2)) simp_all
  have "\<forall>d \<in> set (sample_deliveries sample_server). channel sample_file d"
    using sample_from_server by (auto simp: channel_def)
  from lossy_channel_stores_file [OF ct(1) ntf _ this ct'] ct(2) show ?thesis
    using ct(1) ct' by (auto simp: checked_def)
qed

text \<open>C5: The client's transaction refines the machine of \<^verbatim>\<open>Receiver_Spec\<close>. Over such a channel,
  each datagram is one step of the machine, from the phase of the transaction before it to the
  phase after it: from the offer through the packets of \<open>bs\<close>, one after the other, to the stored
  and the delivered file, or staying, or cancelling. The transaction never goes back to an earlier
  phase. In phase \<open>k\<close> its stream, unless writing has failed, holds the first \<open>k\<close> packets of
  \<open>bs\<close>, and the stored file is \<open>bs\<close>.\<close>

theorem receiver_refines_spec:
  assumes "client_Begin cb E msg len addr ct0 = Inr ct" "message_id (xid (header msg)) = NTF"
    and "c_thread ct \<noteq> No_Thread"
    and "\<forall>d \<in> set ds. channel bs d" "client_feed cb ds ct = Inr ct'"
  shows "length (client_states cb ds ct) = Suc (length ds) \<and>
    (\<forall>k \<le> length ds. client_feed cb (take k ds) ct = Inr (client_states cb ds ct ! k)) \<and>
    receiver_phase ct = Offered \<and>
    (\<forall>k < length ds. receiver_step bs (receiver_phase (client_states cb ds ct ! k))
       (receiver_phase (client_states cb ds ct ! Suc k))) \<and>
    sorted (map receiver_phase (client_states cb ds ct)) \<and>
    (\<forall>ct1 \<in> set (client_states cb ds ct). phase_holds bs ct1)"
proof -
  note len = client_states_feed [OF assms(5)]
  have run: "successively (receiver_step bs) (map receiver_phase (client_states cb ds ct))"
    "\<forall>ct1 \<in> set (client_states cb ds ct). serves bs ct1"
    using client_states_serve [OF assms(5) client_Begin_serves [OF assms(1-3)]] assms(4) channel_genuine by blast+
  have "receiver_phase ct = Offered"
    using client_Begin_CHK(1) [OF assms(1-3)] by (simp add: receiver_phase_def)
  with len run(2) receiver_trace_sorted [OF run(1)] successively_nth [OF run(1)] serves_phase_holds
  show ?thesis by auto
qed

theorem receiver_refines_spec_witness:
  "\<exists>ct. c_status ct = CHK \<and>
     map receiver_phase (client_states None (sample_deliveries sample_server) ct) = [Offered, Storing 0, Storing 1, Stored]"
proof -
  obtain ct where ct: "client_Begin None sample_env (recv_into junk (server_image NTF junk sample_server))
      (recv_len (server_image NTF junk sample_server)) sample_addr sample_client = Inr ct"
    "checked sample_server ct"
    using sample_begin by blast
  obtain ct' where ct': "client_feed None (sample_deliveries sample_server) ct = Inr ct'" "c_status ct' = DONE"
    using sample_feed [OF ct(2)] by (auto simp: acknowledged_def)
  let ?cts = "client_states None (sample_deliveries sample_server) ct"
  have ntf: "message_id (xid (header (recv_into junk (server_image NTF junk sample_server)))) = NTF"
    by (rule server_image_received(2)) simp_all
  have "\<forall>d \<in> set (sample_deliveries sample_server). channel sample_file d"
    using sample_from_server by (auto simp: channel_def)
  note r = receiver_refines_spec [OF ct(1) ntf _ this ct'(1)]
  have n: "length (sample_deliveries sample_server) = 3" by (simp add: sample_deliveries_def)
  have len: "length ?cts = 4" and runs: "\<And>k. k \<le> 3 \<Longrightarrow>
      client_feed None (take k (sample_deliveries sample_server)) ct = Inr (?cts ! k)"
    and first: "receiver_phase ct = Offered" and steps: "\<And>k. k < 3 \<Longrightarrow>
      receiver_step sample_file (receiver_phase (?cts ! k)) (receiver_phase (?cts ! Suc k))"
    using r ct(2) n by (auto simp: checked_def)
  have ends: "?cts ! 0 = ct" "?cts ! 3 = ct'"
    using runs [of 0] runs [of 3] ct'(1) n by simp_all
  have "map receiver_phase ?cts = map (\<lambda>k. receiver_phase (?cts ! k)) [0, 1, 2, 3]"
    using len by (intro nth_equalityI) (auto simp: less_Suc_eq numeral_eq_Suc)
  also have "\<dots> = [Offered, Storing 0, Storing 1, Stored]"
    using steps [of 0] steps [of 1] steps [of 2] first ends ct'(2)
    by (auto simp: receiver_phase_def [of ct'] numeral_eq_Suc elim: receiver_step.cases)
  finally show ?thesis using ct(2) by (auto simp: checked_def)
qed

text \<open>C7: In every interleaving, a call returns \<open>FIN\<close> only when its sending thread has returned, the
  count has reached the number of packets, and every packet of the file it read has been on
  the wire.\<close>

theorem FIN_means_all_sent:
  assumes "server_reachable inet_addr sv cs" "c \<in> set cs" "call_pc c = Finished FIN"
    and "st = sv_heap sv ! call_tran c"
  shows "s_thr st = Returned \<and> s_packet_sequence_number st = s_total_packet_number st \<and>
    (\<forall>k < unat (s_total_packet_number st). on_wire st k)"
proof -
  have ok: "all_sent st" "ServerTransaction_delete_returns st" "tran_inv st"
    using reachable_call(2,3) [OF assms(1,2)] assms(3,4) by (simp_all add: over_def)
  then show ?thesis
    using all_sent_on_wire [OF ok(3,1)] by (auto simp: all_sent_def ServerTransaction_delete_returns_def)
qed

theorem FIN_means_all_sent_witness:
  "\<exists>sv c. server_reachable sample_inet_addr sv [c] \<and> call_pc c = Finished FIN \<and>
     s_thr (sv_heap sv ! call_tran c) = Returned"
proof -
  obtain sv c where s: "server_reachable sample_inet_addr sv [c]" "call_pc c = Finished FIN"
    using sample_call_done by blast
  from FIN_means_all_sent [OF s(1) list.set_intros(1) s(2) refl] s show ?thesis by blast
qed

section \<open>What cannot be transferred\<close>

text \<open>C9: A file of at most one packet, or of a length that is a multiple of 1408, is never
  delivered: whatever the server of the file sends and the channel does with it, the client
  does not come to \<open>DONE\<close>.\<close>

theorem untransferable_sizes:
  assumes "client_Begin cb E msg len addr ct0 = Inr ct" "message_id (xid (header msg)) = NTF"
    and "c_thread ct \<noteq> No_Thread"
    and "\<forall>d \<in> set ds. channel bs d" "client_feed cb ds ct = Inr ct'"
    and "length bs \<le> 1408 \<or> length bs mod 1408 = 0"
  shows "c_status ct' \<noteq> DONE"
  by (rule never_DONE [OF assms(5) client_Begin_serves [OF assms(1-3)] _ _ assms(6)])
    (use client_Begin_CHK(1) [OF assms(1-3)] assms(4) in simp_all)

text \<open>A server of one byte: the client refuses its only packet.\<close>

definition tiny_server :: ServerTransaction where
  "tiny_server = sample_server\<lparr>s_new_file_size := 1\<rparr>"

definition tiny_deliveries :: "delivery list" where
  "tiny_deliveries =
     [deliver_image (server_image INFO junk tiny_server),
      packet_delivery sample_env junk junk sample_addr [7] tiny_server 0]"

lemma tiny_channel: "d \<in> set tiny_deliveries \<Longrightarrow> channel [7] d"
proof -
  assume "d \<in> set tiny_deliveries"
  then consider "d = deliver_image (server_image INFO junk tiny_server)"
    | "d = packet_delivery sample_env junk junk sample_addr [7] tiny_server 0"
    by (auto simp: tiny_deliveries_def)
  then show ?thesis
    unfolding channel_def from_server_def
    by cases
      (rule disjI1, rule exI [of _ tiny_server], rule exI [of _ junk], rule exI [of _ junk],
        simp add: tiny_server_def packet_delivery_def packets_of_def)+
qed

lemma tiny_feed:
  assumes "checked tiny_server ct"
  shows "\<exists>ct'. client_feed None tiny_deliveries ct = Inr ct'"
proof -
  obtain ct1 where ct1: "client_OnReceive Transaction_Thread None sample_env
      (recv_into junk (server_image INFO junk tiny_server))
      (recv_len (server_image INFO junk tiny_server)) sample_addr ct = Inr ct1"
    "receiving [7] tiny_server 0 ct1"
    using client_gets_INFO [OF wf_junk wf_junk good_sample_env assms, of "[7]" None sample_addr]
    by (auto simp: tiny_server_def)
  let ?m = "recv_packet junk junk [7] tiny_server 0"
  have "client_ValidateMessageIntegrity ?m (32 + slice_len 1 0)" "message_id (xid (header ?m)) = DATA"
    "psn (header ?m) = 0"
    using data_packet_accepted [OF wf_junk wf_junk, of tiny_server "[7]" 0]
      recv_packet_header(1,4) [OF wf_junk wf_junk, of tiny_server "[7]" 0]
    by (simp_all add: tiny_server_def packets_of_def)
  moreover from this(3) have "\<not> client_data_admissible ?m 1 c" for c
    by (simp add: client_data_admissible_def sizeof_payload_defs)
  moreover have "0 \<le> fd (c_udp_socket ct1)" using ct1(2) by (simp add: receiving_def)
  ultimately have "\<exists>ct'. client_OnReceive Transaction_Thread None sample_env ?m (32 + slice_len 1 0)
      sample_addr ct1 = Inr ct'"
    by (simp add: client_OnReceive_def client_on_data_def slice_len_def sizeof_defs client_SendMessage_ok sample_env_def)
  then show ?thesis
    using ct1(1) by (auto simp: tiny_deliveries_def packet_delivery_def)
qed

theorem untransferable_sizes_witness:
  "\<exists>ct ct'. client_Begin None sample_env (recv_into junk (server_image NTF junk tiny_server))
       (recv_len (server_image NTF junk tiny_server)) sample_addr sample_client = Inr ct \<and>
     client_feed None tiny_deliveries ct = Inr ct' \<and> c_status ct' \<noteq> DONE"
proof -
  let ?ntf = "server_image NTF junk tiny_server"
  obtain ct where ct: "client_Begin None sample_env (recv_into junk ?ntf) (recv_len ?ntf) sample_addr
      sample_client = Inr ct" "checked tiny_server ct"
    using client_gets_NTF [OF wf_junk wf_junk good_sample_env, of sample_client None tiny_server sample_addr]
      sample_client_ready
    by (auto simp: sample_link_def sample_env_def)
  obtain ct' where ct': "client_feed None tiny_deliveries ct = Inr ct'"
    using tiny_feed [OF ct(2)] by blast
  have ntf: "message_id (xid (header (recv_into junk ?ntf))) = NTF"
    by (rule server_image_received(2)) simp_all
  have "c_status ct' \<noteq> DONE"
    using untransferable_sizes [OF ct(1) ntf _ _ ct', of "[7]"] ct(2) tiny_channel by (auto simp: checked_def)
  with ct(1) ct' show ?thesis by blast
qed

section \<open>Each side understands the other\<close>

text \<open>C16: A data packet as the server builds it passes the client's integrity check exactly when it
  is not the last of its file or the length of the file is not a multiple of 1408: the header
  of a full last packet says 0 bytes.\<close>

theorem data_packet_accepted_iff:
  assumes "wf_message j" "wf_message cj" "unat (s_new_file_size st) = length bs" "k < packets_of bs"
  shows "client_ValidateMessageIntegrity (recv_packet cj j bs st k) (32 + slice_len (length bs) k) \<longleftrightarrow>
    Suc k \<noteq> packets_of bs \<or> length bs mod 1408 \<noteq> 0"
  using data_packet_accepted [OF assms(1-3)] assms(4) by (simp add: packets_of_def)

theorem data_packet_accepted_iff_witness:
  "client_ValidateMessageIntegrity (recv_packet junk junk sample_file sample_server 1) 33 \<and>
   \<not> client_ValidateMessageIntegrity
       (recv_packet junk junk (replicate 1408 7) (sample_server\<lparr>s_new_file_size := 1408\<rparr>) 0) 1440"
  using data_packet_accepted_iff [OF wf_junk wf_junk sample_fields(1), of 1]
    data_packet_accepted_iff [OF wf_junk wf_junk, of "sample_server\<lparr>s_new_file_size := 1408\<rparr>" "replicate 1408 7" 0]
  by (simp add: slice_len_def packets_of_def)

end
